(* ===== verification/Prelude.thy ===== *)
theory Prelude
  imports Main "HOL-Library.Word" "HOL-Library.List_Lexorder" "HOL-Library.Char_ord"
begin

text \<open>
  Shared vocabulary of the development: the names of Rust's integer types, the model of
  the standard library's \<^verbatim>\<open>BTreeMap\<close>, and the two generic interfaces every system-level
  proof goes through (transition systems with inductive invariants, and quorums).

  \<^verbatim>\<open>u64\<close>, \<^verbatim>\<open>u32\<close> and \<^verbatim>\<open>u16\<close> are words of their width, so arithmetic on them wraps around as
  the release build of the program does. \<^verbatim>\<open>usize\<close> is \<open>nat\<close>: in this program it only ever
  holds lengths and indices of vectors that exist in memory (at most \<open>2 ^ 63\<close> elements) and
  their successors.
\<close>

type_synonym u64 = "64 word"
type_synonym u32 = "32 word"
type_synonym u16 = "16 word"
type_synonym usize = nat

named_theorems wf_intro "introduction rules for well-formedness invariants"

subsection \<open>Words\<close>

lemma word_less_succ: "(x :: 'a::len word) \<noteq> - 1 \<Longrightarrow> x < x + 1"
  by (metis inc_less_eq_triv_imp linorder_less_linear word_le_less_eq)

lemma word_succ_le_iff: "(x :: 'a::len word) \<noteq> - 1 \<Longrightarrow> y \<le> x \<Longrightarrow> y < x + 1"
  using word_less_succ [of x] by simp

subsection \<open>Lists\<close>

lemma take_Suc_nth_append: "k < length xs \<Longrightarrow> take (Suc k) (xs @ ys) = take (Suc k) xs"
  by simp

lemma take_eq_nth: "take n xs = take n ys \<Longrightarrow> k < n \<Longrightarrow> k < length xs \<Longrightarrow> k < length ys \<Longrightarrow> xs ! k = ys ! k"
  by (metis nth_take)

lemma take_le_eq: "take n xs = take n ys \<Longrightarrow> m \<le> n \<Longrightarrow> take m xs = take m ys"
  by (metis min.absorb1 take_take)

lemma split_at_first: "x \<notin> set a \<Longrightarrow> x \<notin> set b \<Longrightarrow> a @ x # s = b @ x # t \<longleftrightarrow> a = b \<and> s = t"
proof (induction a arbitrary: b)
  case Nil
  then show ?case by (cases b) auto
next
  case (Cons y a)
  then show ?case by (cases b) auto
qed

lemma strict_sorted_remdups_adj: "sorted xs \<Longrightarrow> sorted_wrt (<) (remdups_adj (xs :: 'a::linorder list))"
proof (induction xs rule: remdups_adj.induct)
  case (3 x y xs)
  show ?case
  proof (cases "x = y")
    case False
    with 3 have "sorted_wrt (<) (remdups_adj (y # xs))" and "x < y" by auto
    moreover have "\<forall>z \<in> set (remdups_adj (y # xs)). x < z" using 3(3) \<open>x < y\<close> by auto
    ultimately show ?thesis using False by simp
  qed (use 3 in simp)
qed simp_all

subsection \<open>BTreeMap: an ordered map as its ascending entry list\<close>

text \<open>
  A \<^verbatim>\<open>BTreeMap<K, V>\<close> is modelled by the list of its entries in key order, which is what
  \<^verbatim>\<open>iter()\<close> yields. \<^verbatim>\<open>get\<close> is \<open>map_of\<close>, \<^verbatim>\<open>retain\<close> is \<open>filter\<close>, \<^verbatim>\<open>len\<close> is \<open>length\<close>.
\<close>

type_synonym ('k, 'v) btree = "('k \<times> 'v) list"

abbreviation btree_ok :: "('k::linorder, 'v) btree \<Rightarrow> bool" where
  "btree_ok m \<equiv> sorted_wrt (<) (map fst m)"

fun btree_insert :: "'k::linorder \<Rightarrow> 'v \<Rightarrow> ('k, 'v) btree \<Rightarrow> ('k, 'v) btree" where
  "btree_insert k v [] = [(k, v)]"
| "btree_insert k v ((k', v') # m) =
     (if k = k' then (k, v) # m
      else if k < k' then (k, v) # (k', v') # m
      else (k', v') # btree_insert k v m)"

text \<open>The first entry of \<^verbatim>\<open>range(k..)\<close>: the entry with the least key that is at least \<open>k\<close>.\<close>

definition btree_first_ge :: "'k::linorder \<Rightarrow> ('k, 'v) btree \<Rightarrow> ('k \<times> 'v) option" where
  "btree_first_ge k m = List.find (\<lambda>e. k \<le> fst e) m"

lemma map_of_btree_insert [simp]: "map_of (btree_insert k v m) = (map_of m)(k \<mapsto> v)"
  by (induction m) (auto simp: fun_eq_iff)

lemma set_keys_btree_insert [simp]: "fst ` set (btree_insert k v m) = insert k (fst ` set m)"
proof -
  have "set (map fst (btree_insert k v m)) = insert k (set (map fst m))"
    by (induction k v m rule: btree_insert.induct) (simp_all add: insert_commute)
  then show ?thesis by simp
qed

lemma btree_ok_insert [simp, intro]: "btree_ok m \<Longrightarrow> btree_ok (btree_insert k v m)"
  by (induction k v m rule: btree_insert.induct) (auto simp: Ball_def)

lemma btree_ok_filter [simp, intro]: "btree_ok m \<Longrightarrow> btree_ok (filter P m)"
  by (induction m) auto

lemma btree_ok_distinct [dest]: "btree_ok m \<Longrightarrow> distinct (map fst m)"
  by (simp add: strict_sorted_iff)

lemma btree_insert_ne [simp]: "btree_insert k v m \<noteq> []"
  by (cases m rule: list.exhaust) (auto split: if_splits)

lemma btree_entry_iff: "btree_ok m \<Longrightarrow> (k, v) \<in> set m \<longleftrightarrow> map_of m k = Some v"
  using btree_ok_distinct map_of_eq_Some_iff by fastforce

subsection \<open>Transition systems and inductive invariants\<close>

text \<open>
  The interface of a transition system: its start states, its steps and its reachable
  states, which are the least set closed under both. An inductive invariant of the system
  holds in every reachable state; a preservation proof may use what is already known of
  reachable states.
\<close>

locale transition_system =
  fixes init :: "'s \<Rightarrow> bool" and step :: "'s \<Rightarrow> 's \<Rightarrow> bool" and reach :: "'s \<Rightarrow> bool"
  assumes reach_induct:
    "reach s \<Longrightarrow> (\<And>s. init s \<Longrightarrow> P s) \<Longrightarrow>
     (\<And>s t. reach s \<Longrightarrow> P s \<Longrightarrow> step s t \<Longrightarrow> P t) \<Longrightarrow> P s"

locale inductive_invariant = transition_system +
  fixes inv :: "'s \<Rightarrow> bool"
  assumes inv_init: "init s \<Longrightarrow> inv s"
    and inv_step: "reach s \<Longrightarrow> inv s \<Longrightarrow> step s t \<Longrightarrow> inv t"
begin

lemma holds: "reach s \<Longrightarrow> inv s"
  by (erule reach_induct) (auto intro: inv_init inv_step)

end

text \<open>
  Forward simulation: every start of the concrete system is matched by a start of the abstract one,
  and every concrete step by any number of abstract steps. Then so is every concrete run.
\<close>

locale forward_simulation =
  fixes cinit :: "'c \<Rightarrow> bool" and cstep :: "'c \<Rightarrow> 'c \<Rightarrow> bool"
    and ainit :: "'a \<Rightarrow> bool" and asteps :: "'a \<Rightarrow> 'a \<Rightarrow> bool" and sim :: "'c \<Rightarrow> 'a \<Rightarrow> bool"
  assumes asteps_refl: "asteps a a"
    and asteps_trans: "asteps a a' \<Longrightarrow> asteps a' a'' \<Longrightarrow> asteps a a''"
    and sim_init: "cinit c \<Longrightarrow> \<exists>a. ainit a \<and> sim c a"
    and sim_step: "sim c a \<Longrightarrow> cstep c c' \<Longrightarrow> \<exists>a'. asteps a a' \<and> sim c' a'"
begin

lemma sim_steps: "cstep\<^sup>*\<^sup>* c c' \<Longrightarrow> sim c a \<Longrightarrow> \<exists>a'. asteps a a' \<and> sim c' a'"
proof (induction rule: rtranclp_induct)
  case base
  then show ?case using asteps_refl by blast
next
  case (step y z)
  then obtain b where "asteps a b" "sim y b" by blast
  with sim_step [OF this(2) step.hyps(2)] show ?case using asteps_trans [of a b] by blast
qed

lemma run_simulated: "cinit c \<Longrightarrow> cstep\<^sup>*\<^sup>* c c' \<Longrightarrow> \<exists>a a'. ainit a \<and> asteps a a' \<and> sim c' a'"
  using sim_init sim_steps by blast

end

subsection \<open>Quorums\<close>

text \<open>Any two quorums share a member: what every agreement proof needs of majorities.\<close>

locale quorum_system =
  fixes quorum :: "'a set \<Rightarrow> bool"
  assumes quorum_meet: "quorum Q \<Longrightarrow> quorum R \<Longrightarrow> \<exists>x. x \<in> Q \<and> x \<in> R"
begin

text \<open>If every member of a quorum made a choice, and nobody makes two, two quorums agree.\<close>

lemma agreement:
  assumes "quorum Q" "quorum R"
    and Q: "\<And>x. x \<in> Q \<Longrightarrow> chosen x a" and R: "\<And>x. x \<in> R \<Longrightarrow> chosen x b"
    and one: "\<And>x c d. chosen x c \<Longrightarrow> chosen x d \<Longrightarrow> c = d"
  shows "a = b"
  using quorum_meet [OF assms(1,2)] Q R one by blast

lemma quorum_nonempty: "quorum Q \<Longrightarrow> Q \<noteq> {}"
  using quorum_meet by blast

end

end
