(* ===== verification/Rust_Text.thy ===== *)
theory Rust_Text
  imports Prelude
begin

text \<open>
  The parts of Rust's string library the program uses. A \<^verbatim>\<open>String\<close> is its UTF-8 bytes, so
  \<^verbatim>\<open>len()\<close> is \<open>length\<close>; every separator the program looks for is ASCII, so working on bytes
  and on characters gives the same result.
\<close>

subsection \<open>Characters\<close>

abbreviation CR :: char where "CR \<equiv> CHR 0x0D"
abbreviation LF :: char where "LF \<equiv> CHR 0x0A"

abbreviation crlf :: string where "crlf \<equiv> [CR, LF]"

definition starts_with :: "char \<Rightarrow> string \<Rightarrow> bool" where
  "starts_with c s = (case s of [] \<Rightarrow> False | x # _ \<Rightarrow> x = c)"

text \<open>\<^verbatim>\<open>to_uppercase\<close> on ASCII letters; bytes of other characters are left as they are.\<close>

definition upper_char :: "char \<Rightarrow> char" where
  "upper_char c = (let n = (of_char c :: nat) in if 97 \<le> n \<and> n \<le> 122 then char_of (n - 32) else c)"

definition to_uppercase :: "string \<Rightarrow> string" where
  "to_uppercase s = map upper_char s"

subsection \<open>split and lines\<close>

text \<open>\<^verbatim>\<open>str::split(c)\<close>: the pieces between the separators, at least one.\<close>

fun split_on :: "char \<Rightarrow> string \<Rightarrow> string list" where
  "split_on c [] = [[]]"
| "split_on c (x # xs) =
     (if x = c then [] # split_on c xs
      else (case split_on c xs of [] \<Rightarrow> [[x]] | p # ps \<Rightarrow> (x # p) # ps))"

definition strip_cr :: "string \<Rightarrow> string" where
  "strip_cr l = (if l \<noteq> [] \<and> last l = CR then butlast l else l)"

text \<open>
  \<^verbatim>\<open>str::lines()\<close>: pieces ended by a line feed, each without that line feed and without one
  carriage return before it; a last piece with no line feed is a line only if it is not empty.
  \<^verbatim>\<open>BufRead::lines()\<close> yields the same lines.
\<close>

definition str_lines :: "string \<Rightarrow> string list" where
  "str_lines s =
     (let ps = split_on LF s
      in map strip_cr (butlast ps) @ (if last ps = [] then [] else [last ps]))"

lemma split_on_ne [simp]: "split_on c s \<noteq> []"
  by (cases s) (auto split: list.splits)

lemma split_on_no_sep [simp]: "c \<notin> set s \<Longrightarrow> split_on c s = [s]"
  by (induction s) auto

lemma split_on_append [simp]: "c \<notin> set a \<Longrightarrow> split_on c (a @ c # s) = a # split_on c s"
  by (induction a) auto

lemma split_on_pieces: "p \<in> set (split_on c s) \<Longrightarrow> c \<notin> set p"
proof (induction s arbitrary: p)
  case (Cons x s)
  then show ?case
    by (cases "split_on c s") (auto split: if_splits)
qed simp

lemma length_split_on: "length (split_on c s) = Suc (count_list s c)"
proof (induction s)
  case (Cons x s)
  then show ?case by (cases "split_on c s") auto
qed simp

lemma strip_cr_id [simp]: "CR \<notin> set l \<Longrightarrow> strip_cr l = l"
  by (auto simp: strip_cr_def dest: last_in_set)

lemma strip_cr_snoc [simp]: "strip_cr (l @ [CR]) = l"
  by (simp add: strip_cr_def)

lemma str_lines_Nil [simp]: "str_lines [] = []"
  by (simp add: str_lines_def)

lemma str_lines_line: "LF \<notin> set l \<Longrightarrow> str_lines (l @ LF # s) = strip_cr l # str_lines s"
  by (simp add: str_lines_def Let_def)

lemma str_lines_crlf:
  assumes "LF \<notin> set l"
  shows "str_lines (l @ CR # LF # s) = l # str_lines s"
  using str_lines_line [of "l @ [CR]" s] assms by simp

text \<open>Lines can be read off a concatenation of complete lines one block at a time.\<close>

lemma str_lines_append: "str_lines ((a @ [LF]) @ s) = str_lines (a @ [LF]) @ str_lines s"
proof (induction "length a" arbitrary: a rule: less_induct)
  case less
  show ?case
  proof (cases "LF \<in> set a")
    case True
    then obtain l r where a: "a = l @ LF # r" and l: "LF \<notin> set l"
      by (meson split_list_first)
    with less [of r] show ?thesis by (simp add: str_lines_line)
  next
    case False
    then show ?thesis using str_lines_line [of a] by simp
  qed
qed

subsection \<open>Decimal numbers\<close>

definition digit_char :: "nat \<Rightarrow> char" where
  "digit_char d = char_of (48 + d)"

definition digit_val :: "char \<Rightarrow> nat option" where
  "digit_val c = (let n = of_char c in if 48 \<le> n \<and> n \<le> 57 then Some (n - 48) else None)"

text \<open>\<^verbatim>\<open>format!("{}", n)\<close> for an unsigned and a signed integer.\<close>

fun show_nat :: "nat \<Rightarrow> string" where
  "show_nat n = (if n < 10 then [digit_char n] else show_nat (n div 10) @ [digit_char (n mod 10)])"

declare show_nat.simps [simp del]

definition show_int :: "int \<Rightarrow> string" where
  "show_int i = (if i < 0 then CHR ''-'' # show_nat (nat (- i)) else show_nat (nat i))"

text \<open>
  \<^verbatim>\<open>str::parse::<usize>()\<close>: an optional plus sign, then at least one decimal digit, and a value
  that fits in 64 bits; anything else is an error.
\<close>

fun parse_digits :: "nat \<Rightarrow> string \<Rightarrow> nat option" where
  "parse_digits acc [] = Some acc"
| "parse_digits acc (c # cs) =
     (case digit_val c of
        None \<Rightarrow> None
      | Some d \<Rightarrow> (if 10 * acc + d < 2 ^ 64 then parse_digits (10 * acc + d) cs else None))"

definition parse_usize :: "string \<Rightarrow> nat option" where
  "parse_usize s =
     (case s of
        [] \<Rightarrow> None
      | c # cs \<Rightarrow>
          if c = CHR ''+'' then (if cs = [] then None else parse_digits 0 cs)
          else parse_digits 0 s)"

lemma of_char_digit_char [simp]: "d < 10 \<Longrightarrow> (of_char (digit_char d) :: nat) = 48 + d"
  by (simp add: digit_char_def of_char_of)

lemma digit_val_digit_char [simp]: "d < 10 \<Longrightarrow> digit_val (digit_char d) = Some d"
  by (simp add: digit_val_def)

lemma digit_char_neq:
  assumes "d < 10" and "of_char c < (48 :: nat)"
  shows "digit_char d \<noteq> c"
  using assms of_char_digit_char [of d] by auto

lemma set_show_nat: "c \<in> set (show_nat n) \<Longrightarrow> \<exists>d < 10. c = digit_char d"
proof (induction n rule: show_nat.induct)
  case (1 n)
  then show ?case
    by (cases "n < 10") (auto simp: show_nat.simps [of n] intro: exI [of _ "n mod 10"])
qed

lemma show_nat_ne [simp]: "show_nat n \<noteq> []"
  by (subst show_nat.simps) simp

lemma show_nat_no_ctrl: "of_char c < (48 :: nat) \<Longrightarrow> c \<notin> set (show_nat n)"
  using set_show_nat digit_char_neq by blast

lemma show_nat_lines [simp]:
  "LF \<notin> set (show_nat n)" "CR \<notin> set (show_nat n)" "CHR ''+'' \<notin> set (show_nat n)"
  by (simp_all add: show_nat_no_ctrl)

lemma parse_digits_append:
  "parse_digits acc (s @ [c]) =
     (case parse_digits acc s of
        None \<Rightarrow> None
      | Some n \<Rightarrow>
         (case digit_val c of
            None \<Rightarrow> None
          | Some d \<Rightarrow> if 10 * n + d < 2 ^ 64 then Some (10 * n + d) else None))"
  by (induction s arbitrary: acc) (auto split: option.splits)

lemma parse_digits_show_nat: "n < 2 ^ 64 \<Longrightarrow> parse_digits 0 (show_nat n) = Some n"
proof (induction n rule: show_nat.induct)
  case (1 n)
  show ?case
  proof (cases "n < 10")
    case True
    then show ?thesis by (simp add: show_nat.simps [of n])
  next
    case False
    with 1 have "parse_digits 0 (show_nat (n div 10)) = Some (n div 10)"
      by (simp add: div_less_dividend order.strict_trans1)
    moreover have "10 * (n div 10) + n mod 10 = n" by simp
    ultimately show ?thesis
      using False "1.prems" by (simp add: show_nat.simps [of n] parse_digits_append)
  qed
qed

lemma parse_show_usize: "n < 2 ^ 64 \<Longrightarrow> parse_usize (show_nat n) = Some n"
proof -
  assume n: "n < 2 ^ 64"
  obtain c cs where s: "show_nat n = c # cs" by (meson neq_Nil_conv show_nat_ne)
  then have "c \<noteq> CHR ''+''" using show_nat_lines(3) [of n] by auto
  with s parse_digits_show_nat [OF n] show ?thesis by (simp add: parse_usize_def)
qed

lemma digit_char_inj: "m < 10 \<Longrightarrow> n < 10 \<Longrightarrow> digit_char m = digit_char n \<Longrightarrow> m = n"
  by (metis add_left_cancel of_char_digit_char)

lemma show_nat_inj: "show_nat m = show_nat n \<Longrightarrow> m = n"
proof (induction m arbitrary: n rule: show_nat.induct)
  case (1 m)
  have big: "show_nat k = show_nat (k div 10) @ [digit_char (k mod 10)]" if "\<not> k < 10" for k
    using that by (simp add: show_nat.simps [of k])
  show ?case
  proof (cases "m < 10 \<or> n < 10")
    case True
    have "length (show_nat k) = 1 \<longleftrightarrow> k < 10" for k by (subst show_nat.simps) simp
    then have "m < 10" "n < 10" using True "1.prems" by metis+
    then show ?thesis using "1.prems" digit_char_inj by (simp add: show_nat.simps [of m] show_nat.simps [of n])
  next
    case False
    then have "show_nat (m div 10) = show_nat (n div 10)" "digit_char (m mod 10) = digit_char (n mod 10)"
      using "1.prems" big [of m] big [of n] by auto
    then have "m div 10 = n div 10" "m mod 10 = n mod 10"
      using "1.IH" False digit_char_inj [of "m mod 10" "n mod 10"] by auto
    then show ?thesis by (metis div_mult_mod_eq)
  qed
qed

lemma show_int_inj: "show_int i = show_int j \<Longrightarrow> i = j"
proof -
  have minus: "CHR ''-'' # s \<noteq> show_nat n" for s n
  proof
    assume "CHR ''-'' # s = show_nat n"
    then have "CHR ''-'' \<in> set (show_nat n)" by (metis list.set_intros(1))
    then show False using show_nat_no_ctrl [of "CHR ''-''" n] by simp
  qed
  show "show_int i = show_int j \<Longrightarrow> i = j"
    using minus minus [symmetric] by (auto simp: show_int_def dest: show_nat_inj split: if_splits)
qed

lemma parse_digits_bound: "parse_digits acc s = Some n \<Longrightarrow> acc < 2 ^ 64 \<Longrightarrow> n < 2 ^ 64"
  by (induction acc s rule: parse_digits.induct) (auto split: option.splits if_splits)

lemma parse_usize_bound: "parse_usize s = Some n \<Longrightarrow> n < 2 ^ 64"
  using parse_digits_bound [of 0]
  by (auto simp: parse_usize_def simp del: parse_digits.simps split: list.splits if_splits)

subsection \<open>Paths\<close>

text \<open>\<^verbatim>\<open>Path::join\<close> with a relative file name.\<close>

definition path_join :: "string \<Rightarrow> string \<Rightarrow> string" where
  "path_join d f =
     (if d = [] then f else if last d = CHR ''/'' then d @ f else d @ CHR ''/'' # f)"

end
