(* ===== verification/Wal.thy ===== *)
theory Wal
  imports Rust_Text
begin

text \<open>
  The write-ahead log of \<^verbatim>\<open>src/storage/wal.rs\<close>: the entry format, append with its flush and
  fsync, and replay. The file is its bytes, split into what is known to be on the physical
  disk (the first \<open>wal_synced\<close> bytes) and the rest, which a crash may cut off at any byte.
  The writer is a \<^verbatim>\<open>BufWriter\<close>: \<open>wal_buf\<close> holds the bytes not yet handed to the file.

  Every I/O call of an append can fail; \<open>wal_io\<close> says which one does, and how many bytes it
  still wrote. The lemmas give the round trip between an entry and its line (exactly for
  the entries whose key and value avoid the format's separators), and what an append leaves
  in the file on success and on every failure.
\<close>

subsection \<open>Entries and their text format\<close>

datatype Operation = OpPut | OpDelete

record WalEntry =
  we_operation :: Operation
  we_key :: string
  we_value :: "string option"

abbreviation bar :: char where "bar \<equiv> CHR ''|''"

definition serialize_entry :: "WalEntry \<Rightarrow> string" where
  "serialize_entry e =
     (case we_operation e of
        OpPut \<Rightarrow> ''PUT|'' @ we_key e @ [bar] @ case_option [] id (we_value e) @ [LF]
      | OpDelete \<Rightarrow> ''DELETE|'' @ we_key e @ [LF])"

text \<open>The \<^verbatim>\<open>match\<close> of \<^verbatim>\<open>replay\<close> on one line; a malformed line is skipped.\<close>

definition parse_line :: "string \<Rightarrow> WalEntry option" where
  "parse_line l =
     (case split_on bar l of
        [p, k] \<Rightarrow>
          if p = ''DELETE'' then Some \<lparr>we_operation = OpDelete, we_key = k, we_value = None\<rparr>
          else None
      | [p, k, v] \<Rightarrow>
          if p = ''PUT'' then Some \<lparr>we_operation = OpPut, we_key = k, we_value = Some v\<rparr>
          else None
      | _ \<Rightarrow> None)"

definition replay_text :: "string \<Rightarrow> WalEntry list" where
  "replay_text s = List.map_filter parse_line (str_lines s)"

subsection \<open>The log file and its operations\<close>

datatype io_error = DirFailed | OpenFailed | WriteFailed | FlushFailed | SyncFailed | ReadFailed

text \<open>What the operating system does during one append.\<close>

datatype wal_io = Io_ok | Write_err nat | Flush_err nat | Sync_err

record Wal =
  wal_path :: string
  wal_buf :: string
  wal_file :: string
  wal_synced :: nat

text \<open>
  The bytes found at open are those that survived the last power failure, so they count as on the
  disk. (Only bytes a process left unsynced, opened again before a power failure, could still go.)
\<close>

definition wal_new :: "bool \<Rightarrow> string \<Rightarrow> string \<Rightarrow> io_error + Wal" where
  "wal_new open_ok path contents =
     (if open_ok
      then Inr \<lparr>wal_path = path, wal_buf = [], wal_file = contents, wal_synced = length contents\<rparr>
      else Inl OpenFailed)"

text \<open>
  \<^verbatim>\<open>BufWriter::write_all\<close>: the data joins the buffer. When it fails, it failed in writing out
  the buffered bytes or the data: \<open>n\<close> bytes of them reached the file, the unwritten part of
  the buffer stays and the data is dropped.
\<close>

definition wal_write_all :: "wal_io \<Rightarrow> string \<Rightarrow> Wal \<Rightarrow> (io_error + unit) \<times> Wal" where
  "wal_write_all io data w =
     (case io of
        Write_err n \<Rightarrow>
          (Inl WriteFailed,
           w\<lparr>wal_file := wal_file w @ take n (wal_buf w @ data), wal_buf := drop n (wal_buf w)\<rparr>)
      | _ \<Rightarrow> (Inr (), w\<lparr>wal_buf := wal_buf w @ data\<rparr>))"

definition wal_sync :: "wal_io \<Rightarrow> Wal \<Rightarrow> (io_error + unit) \<times> Wal" where
  "wal_sync io w =
     (case io of
        Flush_err n \<Rightarrow>
          (Inl FlushFailed,
           w\<lparr>wal_file := wal_file w @ take n (wal_buf w), wal_buf := drop n (wal_buf w)\<rparr>)
      | _ \<Rightarrow>
          (let w' = w\<lparr>wal_file := wal_file w @ wal_buf w, wal_buf := []\<rparr>
           in case io of
                Sync_err \<Rightarrow> (Inl SyncFailed, w')
              | _ \<Rightarrow> (Inr (), w'\<lparr>wal_synced := length (wal_file w')\<rparr>)))"

definition wal_append :: "wal_io \<Rightarrow> WalEntry \<Rightarrow> Wal \<Rightarrow> (io_error + unit) \<times> Wal" where
  "wal_append io e w =
     (let (r, w') = wal_write_all io (serialize_entry e) w
      in case r of
           Inl err \<Rightarrow> (Inl err, w')
         | Inr _ \<Rightarrow> wal_sync io w')"

text \<open>
  \<open>read_ok\<close> says whether \<^verbatim>\<open>File::open\<close> and \<^verbatim>\<open>read_to_string\<close> succeed; the latter fails also on a file
  that is not UTF-8, as a file cut inside a character of several bytes.
\<close>

definition wal_replay :: "bool \<Rightarrow> Wal \<Rightarrow> io_error + WalEntry list" where
  "wal_replay read_ok w = (if read_ok then Inr (replay_text (wal_file w)) else Inl ReadFailed)"

text \<open>
  A crash: the buffer is gone, and the bytes that were not synced may be cut off anywhere.
\<close>

definition wal_crash :: "nat \<Rightarrow> Wal \<Rightarrow> string" where
  "wal_crash n w = take (max n (wal_synced w)) (wal_file w)"

subsection \<open>Which entries the format can hold\<close>

fun ends_cr :: "string \<Rightarrow> bool" where
  "ends_cr s = (s \<noteq> [] \<and> last s = CR)"

definition text_safe :: "string \<Rightarrow> bool" where
  "text_safe s \<longleftrightarrow> bar \<notin> set s \<and> LF \<notin> set s"

definition wal_safe :: "WalEntry \<Rightarrow> bool" where
  "wal_safe e =
     (case (we_operation e, we_value e) of
        (OpPut, Some v) \<Rightarrow> text_safe (we_key e) \<and> text_safe v \<and> \<not> ends_cr v
      | (OpDelete, None) \<Rightarrow> text_safe (we_key e) \<and> \<not> ends_cr (we_key e)
      | _ \<Rightarrow> False)"

lemma strip_cr_ends: "\<not> ends_cr s \<Longrightarrow> strip_cr s = s"
  by (auto simp: strip_cr_def)

lemma split_on_keeps: "p \<in> set (split_on c s) \<Longrightarrow> d \<notin> set s \<Longrightarrow> d \<notin> set p"
proof (induction s arbitrary: p)
  case (Cons x s)
  then show ?case by (cases "split_on c s") (auto split: if_splits)
qed simp

lemma set_strip_cr: "set (strip_cr l) \<subseteq> set l"
  by (auto simp: strip_cr_def dest: in_set_butlastD)

lemma set_str_lines: "l \<in> set (str_lines s) \<Longrightarrow> LF \<notin> set l"
proof -
  assume "l \<in> set (str_lines s)"
  then consider p where "p \<in> set (butlast (split_on LF s))" and "l = strip_cr p"
    | "l = last (split_on LF s)"
    by (auto simp: str_lines_def Let_def split: if_splits)
  then show ?thesis
  proof cases
    case (1 p)
    then show ?thesis using split_on_pieces [of p LF s] set_strip_cr [of p] in_set_butlastD by fastforce
  next
    case 2
    then show ?thesis using split_on_pieces [OF last_in_set [OF split_on_ne]] by simp
  qed
qed

lemma parse_line_pieces:
  assumes "parse_line l = Some e"
  shows "we_key e \<in> set (split_on bar l)" and "we_value e = Some v \<Longrightarrow> v \<in> set (split_on bar l)"
  using assms by (auto simp: parse_line_def split: list.splits if_splits)

lemma parse_line_text_safe:
  assumes "parse_line l = Some e" and "LF \<notin> set l"
  shows "text_safe (we_key e)" and "we_value e = Some v \<Longrightarrow> text_safe v"
  using parse_line_pieces [OF assms(1)] split_on_pieces split_on_keeps assms(2)
  unfolding text_safe_def by blast+

lemma replay_text_text_safe:
  assumes "e \<in> set (replay_text s)"
  shows "text_safe (we_key e)" and "we_value e = Some v \<Longrightarrow> text_safe v"
proof -
  obtain l where "l \<in> set (str_lines s)" and "parse_line l = Some e"
    using assms by (auto simp: replay_text_def List.map_filter_def)
  then show "text_safe (we_key e)" and "we_value e = Some v \<Longrightarrow> text_safe v"
    using parse_line_text_safe set_str_lines by blast+
qed

subsection \<open>Round trips\<close>

text \<open>A file at a line boundary: nothing of a torn line is at its end.\<close>

definition aligned :: "string \<Rightarrow> bool" where
  "aligned s \<longleftrightarrow> s = [] \<or> last s = LF"

lemma aligned_Nil [simp]: "aligned []"
  by (simp add: aligned_def)

lemma aligned_serialize [simp]: "aligned (s @ serialize_entry e)"
  by (simp add: aligned_def serialize_entry_def split: Operation.splits)

lemma replay_text_Nil [simp]: "replay_text [] = []"
  by (simp add: replay_text_def List.map_filter_def)

lemma replay_text_append: "aligned s \<Longrightarrow> replay_text (s @ t) = replay_text s @ replay_text t"
proof (cases s rule: rev_cases)
  case (snoc a c)
  moreover assume "aligned s"
  ultimately have "s = a @ [LF]" by (simp add: aligned_def)
  then show ?thesis using str_lines_append [of a t]
    by (simp add: replay_text_def List.map_filter_def)
qed simp

definition entry_line :: "WalEntry \<Rightarrow> string" where
  "entry_line e = butlast (serialize_entry e)"

lemma serialize_entry_line: "serialize_entry e = entry_line e @ [LF]"
  by (simp add: entry_line_def serialize_entry_def butlast_append split: Operation.splits)

lemma entry_line_simps:
  "we_operation e = OpPut \<Longrightarrow> we_value e = Some v \<Longrightarrow> entry_line e = ''PUT'' @ bar # we_key e @ bar # v"
  "we_operation e = OpPut \<Longrightarrow> we_value e = None \<Longrightarrow> entry_line e = ''PUT'' @ bar # we_key e @ bar # []"
  "we_operation e = OpDelete \<Longrightarrow> entry_line e = ''DELETE'' @ bar # we_key e"
  by (simp_all add: entry_line_def serialize_entry_def butlast_append)

lemma strip_cr_append: "strip_cr (a @ CR' # b) = a @ CR' # strip_cr b" if "b = [] \<longrightarrow> CR' \<noteq> CR"
  using that by (auto simp: strip_cr_def butlast_append)

lemma text_safe_strip_cr [simp]: "text_safe s \<Longrightarrow> text_safe (strip_cr s)"
  by (auto simp: text_safe_def strip_cr_def dest: in_set_butlastD)

lemma parse_line_put:
  assumes "text_safe k" "text_safe v"
  shows "parse_line (''PUT'' @ bar # k @ bar # v) = Some \<lparr>we_operation = OpPut, we_key = k, we_value = Some v\<rparr>"
proof -
  have "split_on bar (''PUT'' @ bar # (k @ bar # v)) = ''PUT'' # split_on bar (k @ bar # v)"
    by (rule split_on_append) simp
  then show ?thesis using assms by (simp add: parse_line_def text_safe_def)
qed

lemma parse_line_delete:
  assumes "text_safe k"
  shows "parse_line (''DELETE'' @ bar # k) = Some \<lparr>we_operation = OpDelete, we_key = k, we_value = None\<rparr>"
proof -
  have "split_on bar (''DELETE'' @ bar # k) = ''DELETE'' # split_on bar k"
    by (rule split_on_append) simp
  then show ?thesis using assms by (simp add: parse_line_def text_safe_def)
qed

text \<open>What a line of safe text is read back as: a trailing carriage return is lost.\<close>

definition reread :: "WalEntry \<Rightarrow> WalEntry" where
  "reread e =
     (case we_operation e of
        OpPut \<Rightarrow> e\<lparr>we_value := Some (strip_cr (case_option [] id (we_value e)))\<rparr>
      | OpDelete \<Rightarrow> e\<lparr>we_key := strip_cr (we_key e), we_value := None\<rparr>)"

lemma replay_text_serialize:
  assumes "text_safe (we_key e)" and "\<And>v. we_value e = Some v \<Longrightarrow> text_safe v"
  shows "replay_text (serialize_entry e) = [reread e]"
proof -
  have "LF \<notin> set (entry_line e)"
    using assms by (cases "we_operation e"; cases "we_value e") (auto simp: entry_line_simps text_safe_def)
  then have "str_lines (serialize_entry e) = [strip_cr (entry_line e)]"
    using str_lines_line [of "entry_line e" "[]"] by (simp add: serialize_entry_line)
  moreover have "parse_line (strip_cr (entry_line e)) = Some (reread e)"
  proof (cases "we_operation e")
    case OpPut
    define v where "v = case_option [] id (we_value e)"
    have "entry_line e = (''PUT'' @ bar # we_key e) @ bar # v" and "text_safe v"
      using OpPut assms by (cases "we_value e"; simp add: entry_line_simps v_def text_safe_def)+
    then show ?thesis
      using assms parse_line_put [of "we_key e" "strip_cr v"] strip_cr_append [of v bar "''PUT'' @ bar # we_key e"]
      by (simp add: reread_def OpPut v_def)
  next
    case OpDelete
    then show ?thesis
      using assms parse_line_delete [of "strip_cr (we_key e)"] strip_cr_append [of "we_key e" bar "''DELETE''"]
      by (simp add: reread_def entry_line_simps)
  qed
  ultimately show ?thesis by (simp add: replay_text_def List.map_filter_def)
qed

lemma reread_wal_safe:
  assumes "text_safe (we_key e)" and "\<And>v. we_value e = Some v \<Longrightarrow> text_safe v"
  shows "reread e = e \<longleftrightarrow> wal_safe e"
proof -
  have cr: "strip_cr s = s \<longleftrightarrow> \<not> ends_cr s" for s
    by (cases s rule: rev_cases) (auto simp: strip_cr_def)
  show ?thesis
    using assms by (cases e; cases "we_operation e"; cases "we_value e")
      (auto simp: reread_def wal_safe_def cr simp del: ends_cr.simps)
qed

lemma wal_safe_text: "wal_safe e \<Longrightarrow> text_safe (we_key e) \<and> (\<forall>v. we_value e = Some v \<longrightarrow> text_safe v)"
  by (auto simp: wal_safe_def split: Operation.splits option.splits)

lemma replay_text_safe: "wal_safe e \<Longrightarrow> replay_text (serialize_entry e) = [e]"
  using wal_safe_text [of e] reread_wal_safe [of e] by (simp add: replay_text_serialize)

text \<open>A last line without its line feed is parsed like any other.\<close>

lemma replay_text_unterminated:
  "LF \<notin> set t \<Longrightarrow> replay_text t = (case parse_line t of None \<Rightarrow> [] | Some e \<Rightarrow> [e])"
  by (cases "t = []") (auto simp: replay_text_def str_lines_def List.map_filter_def parse_line_def split: option.splits)

lemma parse_line_no_bar: "bar \<notin> set t \<Longrightarrow> parse_line t = None"
  by (simp add: parse_line_def)

lemma text_safe_take [simp]: "text_safe s \<Longrightarrow> text_safe (take n s)"
  by (auto simp: text_safe_def dest: in_set_takeD)

lemma replay_text_appended: "aligned s \<Longrightarrow> wal_safe e \<Longrightarrow> replay_text (s @ serialize_entry e) = replay_text s @ [e]"
  by (simp add: replay_text_append replay_text_safe)

subsection \<open>Torn lines\<close>

text \<open>What is read from the first \<open>j\<close> bytes of the line of a put or a delete.\<close>

lemma replay_torn_put_line:
  assumes "text_safe k" and "text_safe v" and "j \<le> length k + length v + 5"
  shows "replay_text (take j (''PUT'' @ bar # k @ bar # v)) =
    (if j < length k + 5 then [] else [\<lparr>we_operation = OpPut, we_key = k, we_value = Some (take (j - (length k + 5)) v)\<rparr>])"
proof -
  let ?t = "take j (''PUT'' @ bar # k @ bar # v)"
  have "LF \<notin> set (''PUT'' @ bar # k @ bar # v)" using assms by (auto simp: text_safe_def)
  then have rd: "replay_text ?t = (case parse_line ?t of None \<Rightarrow> [] | Some e \<Rightarrow> [e])"
    by (intro replay_text_unterminated) (auto dest: in_set_takeD)
  consider "j \<le> 3" | "3 < j" "j < length k + 5" | "length k + 5 \<le> j" by linarith
  then show ?thesis
  proof cases
    case 1
    then have "?t = take j ''PUT''" by (simp only: take_append) (simp add: eval_nat_numeral)
    moreover have "bar \<notin> set (take j ''PUT'')" by (auto dest: in_set_takeD)
    ultimately show ?thesis using 1 rd by (simp add: parse_line_no_bar)
  next
    case 2
    then have "take j ((''PUT'' @ [bar]) @ k @ bar # v) = ''PUT'' @ bar # take (j - 4) k" by (simp only: take_append) (simp add: eval_nat_numeral)
    then have t: "?t = ''PUT'' @ bar # take (j - 4) k" by simp
    have "bar \<notin> set (take (j - 4) k)" using assms(1) by (auto simp: text_safe_def dest: in_set_takeD)
    then have "split_on bar (''PUT'' @ bar # take (j - 4) k) = [''PUT'', take (j - 4) k]"
      by (subst split_on_append) simp_all
    then have "parse_line ?t = None" unfolding t by (simp add: parse_line_def)
    then show ?thesis using 2 rd by simp
  next
    case 3
    then have "take j ((''PUT'' @ bar # k @ [bar]) @ v) = ''PUT'' @ bar # k @ bar # take (j - (length k + 5)) v"
      by (simp only: take_append) (simp add: eval_nat_numeral)
    then have t: "?t = ''PUT'' @ bar # k @ bar # take (j - (length k + 5)) v" by simp
    show ?thesis using 3 rd parse_line_put [OF assms(1) text_safe_take [OF assms(2)]] unfolding t by simp
  qed
qed

lemma replay_torn_delete_line:
  assumes "text_safe k" and "j \<le> length k + 7"
  shows "replay_text (take j (''DELETE'' @ bar # k)) =
    (if j < 7 then [] else [\<lparr>we_operation = OpDelete, we_key = take (j - 7) k, we_value = None\<rparr>])"
proof -
  let ?t = "take j (''DELETE'' @ bar # k)"
  have "LF \<notin> set (''DELETE'' @ bar # k)" using assms by (auto simp: text_safe_def)
  then have rd: "replay_text ?t = (case parse_line ?t of None \<Rightarrow> [] | Some e \<Rightarrow> [e])"
    by (intro replay_text_unterminated) (auto dest: in_set_takeD)
  show ?thesis
  proof (cases "j < 7")
    case True
    then have "?t = take j ''DELETE''" by (simp only: take_append) (simp add: eval_nat_numeral)
    moreover have "bar \<notin> set (take j ''DELETE'')" by (auto dest: in_set_takeD)
    ultimately show ?thesis using True rd by (simp add: parse_line_no_bar)
  next
    case False
    then have "take j ((''DELETE'' @ [bar]) @ k) = ''DELETE'' @ bar # take (j - 7) k" by (simp only: take_append) (simp add: eval_nat_numeral)
    then have t: "?t = ''DELETE'' @ bar # take (j - 7) k" by simp
    show ?thesis using False rd parse_line_delete [OF text_safe_take [OF assms(1)]] unfolding t by simp
  qed
qed

subsection \<open>Append\<close>

text \<open>What an append of these bytes leaves, and reports, for each outcome of its calls.\<close>

definition append_report :: "wal_io \<Rightarrow> io_error + unit" where
  "append_report io =
     (case io of Io_ok \<Rightarrow> Inr () | Write_err _ \<Rightarrow> Inl WriteFailed | Flush_err _ \<Rightarrow> Inl FlushFailed | Sync_err \<Rightarrow> Inl SyncFailed)"

definition logged :: "wal_io \<Rightarrow> string \<Rightarrow> Wal \<Rightarrow> Wal" where
  "logged io bytes w =
     (let all = wal_buf w @ bytes
      in case io of
           Io_ok \<Rightarrow> w\<lparr>wal_file := wal_file w @ all, wal_buf := [], wal_synced := length (wal_file w @ all)\<rparr>
         | Write_err n \<Rightarrow> w\<lparr>wal_file := wal_file w @ take n all, wal_buf := drop n (wal_buf w)\<rparr>
         | Flush_err n \<Rightarrow> w\<lparr>wal_file := wal_file w @ take n all, wal_buf := drop n all\<rparr>
         | Sync_err \<Rightarrow> w\<lparr>wal_file := wal_file w @ all, wal_buf := []\<rparr>)"

lemma wal_append_eq: "wal_append io e w = (append_report io, logged io (serialize_entry e) w)"
  by (cases io) (simp_all add: wal_append_def wal_write_all_def wal_sync_def append_report_def logged_def Let_def)

lemma append_report_ok [simp]: "append_report io = Inr () \<longleftrightarrow> io = Io_ok"
  by (cases io) (simp_all add: append_report_def)

text \<open>A crash during or after an append leaves the old bytes and some first bytes of the new ones.\<close>

lemma wal_crash_logged:
  assumes "wal_buf w = []" and "wal_synced w = length (wal_file w)"
  obtains j where "j \<le> length bytes" "wal_crash n (logged io bytes w) = wal_file w @ take j bytes"
    "io = Io_ok \<Longrightarrow> j = length bytes"
proof -
  obtain m where m: "wal_file (logged io bytes w) = wal_file w @ take m bytes" "io = Io_ok \<Longrightarrow> m = length bytes"
    "length (wal_file w) \<le> wal_synced (logged io bytes w)"
    "io = Io_ok \<Longrightarrow> wal_synced (logged io bytes w) = length (wal_file w) + length bytes"
    using assms by (cases io) (auto simp: logged_def Let_def, metis order_refl take_all)
  let ?j = "max n (wal_synced (logged io bytes w)) - length (wal_file w)"
  have "wal_crash n (logged io bytes w) = wal_file w @ take (min ?j (min m (length bytes))) bytes"
    using m(3) by (simp add: wal_crash_def m(1) take_append) (simp add: min_def)
  then show ?thesis using that [of "min ?j (min m (length bytes))"] m(2,4) by fastforce
qed

lemma wal_append_ok:
  assumes "wal_append io e w = (Inr (), w')"
  shows "io = Io_ok \<and> wal_file w' = wal_file w @ wal_buf w @ serialize_entry e \<and>
         wal_buf w' = [] \<and> wal_synced w' = length (wal_file w') \<and> wal_path w' = wal_path w"
  using assms
  by (auto simp: wal_append_def wal_write_all_def wal_sync_def Let_def split: wal_io.splits)

lemma wal_append_Io_ok:
  "wal_append Io_ok e w =
     (Inr (), w\<lparr>wal_buf := [], wal_file := wal_file w @ wal_buf w @ serialize_entry e,
                wal_synced := length (wal_file w @ wal_buf w @ serialize_entry e)\<rparr>)"
  by (simp add: wal_append_def wal_write_all_def wal_sync_def Let_def)

lemma wal_crash_synced: "wal_synced w = length (wal_file w) \<Longrightarrow> wal_crash n w = wal_file w"
  by (simp add: wal_crash_def)

subsection \<open>Properties\<close>

text \<open>
  C26. the line written for an entry is read back as exactly that entry if and only if the
  format can hold it: the key and the value contain neither the separator nor a line feed,
  the text before the line feed does not end in a carriage return, and a put has a value
  and a delete has none.
\<close>

theorem wal_roundtrip_iff: "replay_text (serialize_entry e) = [e] \<longleftrightarrow> wal_safe e"
proof
  assume r: "replay_text (serialize_entry e) = [e]"
  then have t: "text_safe (we_key e)" "\<And>v. we_value e = Some v \<Longrightarrow> text_safe v"
    using replay_text_text_safe [of e "serialize_entry e"] by simp_all
  then have "reread e = e" using r replay_text_serialize [OF t] by simp
  then show "wal_safe e" using reread_wal_safe [OF t] by simp
qed (rule replay_text_safe)

end
