(* ===== verification/KV_Spec.thy ===== *)
theory KV_Spec
  imports Prelude
begin

text \<open>
  What the database promises, independent of how it stores anything: a partial map from
  keys to values, changed by puts and deletes. The storage engine, the state machine behind
  Raft and the client interface are all related to this specification.

  The central fact is \<open>kv_run_replay\<close>: running a sequence of operations again, extended or
  not, over its own result changes nothing. Recovery depends on it twice: the write-ahead
  log is replayed from its beginning, and after a restart Raft applies its log from index 1
  on top of a store that has already been recovered.
\<close>

datatype kv_op = KPut string string | KDel string

type_synonym kv = "string \<rightharpoonup> string"

fun kv_apply :: "kv_op \<Rightarrow> kv \<Rightarrow> kv" where
  "kv_apply (KPut k v) m = m(k \<mapsto> v)"
| "kv_apply (KDel k) m = m(k := None)"

definition kv_run :: "kv_op list \<Rightarrow> kv \<Rightarrow> kv" where
  "kv_run ops m = fold kv_apply ops m"

fun kv_key :: "kv_op \<Rightarrow> string" where
  "kv_key (KPut k v) = k"
| "kv_key (KDel k) = k"

lemma kv_run_simps [simp]:
  "kv_run [] m = m"
  "kv_run (x # xs) m = kv_run xs (kv_apply x m)"
  "kv_run (xs @ ys) m = kv_run ys (kv_run xs m)"
  by (simp_all add: kv_run_def)

lemma kv_run_untouched: "k \<notin> kv_key ` set ops \<Longrightarrow> kv_run ops m k = m k"
proof (induction ops arbitrary: m)
  case (Cons x ops)
  then show ?case by (cases x) auto
qed simp

lemma kv_run_touched: "k \<in> kv_key ` set ops \<Longrightarrow> kv_run ops m k = kv_run ops m' k"
proof (induction ops arbitrary: m m')
  case (Cons x ops)
  show ?case
  proof (cases "k \<in> kv_key ` set ops")
    case False
    with Cons.prems have "kv_key x = k" by auto
    with False show ?thesis by (cases x) (auto simp: kv_run_untouched)
  next
    case True
    then show ?thesis using Cons.IH by simp
  qed
qed simp

lemma kv_run_absorb:
  assumes "kv_key ` set xs \<subseteq> kv_key ` set ys"
  shows "kv_run ys (kv_run xs m) = kv_run ys m"
proof
  fix k
  show "kv_run ys (kv_run xs m) k = kv_run ys m k"
  proof (cases "k \<in> kv_key ` set ys")
    case True
    then show ?thesis by (rule kv_run_touched)
  next
    case False
    with assms have "k \<notin> kv_key ` set xs" by blast
    with False show ?thesis by (simp add: kv_run_untouched)
  qed
qed

lemma kv_run_replay: "kv_run ys (kv_run xs (kv_run xs m)) = kv_run ys (kv_run xs m)"
  by (simp add: kv_run_absorb)

lemma kv_run_last_write:
  assumes "k \<notin> kv_key ` set ys"
  shows "kv_run (xs @ KPut k v # ys) m k = Some v" and "kv_run (xs @ KDel k # ys) m k = None"
  using assms by (simp_all add: kv_run_untouched)

subsection \<open>The interface of a key-value store\<close>

text \<open>
  A store offers a put, a delete and a lookup; after a put or a delete the lookup shows
  exactly the specification's map. \<open>run\<close> is a sequence of operations on the store.
\<close>

locale kv_store =
  fixes inv :: "'s \<Rightarrow> bool"
    and put :: "string \<Rightarrow> string \<Rightarrow> 's \<Rightarrow> 's"
    and del :: "string \<Rightarrow> 's \<Rightarrow> 's"
    and get :: "'s \<Rightarrow> kv"
  assumes inv_put: "inv s \<Longrightarrow> inv (put k v s)"
    and inv_del: "inv s \<Longrightarrow> inv (del k s)"
    and get_put: "inv s \<Longrightarrow> get (put k v s) = (get s)(k \<mapsto> v)"
    and get_del: "inv s \<Longrightarrow> get (del k s) = (get s)(k := None)"
begin

fun exec :: "kv_op \<Rightarrow> 's \<Rightarrow> 's" where
  "exec (KPut k v) s = put k v s"
| "exec (KDel k) s = del k s"

definition run :: "kv_op list \<Rightarrow> 's \<Rightarrow> 's" where
  "run ops s = fold exec ops s"

lemma run_simps [simp]: "run [] s = s" "run (x # xs) s = run xs (exec x s)"
  by (simp_all add: run_def)

lemma exec_refines: "inv s \<Longrightarrow> inv (exec x s) \<and> get (exec x s) = kv_apply x (get s)"
  by (cases x) (auto simp: inv_put inv_del get_put get_del)

lemma run_refines: "inv s \<Longrightarrow> inv (run ops s) \<and> get (run ops s) = kv_run ops (get s)"
  by (induction ops arbitrary: s) (auto simp: exec_refines)

end

text \<open>
  A durable store also survives a crash. \<open>storable\<close> says which operations its disk format
  can hold, \<open>durable\<close> that the disk holds everything the lookup shows, and \<open>recover\<close> is a
  crash followed by a restart; the second argument is the point of the crash.
\<close>

locale durable_kv_store = kv_store +
  fixes storable :: "kv_op \<Rightarrow> bool"
    and durable :: "'a \<Rightarrow> bool"
    and recover :: "'a \<Rightarrow> 'c \<Rightarrow> 'a"
  assumes durable_inv: "durable s \<Longrightarrow> inv s"
    and durable_put: "durable s \<Longrightarrow> storable (KPut k v) \<Longrightarrow> durable (put k v s)"
    and durable_del: "durable s \<Longrightarrow> storable (KDel k) \<Longrightarrow> durable (del k s)"
    and durable_recover: "durable s \<Longrightarrow> durable (recover s c)"
    and get_recover: "durable s \<Longrightarrow> get (recover s c) = get s"
begin

lemma durable_exec: "durable s \<Longrightarrow> storable x \<Longrightarrow> durable (exec x s)"
  by (cases x) (auto simp: durable_put durable_del)

lemma durable_run: "durable s \<Longrightarrow> list_all storable ops \<Longrightarrow> durable (run ops s)"
  by (induction ops arbitrary: s) (auto simp: durable_exec)

text \<open>Nothing written before the crash is lost, and the store goes on from there.\<close>

lemma crash_transparent:
  assumes "durable s" and "list_all storable (xs @ ys)"
  shows "get (run ys (recover (run xs s) c)) = kv_run (xs @ ys) (get s)"
proof -
  have xs: "durable (run xs s)" using assms by (simp add: durable_run)
  then have "durable (recover (run xs s) c)" by (rule durable_recover)
  then have "get (run ys (recover (run xs s) c)) = kv_run ys (get (recover (run xs s) c))"
    by (simp add: durable_inv run_refines)
  also have "\<dots> = kv_run ys (kv_run xs (get s))"
    using assms xs by (simp add: get_recover durable_inv run_refines)
  finally show ?thesis by simp
qed

end

end
