(* ===== verification/Memtable.thy ===== *)
theory Memtable
  imports KV_Spec
begin

text \<open>
  The in-memory table of \<^verbatim>\<open>src/storage/memtable.rs\<close>: an ordered map from keys to values in
  which a deleted key keeps an entry with no value (a tombstone), and a running size.
  The table is an instance of the key-value store interface through \<open>mt_view\<close>, the map
  that forgets tombstones; \<open>mt_inv\<close> also says that the running size bounds the bytes of
  the live entries.
\<close>

record Memtable =
  mt_entries :: "(string, string option) btree"
  mt_size_bytes :: usize

definition mt_new :: Memtable where
  "mt_new = \<lparr>mt_entries = [], mt_size_bytes = 0\<rparr>"

definition mt_put :: "string \<Rightarrow> string \<Rightarrow> Memtable \<Rightarrow> usize \<times> Memtable" where
  "mt_put key val t =
     (let added_size = length key + length val
      in (added_size,
          t\<lparr>mt_entries := btree_insert key (Some val) (mt_entries t),
            mt_size_bytes := mt_size_bytes t + added_size\<rparr>))"

definition mt_delete :: "string \<Rightarrow> Memtable \<Rightarrow> usize \<times> Memtable" where
  "mt_delete key t =
     (let added_size = length key
      in (added_size,
          t\<lparr>mt_entries := btree_insert key None (mt_entries t),
            mt_size_bytes := mt_size_bytes t + added_size\<rparr>))"

definition mt_get :: "Memtable \<Rightarrow> string \<Rightarrow> string option option" where
  "mt_get t key = map_of (mt_entries t) key"

definition mt_size :: "Memtable \<Rightarrow> usize" where
  "mt_size t = mt_size_bytes t"

definition mt_len :: "Memtable \<Rightarrow> usize" where
  "mt_len t = length (mt_entries t)"

definition mt_is_empty :: "Memtable \<Rightarrow> bool" where
  "mt_is_empty t \<longleftrightarrow> mt_entries t = []"

definition mt_iter :: "Memtable \<Rightarrow> (string \<times> string option) list" where
  "mt_iter t = mt_entries t"

definition mt_clear :: "Memtable \<Rightarrow> Memtable" where
  "mt_clear t = t\<lparr>mt_entries := [], mt_size_bytes := 0\<rparr>"

subsection \<open>Invariant and specification\<close>

definition mt_view :: "Memtable \<Rightarrow> kv" where
  "mt_view t k = (case mt_get t k of Some (Some v) \<Rightarrow> Some v | _ \<Rightarrow> None)"

definition entry_bytes :: "string \<times> string option \<Rightarrow> nat" where
  "entry_bytes e = length (fst e) + (case snd e of None \<Rightarrow> 0 | Some v \<Rightarrow> length v)"

definition live_bytes :: "Memtable \<Rightarrow> nat" where
  "live_bytes t = sum_list (map entry_bytes (mt_entries t))"

definition mt_inv :: "Memtable \<Rightarrow> bool" where
  "mt_inv t \<longleftrightarrow> btree_ok (mt_entries t) \<and> live_bytes t \<le> mt_size_bytes t"

lemma sum_entry_bytes_insert:
  "sum_list (map entry_bytes (btree_insert k v m)) \<le> sum_list (map entry_bytes m) + entry_bytes (k, v)"
  by (induction k v m rule: btree_insert.induct) auto

lemma mt_inv_new [simp, wf_intro]: "mt_inv mt_new"
  by (simp add: mt_inv_def mt_new_def live_bytes_def)

lemma mt_inv_put [wf_intro]: "mt_inv t \<Longrightarrow> mt_inv (snd (mt_put k v t))"
  using sum_entry_bytes_insert [of k "Some v" "mt_entries t"]
  by (auto simp: mt_inv_def mt_put_def Let_def live_bytes_def entry_bytes_def [of "(k, Some v)"])

lemma mt_inv_delete [wf_intro]: "mt_inv t \<Longrightarrow> mt_inv (snd (mt_delete k t))"
  using sum_entry_bytes_insert [of k None "mt_entries t"]
  by (auto simp: mt_inv_def mt_delete_def Let_def live_bytes_def entry_bytes_def [of "(k, None)"])

lemma mt_inv_clear [wf_intro]: "mt_inv (mt_clear t)"
  by (simp add: mt_inv_def mt_clear_def live_bytes_def)

lemma mt_get_put: "mt_get (snd (mt_put k v t)) = (mt_get t)(k \<mapsto> Some v)"
  by (simp add: mt_get_def mt_put_def Let_def fun_eq_iff)

lemma mt_get_delete: "mt_get (snd (mt_delete k t)) = (mt_get t)(k \<mapsto> None)"
  by (simp add: mt_get_def mt_delete_def Let_def fun_eq_iff)

lemma mt_view_new [simp]: "mt_view mt_new = Map.empty"
  by (simp add: mt_view_def mt_get_def mt_new_def fun_eq_iff)

interpretation memtable: kv_store mt_inv "\<lambda>k v t. snd (mt_put k v t)" "\<lambda>k t. snd (mt_delete k t)" mt_view
  by unfold_locales
    (auto simp: mt_view_def mt_get_put mt_get_delete fun_eq_iff intro: wf_intro)

text \<open>The iterator yields every key once, in ascending order, with what \<open>mt_get\<close> finds.\<close>

lemma mt_iter_sorted:
  assumes "mt_inv t"
  shows "btree_ok (mt_iter t)" and "(k, v) \<in> set (mt_iter t) \<longleftrightarrow> mt_get t k = Some v"
  using assms by (auto simp: mt_inv_def mt_iter_def mt_get_def btree_entry_iff)

end
