(* ===== verification/Engine.thy ===== *)
theory Engine
  imports Wal Memtable
begin

text \<open>
  The storage engine of \<^verbatim>\<open>src/storage/engine.rs\<close>: every write goes to the write-ahead log
  first and to the memtable only if the log accepted it; opening an engine replays the log.

  \<open>engine_durable\<close> is the agreement of the two: the table shows exactly what a replay of
  the synced file would rebuild. The interpretation of \<open>durable_kv_store\<close> gives crash
  recovery: nothing acknowledged is lost, for keys and values the text format can hold.
  Further results say where this ends: a torn last line is replayed as a write of its own, and the
  first write after it is lost; a write that reported a failed fsync can come back.
\<close>

record StorageEngine =
  se_wal :: Wal
  se_memtable :: Memtable
  se_data_dir :: string

subsection \<open>Operations\<close>

text \<open>The recovery loop of \<^verbatim>\<open>StorageEngine::new\<close>.\<close>

fun replay_into :: "WalEntry list \<Rightarrow> Memtable \<Rightarrow> Memtable" where
  "replay_into [] t = t"
| "replay_into (e # es) t =
     replay_into es
       (case we_operation e of
          OpPut \<Rightarrow> snd (mt_put (we_key e) (case_option [] id (we_value e)) t)
        | OpDelete \<Rightarrow> snd (mt_delete (we_key e) t))"

text \<open>
  The three flags say whether creating the directory, opening and reading the file succeed;
  \<open>disk\<close> is the file system before the call (a file that does not exist is empty once
  opened with \<^verbatim>\<open>create(true)\<close>).
\<close>

definition engine_new ::
  "bool \<Rightarrow> bool \<Rightarrow> bool \<Rightarrow> (string \<Rightarrow> string) \<Rightarrow> string \<Rightarrow> io_error + StorageEngine" where
  "engine_new dir_ok open_ok read_ok disk data_dir =
     (if \<not> dir_ok then Inl DirFailed
      else
        let wal_path = path_join data_dir ''wal.log''
        in case wal_new open_ok wal_path (disk wal_path) of
             Inl e \<Rightarrow> Inl e
           | Inr wal \<Rightarrow>
              (case wal_replay read_ok wal of
                 Inl e \<Rightarrow> Inl e
               | Inr entries \<Rightarrow>
                   Inr \<lparr>se_wal = wal, se_memtable = replay_into entries mt_new, se_data_dir = data_dir\<rparr>))"

definition engine_put ::
  "wal_io \<Rightarrow> string \<Rightarrow> string \<Rightarrow> StorageEngine \<Rightarrow> (io_error + unit) \<times> StorageEngine" where
  "engine_put io key val e =
     (let entry = \<lparr>we_operation = OpPut, we_key = key, we_value = Some val\<rparr>;
          (r, wal) = wal_append io entry (se_wal e)
      in case r of
           Inl err \<Rightarrow> (Inl err, e\<lparr>se_wal := wal\<rparr>)
         | Inr _ \<Rightarrow> (Inr (), e\<lparr>se_wal := wal, se_memtable := snd (mt_put key val (se_memtable e))\<rparr>))"

definition engine_delete ::
  "wal_io \<Rightarrow> string \<Rightarrow> StorageEngine \<Rightarrow> (io_error + unit) \<times> StorageEngine" where
  "engine_delete io key e =
     (let entry = \<lparr>we_operation = OpDelete, we_key = key, we_value = None\<rparr>;
          (r, wal) = wal_append io entry (se_wal e)
      in case r of
           Inl err \<Rightarrow> (Inl err, e\<lparr>se_wal := wal\<rparr>)
         | Inr _ \<Rightarrow> (Inr (), e\<lparr>se_wal := wal, se_memtable := snd (mt_delete key (se_memtable e))\<rparr>))"

definition engine_get :: "StorageEngine \<Rightarrow> string \<Rightarrow> string option" where
  "engine_get e key =
     (case mt_get (se_memtable e) key of
        Some (Some v) \<Rightarrow> Some v
      | Some None \<Rightarrow> None
      | None \<Rightarrow> None)"

definition engine_data_dir :: "StorageEngine \<Rightarrow> string" where
  "engine_data_dir e = se_data_dir e"

text \<open>A crash that keeps at least the synced bytes, and a restart on what is left.\<close>

definition engine_recover :: "StorageEngine \<Rightarrow> nat \<Rightarrow> StorageEngine" where
  "engine_recover e n =
     (case engine_new True True True (\<lambda>_. wal_crash n (se_wal e)) (se_data_dir e) of
        Inl _ \<Rightarrow> e
      | Inr e' \<Rightarrow> e')"

subsection \<open>Replay computes the specification\<close>

definition entry_op :: "WalEntry \<Rightarrow> kv_op" where
  "entry_op e =
     (case we_operation e of
        OpPut \<Rightarrow> KPut (we_key e) (case_option [] id (we_value e))
      | OpDelete \<Rightarrow> KDel (we_key e))"

lemma engine_get_view: "engine_get e = mt_view (se_memtable e)"
  by (auto simp: engine_get_def mt_view_def fun_eq_iff split: option.splits)

lemma engine_get_wal [simp]: "engine_get (e\<lparr>se_wal := w\<rparr>) = engine_get e"
  by (simp add: engine_get_view)

lemma replay_into_refines:
  "mt_inv t \<Longrightarrow> mt_inv (replay_into es t) \<and>
    mt_view (replay_into es t) = kv_run (map entry_op es) (mt_view t)"
proof (induction es arbitrary: t)
  case (Cons e es)
  have step: "mt_inv (memtable.exec (entry_op e) t) \<and>
     mt_view (memtable.exec (entry_op e) t) = kv_apply (entry_op e) (mt_view t)"
    using Cons.prems by (rule memtable.exec_refines)
  have "replay_into (e # es) t = replay_into es (memtable.exec (entry_op e) t)"
    by (simp add: entry_op_def split: Operation.splits)
  with Cons.IH step show ?case by simp
qed simp

definition recovered :: "string \<Rightarrow> kv" where
  "recovered contents = kv_run (map entry_op (replay_text contents)) Map.empty"

lemma engine_new_ok:
  assumes "engine_new d p r disk dir = Inr e"
  shows "engine_get e = recovered (disk (path_join dir ''wal.log'')) \<and> mt_inv (se_memtable e) \<and>
     wal_file (se_wal e) = disk (path_join dir ''wal.log'') \<and> wal_buf (se_wal e) = [] \<and>
     wal_synced (se_wal e) = length (wal_file (se_wal e)) \<and> se_data_dir e = dir"
  using assms replay_into_refines [OF mt_inv_new]
  by (auto simp: engine_new_def wal_new_def wal_replay_def Let_def recovered_def engine_get_view
      split: if_splits sum.splits)

lemma engine_new_total: "\<exists>e. engine_new True True True disk dir = Inr e"
  by (simp add: engine_new_def wal_new_def wal_replay_def Let_def)

lemma engine_new_errors:
  "engine_new False p r disk dir = Inl DirFailed"
  "engine_new True False r disk dir = Inl OpenFailed"
  "engine_new True True False disk dir = Inl ReadFailed"
  by (simp_all add: engine_new_def wal_new_def wal_replay_def Let_def)

subsection \<open>The engine as a durable key-value store\<close>

definition engine_inv :: "StorageEngine \<Rightarrow> bool" where
  "engine_inv e \<longleftrightarrow> mt_inv (se_memtable e)"

definition engine_durable :: "StorageEngine \<Rightarrow> bool" where
  "engine_durable e \<longleftrightarrow>
     mt_inv (se_memtable e) \<and> wal_buf (se_wal e) = [] \<and> aligned (wal_file (se_wal e)) \<and>
     wal_synced (se_wal e) = length (wal_file (se_wal e)) \<and>
     engine_get e = recovered (wal_file (se_wal e))"

definition op_entry :: "kv_op \<Rightarrow> WalEntry" where
  "op_entry x =
     (case x of
        KPut k v \<Rightarrow> \<lparr>we_operation = OpPut, we_key = k, we_value = Some v\<rparr>
      | KDel k \<Rightarrow> \<lparr>we_operation = OpDelete, we_key = k, we_value = None\<rparr>)"

definition storable :: "kv_op \<Rightarrow> bool" where
  "storable x \<longleftrightarrow> wal_safe (op_entry x)"

definition engine_put_ok :: "string \<Rightarrow> string \<Rightarrow> StorageEngine \<Rightarrow> StorageEngine" where
  "engine_put_ok k v e = snd (engine_put Io_ok k v e)"

definition engine_delete_ok :: "string \<Rightarrow> StorageEngine \<Rightarrow> StorageEngine" where
  "engine_delete_ok k e = snd (engine_delete Io_ok k e)"

lemma entry_op_op_entry [simp]: "entry_op (op_entry x) = x"
  by (cases x) (simp_all add: entry_op_def op_entry_def)

lemma recovered_append:
  "aligned s \<Longrightarrow> storable x \<Longrightarrow> recovered (s @ serialize_entry (op_entry x)) = kv_apply x (recovered s)"
  by (simp add: recovered_def storable_def replay_text_appended)

lemma engine_put_Io_ok: "engine_put Io_ok k v e = (Inr (), engine_put_ok k v e)"
  by (simp add: engine_put_ok_def engine_put_def wal_append_Io_ok Let_def)

lemma engine_put_ok_simps:
  "engine_get (engine_put_ok k v e) = (engine_get e)(k \<mapsto> v)"
  "mt_inv (se_memtable e) \<Longrightarrow> mt_inv (se_memtable (engine_put_ok k v e))"
  "wal_file (se_wal (engine_put_ok k v e)) =
     wal_file (se_wal e) @ wal_buf (se_wal e) @ serialize_entry (op_entry (KPut k v))"
  "wal_buf (se_wal (engine_put_ok k v e)) = []"
  "wal_synced (se_wal (engine_put_ok k v e)) = length (wal_file (se_wal (engine_put_ok k v e)))"
  "se_data_dir (engine_put_ok k v e) = se_data_dir e"
  by (simp_all add: engine_put_ok_def engine_put_def wal_append_Io_ok op_entry_def engine_get_view
      mt_view_def mt_get_put fun_eq_iff wf_intro Let_def)

lemma engine_delete_ok_simps:
  "engine_get (engine_delete_ok k e) = (engine_get e)(k := None)"
  "mt_inv (se_memtable e) \<Longrightarrow> mt_inv (se_memtable (engine_delete_ok k e))"
  "wal_file (se_wal (engine_delete_ok k e)) =
     wal_file (se_wal e) @ wal_buf (se_wal e) @ serialize_entry (op_entry (KDel k))"
  "wal_buf (se_wal (engine_delete_ok k e)) = []"
  "wal_synced (se_wal (engine_delete_ok k e)) = length (wal_file (se_wal (engine_delete_ok k e)))"
  "se_data_dir (engine_delete_ok k e) = se_data_dir e"
  by (simp_all add: engine_delete_ok_def engine_delete_def wal_append_Io_ok op_entry_def engine_get_view
      mt_view_def mt_get_delete fun_eq_iff wf_intro Let_def)

lemma engine_inv_write [wf_intro]:
  "engine_inv e \<Longrightarrow> engine_inv (snd (engine_put io k v e))"
  "engine_inv e \<Longrightarrow> engine_inv (snd (engine_delete io k e))"
  by (auto simp: engine_inv_def engine_put_def engine_delete_def Let_def intro: wf_intro split: prod.splits sum.splits)

lemma engine_inv_new [wf_intro]: "engine_new d p r disk dir = Inr e \<Longrightarrow> engine_inv e"
  using engine_new_ok by (simp add: engine_inv_def)

lemma engine_recover_simps:
  "engine_get (engine_recover e n) = recovered (wal_crash n (se_wal e))"
  "mt_inv (se_memtable (engine_recover e n))"
  "wal_file (se_wal (engine_recover e n)) = wal_crash n (se_wal e)"
  "wal_buf (se_wal (engine_recover e n)) = []"
  "wal_synced (se_wal (engine_recover e n)) = length (wal_crash n (se_wal e))"
proof -
  obtain e' where e': "engine_new True True True (\<lambda>_. wal_crash n (se_wal e)) (se_data_dir e) = Inr e'"
    using engine_new_total by blast
  then have "engine_recover e n = e'" by (simp add: engine_recover_def)
  with engine_new_ok [OF e'] show
    "engine_get (engine_recover e n) = recovered (wal_crash n (se_wal e))"
    "mt_inv (se_memtable (engine_recover e n))"
    "wal_file (se_wal (engine_recover e n)) = wal_crash n (se_wal e)"
    "wal_buf (se_wal (engine_recover e n)) = []"
    "wal_synced (se_wal (engine_recover e n)) = length (wal_crash n (se_wal e))"
    by simp_all
qed

interpretation engine: durable_kv_store engine_inv engine_put_ok engine_delete_ok engine_get
  storable engine_durable engine_recover
proof unfold_locales
  fix e :: StorageEngine and k v n
  show "engine_inv e \<Longrightarrow> engine_inv (engine_put_ok k v e)"
    and "engine_inv e \<Longrightarrow> engine_inv (engine_delete_ok k e)"
    by (simp_all add: engine_inv_def engine_put_ok_simps engine_delete_ok_simps)
  show "engine_get (engine_put_ok k v e) = (engine_get e)(k \<mapsto> v)"
    and "engine_get (engine_delete_ok k e) = (engine_get e)(k := None)"
    by (simp_all add: engine_put_ok_simps engine_delete_ok_simps)
  show "engine_durable e \<Longrightarrow> engine_inv e"
    by (simp add: engine_durable_def engine_inv_def)
  show "engine_durable e \<Longrightarrow> storable (KPut k v) \<Longrightarrow> engine_durable (engine_put_ok k v e)"
    by (simp add: engine_durable_def engine_put_ok_simps recovered_append)
  show "engine_durable e \<Longrightarrow> storable (KDel k) \<Longrightarrow> engine_durable (engine_delete_ok k e)"
    by (simp add: engine_durable_def engine_delete_ok_simps recovered_append)
  show "engine_durable e \<Longrightarrow> engine_durable (engine_recover e n)"
    and "engine_durable e \<Longrightarrow> engine_get (engine_recover e n) = engine_get e"
    by (simp_all add: engine_durable_def engine_recover_simps wal_crash_synced)
qed

lemma engine_new_durable:
  assumes "engine_new d p r disk dir = Inr e" and "aligned (disk (path_join dir ''wal.log''))"
  shows "engine_durable e"
  using engine_new_ok [OF assms(1)] assms(2) by (simp add: engine_durable_def)

subsection \<open>Running operations and failures\<close>

definition engine_exec :: "kv_op \<Rightarrow> StorageEngine \<Rightarrow> StorageEngine" where
  "engine_exec x e = (case x of KPut k v \<Rightarrow> engine_put_ok k v e | KDel k \<Rightarrow> engine_delete_ok k e)"

definition engine_run :: "kv_op list \<Rightarrow> StorageEngine \<Rightarrow> StorageEngine" where
  "engine_run ops e = fold engine_exec ops e"

lemma engine_exec_eq: "engine.exec = engine_exec"
proof (intro ext)
  show "engine.exec x e = engine_exec x e" for x e by (cases x) (simp_all add: engine_exec_def)
qed

lemma engine_run_eq: "engine.run ops e = engine_run ops e"
  by (simp add: engine.run_def engine_run_def engine_exec_eq)

text \<open>A write as the specification names it, with the outcome of its I/O.\<close>

definition engine_write :: "wal_io \<Rightarrow> kv_op \<Rightarrow> StorageEngine \<Rightarrow> (io_error + unit) \<times> StorageEngine" where
  "engine_write io x e = (case x of KPut k v \<Rightarrow> engine_put io k v e | KDel k \<Rightarrow> engine_delete io k e)"

lemma engine_write_eq:
  "engine_write io x e =
     (append_report io,
      (if io = Io_ok then engine_exec x e else e)\<lparr>se_wal := logged io (serialize_entry (op_entry x)) (se_wal e)\<rparr>)"
  by (cases x; cases io)
    (simp_all add: engine_write_def engine_exec_def engine_put_ok_def engine_delete_ok_def engine_put_def engine_delete_def
      wal_append_eq append_report_def op_entry_def)

lemma engine_write_get:
  "engine_get (snd (engine_write io x e)) = (if io = Io_ok then kv_apply x (engine_get e) else engine_get e)"
  by (cases x) (simp_all add: engine_write_eq engine_exec_def engine_put_ok_simps engine_delete_ok_simps)

text \<open>
  What a reader of the log makes of the first \<open>j\<close> bytes of the line of a write: nothing while the
  key of a put or the word \<^verbatim>\<open>DELETE\<close> is incomplete, and then a put with the beginning of the value or
  a delete of the beginning of the key.
\<close>

fun torn_op :: "nat \<Rightarrow> kv_op \<Rightarrow> kv_op option" where
  "torn_op j (KPut k v) = (if j < length k + 5 then None else Some (KPut k (take (j - (length k + 5)) v)))"
| "torn_op j (KDel k) = (if j < 7 then None else Some (KDel (take (j - 7) k)))"

abbreviation op_line :: "kv_op \<Rightarrow> string" where "op_line x \<equiv> serialize_entry (op_entry x)"

lemma op_line_simps:
  "op_line (KPut k v) = (''PUT'' @ bar # k @ bar # v) @ [LF]" "length (op_line (KPut k v)) = length k + length v + 6"
  "op_line (KDel k) = (''DELETE'' @ bar # k) @ [LF]" "length (op_line (KDel k)) = length k + 8"
  by (simp_all add: op_entry_def serialize_entry_def)

lemma torn_op_whole: "length (op_line x) \<le> j \<Longrightarrow> torn_op j x = Some x"
  by (cases x) (simp_all add: op_line_simps)

lemma recovered_torn:
  assumes "aligned s" and "storable x" and "j \<le> length (op_line x)"
  shows "recovered (s @ take j (op_line x)) = kv_run (case torn_op j x of None \<Rightarrow> [] | Some y \<Rightarrow> [y]) (recovered s)"
proof (cases "j = length (op_line x)")
  case True
  then show ?thesis using assms by (simp add: torn_op_whole recovered_append)
next
  case False
  then have j: "j < length (op_line x)" using assms(3) by simp
  have "map entry_op (replay_text (take j (op_line x))) = (case torn_op j x of None \<Rightarrow> [] | Some y \<Rightarrow> [y])"
  proof (cases x)
    case (KPut k v)
    then have "text_safe k" "text_safe v" using assms(2) by (simp_all add: storable_def op_entry_def wal_safe_def)
    moreover have "take j (op_line x) = take j (''PUT'' @ bar # k @ bar # v)" "j \<le> length k + length v + 5"
      using j by (simp_all add: KPut op_line_simps del: append_Cons append_assoc)
    ultimately show ?thesis using replay_torn_put_line [of k v j] by (simp add: KPut entry_op_def)
  next
    case (KDel k)
    then have "text_safe k" using assms(2) by (simp add: storable_def op_entry_def wal_safe_def)
    moreover have "take j (op_line x) = take j (''DELETE'' @ bar # k)" "j \<le> length k + 7"
      using j by (simp_all add: KDel op_line_simps del: append_Cons append_assoc)
    ultimately show ?thesis using replay_torn_delete_line [of k j] by (simp add: KDel entry_op_def)
  qed
  then show ?thesis using assms(1) by (simp add: recovered_def replay_text_append)
qed

lemma engine_crash_write:
  assumes "engine_durable e" and "storable x"
  obtains j where "j \<le> length (op_line x)" "io = Io_ok \<Longrightarrow> j = length (op_line x)"
    "wal_crash n (se_wal (snd (engine_write io x e))) = wal_file (se_wal e) @ take j (op_line x)"
    "recovered (wal_crash n (se_wal (snd (engine_write io x e)))) =
       kv_run (case torn_op j x of None \<Rightarrow> [] | Some y \<Rightarrow> [y]) (engine_get e)"
proof -
  have e: "wal_buf (se_wal e) = []" "wal_synced (se_wal e) = length (wal_file (se_wal e))"
    "aligned (wal_file (se_wal e))" "engine_get e = recovered (wal_file (se_wal e))"
    using assms(1) by (simp_all add: engine_durable_def)
  obtain j where "j \<le> length (op_line x)" "wal_crash n (logged io (op_line x) (se_wal e)) = wal_file (se_wal e) @ take j (op_line x)"
    "io = Io_ok \<Longrightarrow> j = length (op_line x)" using wal_crash_logged [OF e(1,2)] by blast
  then show ?thesis using that [of j] recovered_torn [OF e(3) assms(2)] e(4) by (simp add: engine_write_eq)
qed

lemma replay_torn_put:
  assumes s: "aligned s" and t: "t \<noteq> []" "LF \<notin> set t" and e: "wal_safe e" "we_operation e = OpPut"
  shows "replay_text (s @ t @ serialize_entry e) = replay_text s"
proof -
  obtain v where v: "we_value e = Some v" and safe: "text_safe (we_key e)" "text_safe v" "\<not> ends_cr v"
    using e by (auto simp: wal_safe_def split: option.splits)
  define l where "l = t @ entry_line e"
  have line: "entry_line e = ''PUT'' @ bar # we_key e @ bar # v"
    using v e by (simp add: entry_line_simps)
  have "str_lines (t @ serialize_entry e) = [strip_cr l]"
    using str_lines_line [of l "[]"] t safe
    by (simp add: l_def serialize_entry_line line text_safe_def)
  moreover have "strip_cr l = t @ entry_line e"
    using safe strip_cr_append [of v bar "t @ ''PUT'' @ bar # we_key e"] strip_cr_ends [of v]
    by (simp add: l_def line del: ends_cr.simps)
  moreover have "parse_line (t @ entry_line e) = None"
  proof (cases "bar \<in> set t")
    case True
    have "count_list (t @ entry_line e) bar = count_list t bar + 2"
      using safe by (simp add: line text_safe_def count_list_append count_notin)
    moreover have "count_list t bar \<noteq> 0" using True by (simp add: count_list_0_iff)
    ultimately have "length (split_on bar (t @ entry_line e)) > 3"
      by (simp add: length_split_on)
    then show ?thesis by (auto simp: parse_line_def split: list.splits)
  next
    case False
    have "split_on bar ((t @ ''PUT'') @ bar # we_key e @ bar # v) = (t @ ''PUT'') # split_on bar (we_key e @ bar # v)"
      using False by (intro split_on_append) simp
    then show ?thesis using safe t by (simp add: parse_line_def line text_safe_def)
  qed
  ultimately have "replay_text (t @ serialize_entry e) = []"
    by (simp add: replay_text_def List.map_filter_def)
  then show ?thesis using s by (simp add: replay_text_append)
qed

lemma mt_keys_replay: "fst ` set (mt_entries (replay_into es t)) = we_key ` set es \<union> fst ` set (mt_entries t)"
  by (induction es arbitrary: t) (auto simp: mt_put_def mt_delete_def Let_def split: Operation.splits)

lemma mt_size_replay:
  "mt_size_bytes (replay_into es t) =
     mt_size_bytes t + sum_list (map (\<lambda>e. length (we_key e) +
       (case we_operation e of OpPut \<Rightarrow> length (case_option [] id (we_value e)) | OpDelete \<Rightarrow> 0)) es)"
  by (induction es arbitrary: t) (auto simp: mt_put_def mt_delete_def Let_def split: Operation.splits)

subsection \<open>Properties\<close>

text \<open>
  C4. Crash recovery. Open an engine on a log file that ends at a line boundary and run storable
  writes; then one more write is under way, its I/O going well or failing anywhere, when the machine
  crashes, at any byte: the log file then holds all the earlier bytes and the first \<open>j\<close> bytes of the
  line of the last write, all of them if that write had been acknowledged. Whenever the engine can be
  opened again, its lookups show exactly the specification's map after the earlier writes and after
  what those \<open>j\<close> bytes are read as: nothing, the last write, or a part of it (\<open>torn_op\<close>). If none
  or all of the line is there, later writes are as durable as before.
\<close>

theorem crash_recovery:
  assumes "engine_new d p r disk dir = Inr e0" and "aligned (disk (path_join dir ''wal.log''))"
    and "list_all storable (x # xs)" and "engine_write io x (engine_run xs e0) = (result, e1)"
    and "engine_new d' p' r' (\<lambda>_. wal_crash n (se_wal e1)) dir = Inr e2"
  shows "\<exists>j \<le> length (serialize_entry (op_entry x)).
    wal_file (se_wal e2) = wal_file (se_wal (engine_run xs e0)) @ take j (serialize_entry (op_entry x)) \<and>
    (result = Inr () \<longrightarrow> j = length (serialize_entry (op_entry x))) \<and>
    engine_get e2 = kv_run (xs @ (case torn_op j x of None \<Rightarrow> [] | Some y \<Rightarrow> [y])) (recovered (disk (path_join dir ''wal.log''))) \<and>
    (j = 0 \<or> j = length (serialize_entry (op_entry x)) \<longrightarrow> list_all storable ys \<longrightarrow>
       engine_get (engine_recover (engine_run ys e2) m) = kv_run ys (engine_get e2))"
proof -
  let ?e = "engine_run xs e0" and ?s = "disk (path_join dir ''wal.log'')"
  have e0: "engine_durable e0" using assms(1,2) by (rule engine_new_durable)
  have xs: "list_all storable xs" and x: "storable x" using assms(3) by simp_all
  have e: "engine_durable ?e" using engine.durable_run [OF e0 xs] by (simp add: engine_run_eq)
  have get: "engine_get ?e = kv_run xs (recovered ?s)"
    using engine.run_refines [of e0 xs] engine.durable_inv [OF e0] engine_new_ok [OF assms(1)] by (simp add: engine_run_eq)
  have e1: "e1 = snd (engine_write io x ?e)" "result = append_report io" using assms(4) by (simp_all add: engine_write_eq)
  obtain j where j: "j \<le> length (op_line x)" "io = Io_ok \<Longrightarrow> j = length (op_line x)"
    "wal_crash n (se_wal e1) = wal_file (se_wal ?e) @ take j (op_line x)"
    "recovered (wal_crash n (se_wal e1)) = kv_run (case torn_op j x of None \<Rightarrow> [] | Some y \<Rightarrow> [y]) (engine_get ?e)"
    using engine_crash_write [OF e x, where io = io and n = n] unfolding e1(1) by blast
  note e2 = engine_new_ok [OF assms(5)]
  have "engine_durable e2" if "j = 0 \<or> j = length (op_line x)"
    using engine_new_durable [OF assms(5)] j(3) e that by (auto simp: engine_durable_def)
  then have "engine_get (engine_recover (engine_run ys e2) m) = kv_run ys (engine_get e2)"
    if "j = 0 \<or> j = length (op_line x)" and "list_all storable ys"
    using that engine.crash_transparent [of e2 ys "[]" m] by (simp add: engine_run_eq) (simp add: engine_run_def)
  then show ?thesis using j get e2 e1(2) by (intro exI [of _ j]) simp
qed

theorem crash_recovery_witness:
  "\<exists>e0 e1 e2 result. engine_new True True True (\<lambda>_. ''PUT|a|1'' @ [LF]) ''db'' = Inr e0 \<and>
     engine_write (Flush_err 7) (KPut ''b'' ''234'') (engine_run [KDel ''a'', KPut ''c'' []] e0) = (result, e1) \<and>
     engine_new True True True (\<lambda>_. wal_crash 100 (se_wal e1)) ''db'' = Inr e2 \<and>
     engine_get e2 = [''c'' \<mapsto> [], ''b'' \<mapsto> ''2'']"
proof -
  let ?disk = "\<lambda>_. ''PUT|a|1'' @ [LF]" and ?xs = "[KDel ''a'', KPut ''c'' []]" and ?x = "KPut ''b'' ''234''"
  obtain e0 where e0: "engine_new True True True ?disk ''db'' = Inr e0" using engine_new_total by blast
  obtain result e1 where e1: "engine_write (Flush_err 7) ?x (engine_run ?xs e0) = (result, e1)" by fastforce
  obtain e2 where e2: "engine_new True True True (\<lambda>_. wal_crash 100 (se_wal e1)) ''db'' = Inr e2" using engine_new_total by blast
  have a: "aligned (?disk (path_join ''db'' ''wal.log''))" by (simp add: aligned_def)
  have s: "list_all storable (?x # ?xs)" by (simp add: storable_def op_entry_def wal_safe_def text_safe_def)
  have r: "recovered (''PUT|a|1'' @ [LF]) = [''a'' \<mapsto> ''1'']"
    by (simp add: recovered_def replay_text_def str_lines_def strip_cr_def parse_line_def
        List.map_filter_def entry_op_def)
  have len: "length (op_line ?x) = 10" by (simp add: op_line_simps(2))
  obtain j where j: "j \<le> 10" "wal_file (se_wal e2) = wal_file (se_wal (engine_run ?xs e0)) @ take j (op_line ?x)"
      "engine_get e2 = kv_run (?xs @ (case torn_op j ?x of None \<Rightarrow> [] | Some y \<Rightarrow> [y])) [''a'' \<mapsto> ''1'']"
    using crash_recovery [OF e0 a s e1 e2, of "[]" 0] unfolding len r by blast
  have f: "wal_file (se_wal e2) = wal_file (se_wal (engine_run ?xs e0)) @ take 7 (op_line ?x)"
    using e1 engine_new_ok [OF e0] engine_new_ok [OF e2]
    by (auto simp: engine_write_eq engine_run_def engine_exec_def engine_put_ok_simps engine_delete_ok_simps
        wal_crash_def logged_def op_line_simps)
  have "j = 7" using arg_cong [OF trans [OF j(2) [symmetric] f], of length] j(1) by (simp add: op_line_simps)
  then have "engine_get e2 = [''c'' \<mapsto> [], ''b'' \<mapsto> ''2'']" using j(3) by (auto simp: fun_eq_iff)
  then show ?thesis using e0 e1 e2 by blast
qed

text \<open>
  C27. What a write does, on every outcome of its I/O. It reports the call that failed, or success.
  The log is the old one with the buffered bytes and exactly the line \<^verbatim>\<open>PUT|key|value\<close> or \<^verbatim>\<open>DELETE|key\<close>
  handed to the file (\<open>logged\<close>): all of it and on the disk after a success, all of it but not known to
  be on the disk after a failed fsync, and as many bytes as were written after a failed write or
  flush. Lookups show the write if it succeeded and are unchanged otherwise.
\<close>

theorem engine_write_outcomes:
  "fst (engine_put io k v e) = append_report io \<and>
   se_wal (snd (engine_put io k v e)) = logged io (''PUT|'' @ k @ ''|'' @ v @ [LF]) (se_wal e) \<and>
   engine_get (snd (engine_put io k v e)) = (if io = Io_ok then (engine_get e)(k \<mapsto> v) else engine_get e) \<and>
   fst (engine_delete io k e) = append_report io \<and>
   se_wal (snd (engine_delete io k e)) = logged io (''DELETE|'' @ k @ [LF]) (se_wal e) \<and>
   engine_get (snd (engine_delete io k e)) = (if io = Io_ok then (engine_get e)(k := None) else engine_get e)"
  using engine_write_eq [of io "KPut k v" e] engine_write_eq [of io "KDel k" e]
    engine_write_get [of io "KPut k v" e] engine_write_get [of io "KDel k" e]
  by (simp add: engine_write_def op_line_simps)

text \<open>
  C29. A torn line is taken for a whole one. The replay parses a last line that lacks its line feed.
  When the delete of a key breaks off (and is reported as failed) after some bytes of the key, the
  engine opened after a crash has deleted another key, the one those bytes spell, whose value had been
  acknowledged; when a put breaks off inside its value, the key has a value nobody wrote.
\<close>

theorem torn_line_is_replayed:
  assumes "engine_durable e" and "storable (KDel (k @ t))" and "storable (KPut k (v @ t))"
  shows "fst (engine_delete (Flush_err (length k + 7)) (k @ t) e) = Inl FlushFailed \<and>
    engine_get (engine_recover (snd (engine_delete (Flush_err (length k + 7)) (k @ t) e)) (length (wal_file (se_wal e)) + length k + 7)) =
      (engine_get e)(k := None) \<and>
    fst (engine_put (Flush_err (length k + length v + 5)) k (v @ t) e) = Inl FlushFailed \<and>
    engine_get (engine_recover (snd (engine_put (Flush_err (length k + length v + 5)) k (v @ t) e))
      (length (wal_file (se_wal e)) + length k + length v + 5)) = (engine_get e)(k \<mapsto> v)"
proof -
  have torn: "fst (engine_write (Flush_err j) x e) = Inl FlushFailed \<and>
      engine_get (engine_recover (snd (engine_write (Flush_err j) x e)) (length (wal_file (se_wal e)) + j)) =
        kv_run (case torn_op j x of None \<Rightarrow> [] | Some y \<Rightarrow> [y]) (engine_get e)"
    if "storable x" and "j \<le> length (op_line x)" for x j
  proof -
    have "wal_crash (length (wal_file (se_wal e)) + j) (logged (Flush_err j) (op_line x) (se_wal e)) =
        wal_file (se_wal e) @ take j (op_line x)"
      using assms(1) that(2) by (simp add: wal_crash_def logged_def engine_durable_def Let_def)
    then show ?thesis
      using assms(1) that by (simp add: engine_recover_simps engine_write_eq append_report_def recovered_torn engine_durable_def)
  qed
  have "length k + 7 \<le> length (op_line (KDel (k @ t)))" "length k + length v + 5 \<le> length (op_line (KPut k (v @ t)))"
    by (simp_all add: op_line_simps(2,4))
  note torn [OF assms(2) this(1)] torn [OF assms(3) this(2)]
  then show ?thesis by (simp add: engine_write_def add.assoc)
qed

theorem torn_line_is_replayed_witness:
  "\<exists>e. engine_durable e \<and> engine_get e ''user1'' = Some ''x'' \<and>
     fst (engine_delete (Flush_err (length ''user1'' + 7)) ''user12'' e) = Inl FlushFailed \<and>
     engine_get (engine_recover (snd (engine_delete (Flush_err (length ''user1'' + 7)) ''user12'' e)) (length (wal_file (se_wal e)) + length ''user1'' + 7)) ''user1'' = None"
proof -
  obtain e0 where "engine_new True True True (\<lambda>_. []) ''db'' = Inr e0" using engine_new_total by blast
  then have d0: "engine_durable e0" by (rule engine_new_durable) simp
  let ?e = "engine_put_ok ''user1'' ''x'' e0"
  have s: "storable (KPut ''user1'' ''x'')" "storable (KDel (''user1'' @ ''2''))" "storable (KPut ''user1'' (''a'' @ ''2''))"
    by (simp_all add: storable_def op_entry_def wal_safe_def text_safe_def)
  have d: "engine_durable ?e" by (rule engine.durable_put [OF d0 s(1)])
  have "engine_get ?e ''user1'' = Some ''x''" by (simp add: engine_put_ok_simps)
  then show ?thesis using torn_line_is_replayed [OF d s(2,3)] d by (intro exI [of _ ?e]) simp
qed

text \<open>
  C37. a failed put can still come back. When only the fsync fails, the put reports an error
  and readers do not see it, but the line is in the file: after a crash that keeps it, the
  reopened engine shows the value. The comment in \<^verbatim>\<open>StorageEngine::put\<close> that log and table
  always agree does not hold on this path.
\<close>

theorem failed_put_reappears:
  assumes "engine_durable e" and "storable (KPut k v)"
  shows "fst (engine_put Sync_err k v e) = Inl SyncFailed \<and>
    engine_get (snd (engine_put Sync_err k v e)) = engine_get e \<and>
    engine_get (engine_recover (snd (engine_put Sync_err k v e))
      (length (wal_file (se_wal (snd (engine_put Sync_err k v e)))))) = (engine_get e)(k \<mapsto> v)"
proof (intro conjI)
  let ?e = "snd (engine_put Sync_err k v e)"
  show "fst (engine_put Sync_err k v e) = Inl SyncFailed" and "engine_get ?e = engine_get e"
    by (simp_all add: engine_put_def wal_append_def wal_write_all_def wal_sync_def Let_def engine_get_view)
  have "wal_crash (length (wal_file (se_wal ?e))) (se_wal ?e) =
      wal_file (se_wal e) @ serialize_entry (op_entry (KPut k v))"
    using assms(1)
    by (simp add: engine_put_def wal_append_def wal_write_all_def wal_sync_def Let_def wal_crash_def
        engine_durable_def op_entry_def)
  then show "engine_get (engine_recover ?e (length (wal_file (se_wal ?e)))) = (engine_get e)(k \<mapsto> v)"
    using assms by (simp add: engine_recover_simps engine_durable_def recovered_append)
qed

theorem failed_put_reappears_witness:
  "\<exists>e. engine_durable e \<and> fst (engine_put Sync_err ''k'' ''v'' e) = Inl SyncFailed \<and>
     engine_get (snd (engine_put Sync_err ''k'' ''v'' e)) ''k'' = None \<and>
     engine_get (engine_recover (snd (engine_put Sync_err ''k'' ''v'' e))
       (length (wal_file (se_wal (snd (engine_put Sync_err ''k'' ''v'' e)))))) ''k'' = Some ''v''"
proof -
  obtain e where e: "engine_new True True True (\<lambda>_. []) ''db'' = Inr e" using engine_new_total by blast
  then have d: "engine_durable e" by (rule engine_new_durable) simp
  have s: "storable (KPut ''k'' ''v'')"
    by (simp add: storable_def op_entry_def wal_safe_def text_safe_def)
  have "engine_get e = Map.empty" using engine_new_ok [OF e] by (simp add: recovered_def)
  then show ?thesis using d failed_put_reappears [OF d s] by auto
qed

text \<open>
  C38. the write after a torn line is lost. If a crash left part of a line at the end of the
  file, the next put is appended to that part; it is acknowledged and readable, but the
  combined line is malformed, so the following restart recovers only what stood before the
  torn line.
\<close>

theorem torn_tail_loses_next_put:
  assumes "engine_new d p r disk dir = Inr e" and "disk (path_join dir ''wal.log'') = s @ t"
    and "aligned s" and "t \<noteq> []" and "LF \<notin> set t" and "storable (KPut k v)"
  shows "fst (engine_put Io_ok k v e) = Inr () \<and>
    engine_get (snd (engine_put Io_ok k v e)) k = Some v \<and>
    engine_get (engine_recover (snd (engine_put Io_ok k v e)) n) = recovered s"
proof (intro conjI)
  let ?e = "engine_put_ok k v e"
  have wf: "wal_file (se_wal e) = s @ t" "wal_buf (se_wal e) = []"
    using engine_new_ok [OF assms(1)] assms(2) by simp_all
  have crash: "wal_crash n (se_wal ?e) = s @ t @ serialize_entry (op_entry (KPut k v))"
    using wal_crash_synced [of "se_wal ?e" n] by (simp add: engine_put_ok_simps wf)
  have "replay_text (s @ t @ serialize_entry (op_entry (KPut k v))) = replay_text s"
    using assms by (intro replay_torn_put) (simp_all add: storable_def, simp add: op_entry_def)
  then show "engine_get (engine_recover (snd (engine_put Io_ok k v e)) n) = recovered s"
    by (simp add: engine_put_ok_def [symmetric] engine_recover_simps crash recovered_def)
  show "fst (engine_put Io_ok k v e) = Inr ()"
    by (simp add: engine_put_def wal_append_Io_ok Let_def)
  show "engine_get (snd (engine_put Io_ok k v e)) k = Some v"
    by (simp add: engine_put_ok_def [symmetric] engine_put_ok_simps)
qed

theorem torn_tail_loses_next_put_witness:
  "\<exists>e. engine_new True True True (\<lambda>_. ''PUT|a|1'' @ [LF] @ ''PUT|b'') ''db'' = Inr e \<and>
     fst (engine_put Io_ok ''c'' ''2'' e) = Inr () \<and>
     engine_get (snd (engine_put Io_ok ''c'' ''2'' e)) ''c'' = Some ''2'' \<and>
     engine_get (engine_recover (snd (engine_put Io_ok ''c'' ''2'' e)) 0) ''c'' = None"
proof -
  let ?disk = "\<lambda>_. (''PUT|a|1'' @ [LF]) @ ''PUT|b''"
  obtain e where e: "engine_new True True True ?disk ''db'' = Inr e" using engine_new_total by blast
  have s: "storable (KPut ''c'' ''2'')"
    by (simp add: storable_def op_entry_def wal_safe_def text_safe_def)
  have "recovered (''PUT|a|1'' @ [LF]) ''c'' = None"
    by (simp add: recovered_def replay_text_def str_lines_def strip_cr_def parse_line_def
        List.map_filter_def entry_op_def)
  then show ?thesis
    using e torn_tail_loses_next_put [OF e refl _ _ _ s, where n = 0] by (auto simp: aligned_def)
qed

text \<open>
  C28. the memtable rebuilt from any list of log entries is the specification's map with its
  tombstones: its iterator is strictly ascending and covers exactly the keys ever written,
  lookups show the last write, and its size is the sum of the bytes of all writes, which is
  never less than the bytes it holds.
\<close>

theorem memtable_replay_sound:
  "btree_ok (mt_iter (replay_into es mt_new)) \<and>
   fst ` set (mt_iter (replay_into es mt_new)) = we_key ` set es \<and>
   mt_view (replay_into es mt_new) = kv_run (map entry_op es) Map.empty \<and>
   mt_size (replay_into es mt_new) =
     sum_list (map (\<lambda>e. length (we_key e) +
       (case we_operation e of OpPut \<Rightarrow> length (case_option [] id (we_value e)) | OpDelete \<Rightarrow> 0)) es) \<and>
   live_bytes (replay_into es mt_new) \<le> mt_size (replay_into es mt_new)"
proof (intro conjI)
  have inv: "mt_inv (replay_into es mt_new)"
    and "mt_view (replay_into es mt_new) = kv_run (map entry_op es) Map.empty"
    using replay_into_refines [OF mt_inv_new, of es] by simp_all
  then show "btree_ok (mt_iter (replay_into es mt_new))"
    and "mt_view (replay_into es mt_new) = kv_run (map entry_op es) Map.empty"
    and "live_bytes (replay_into es mt_new) \<le> mt_size (replay_into es mt_new)"
    by (simp_all add: mt_inv_def mt_iter_def mt_size_def)
  show "fst ` set (mt_iter (replay_into es mt_new)) = we_key ` set es"
    by (simp add: mt_iter_def mt_keys_replay mt_new_def)
  show "mt_size (replay_into es mt_new) = sum_list (map (\<lambda>e. length (we_key e) +
      (case we_operation e of OpPut \<Rightarrow> length (case_option [] id (we_value e)) | OpDelete \<Rightarrow> 0)) es)"
    by (simp add: mt_size_def mt_size_replay mt_new_def)
qed

end
