(* ===== verification/Ring.thy ===== *)
theory Ring
  imports Rust_Text
begin

unbundle bit_operations_syntax

text \<open>
  The consistent-hashing ring of \<^verbatim>\<open>src/sharding/ring.rs\<close>: the hash function on 64-bit words, the
  points of the shards in a \<^verbatim>\<open>BTreeMap\<close>, and the lookup of the next point clockwise. The lemmas
  show that the lookup finds the point at the least clockwise distance (subtraction of words,
  which wraps around like the ring does), and that adding or removing a shard moves no key it
  does not have to; the locale \<open>partitioner\<close> states that as a contract, which the router's
  theory discharges again for its own operations.
\<close>

subsection \<open>The hash function\<close>

definition fnv1a :: "string \<Rightarrow> u64" where
  "fnv1a key = foldl (\<lambda>hash byte. (hash XOR of_char byte) * 0x100000001b3) 0xcbf29ce484222325 key"

definition ring_hash :: "string \<Rightarrow> u64" where
  "ring_hash key =
     (let hash = fnv1a key;
          hash = hash XOR drop_bit 33 hash;
          hash = hash * 0xff51afd7ed558ccd;
          hash = hash XOR drop_bit 33 hash;
          hash = hash * 0xc4ceb9fe1a85ec53;
          hash = hash XOR drop_bit 33 hash
      in hash)"

subsection \<open>The ring and its operations\<close>

record HashRing =
  hr_ring :: "(u64, u64) btree"
  hr_num_virtual_nodes :: u32

definition ring_new :: "u32 \<Rightarrow> HashRing" where
  "ring_new num_virtual_nodes = \<lparr>hr_ring = [], hr_num_virtual_nodes = num_virtual_nodes\<rparr>"

definition vnode_key :: "u64 \<Rightarrow> nat \<Rightarrow> string" where
  "vnode_key shard_id i = ''shard-'' @ show_nat (unat shard_id) @ ''-vnode-'' @ show_nat i"

definition ring_add_shard :: "u64 \<Rightarrow> HashRing \<Rightarrow> HashRing" where
  "ring_add_shard shard_id r =
     r\<lparr>hr_ring := fold (\<lambda>i. btree_insert (ring_hash (vnode_key shard_id i)) shard_id)
                    [0 ..< unat (hr_num_virtual_nodes r)] (hr_ring r)\<rparr>"

definition ring_remove_shard :: "u64 \<Rightarrow> HashRing \<Rightarrow> HashRing" where
  "ring_remove_shard shard_id r = r\<lparr>hr_ring := filter (\<lambda>e. snd e \<noteq> shard_id) (hr_ring r)\<rparr>"

definition ring_get_shard :: "HashRing \<Rightarrow> string \<Rightarrow> u64 option" where
  "ring_get_shard r key =
     (if hr_ring r = [] then None
      else
        let hash = ring_hash key
        in case btree_first_ge hash (hr_ring r) of
             Some (_, shard_id) \<Rightarrow> Some shard_id
           | None \<Rightarrow> Some (snd (hd (hr_ring r))))"

definition ring_shard_ids :: "HashRing \<Rightarrow> u64 list" where
  "ring_shard_ids r = remdups_adj (sort (map snd (hr_ring r)))"

definition ring_shard_count :: "HashRing \<Rightarrow> usize" where
  "ring_shard_count r = length (remdups_adj (sort (map snd (hr_ring r))))"

definition ring_ok :: "HashRing \<Rightarrow> bool" where
  "ring_ok r \<longleftrightarrow> btree_ok (hr_ring r)"

subsection \<open>Points\<close>

abbreviation points :: "HashRing \<Rightarrow> u64 \<rightharpoonup> u64" where
  "points r \<equiv> map_of (hr_ring r)"

definition vnodes :: "HashRing \<Rightarrow> u64 \<Rightarrow> u64 set" where
  "vnodes r s = (\<lambda>i. ring_hash (vnode_key s i)) ` {0 ..< unat (hr_num_virtual_nodes r)}"

lemma ring_ok_new [simp, wf_intro]: "ring_ok (ring_new n)"
  by (simp add: ring_ok_def ring_new_def)

lemma fold_insert_ok: "btree_ok m \<Longrightarrow> btree_ok (fold (\<lambda>i. btree_insert (f i) s) xs m)"
  by (induction xs arbitrary: m) auto

lemma map_of_fold_insert:
  "map_of (fold (\<lambda>i. btree_insert (f i) s) xs m) p = (if p \<in> f ` set xs then Some s else map_of m p)"
  by (induction xs arbitrary: m) auto

lemma ring_ok_add [simp, wf_intro]: "ring_ok r \<Longrightarrow> ring_ok (ring_add_shard s r)"
  by (simp add: ring_ok_def ring_add_shard_def fold_insert_ok)

lemma ring_ok_remove [simp, wf_intro]: "ring_ok r \<Longrightarrow> ring_ok (ring_remove_shard s r)"
  by (simp add: ring_ok_def ring_remove_shard_def)

lemma vnodes_frame [simp]:
  "vnodes (ring_add_shard s r) = vnodes r" "vnodes (ring_remove_shard s r) = vnodes r"
  by (simp_all add: fun_eq_iff vnodes_def ring_add_shard_def ring_remove_shard_def)

lemma points_add: "points (ring_add_shard s r) p = (if p \<in> vnodes r s then Some s else points r p)"
  by (simp add: ring_add_shard_def map_of_fold_insert vnodes_def)

lemma points_remove:
  assumes "ring_ok r"
  shows "points (ring_remove_shard s r) p = (if points r p = Some s then None else points r p)"
proof -
  have "points (ring_remove_shard s r) p = Some v \<longleftrightarrow> points r p = Some v \<and> v \<noteq> s" for v
    using assms ring_ok_remove [OF assms, of s] unfolding ring_ok_def
    by (simp add: btree_entry_iff [symmetric] ring_remove_shard_def)
  then have "points (ring_remove_shard s r) p = Some v \<longleftrightarrow>
      (if points r p = Some s then None else points r p) = Some v" for v
    by (auto split: if_splits)
  then show ?thesis by (metis not_None_eq)
qed

lemma points_empty_iff: "hr_ring r = [] \<longleftrightarrow> points r = Map.empty"
  by (cases "hr_ring r") (auto simp: fun_eq_iff split: if_splits)

subsection \<open>The next point clockwise\<close>

text \<open>\<open>q - p\<close> on words is the clockwise distance from \<open>p\<close> to \<open>q\<close>.\<close>

definition clockwise_next :: "u64 \<Rightarrow> (u64 \<rightharpoonup> u64) \<Rightarrow> u64 \<Rightarrow> bool" where
  "clockwise_next p m q \<longleftrightarrow> q \<in> dom m \<and> (\<forall>q' \<in> dom m. q - p \<le> q' - p)"

lemma clockwise_unique: "clockwise_next p m q \<Longrightarrow> clockwise_next p m q' \<Longrightarrow> q = q'"
  by (auto simp: clockwise_next_def) (metis add_diff_cancel_left' diff_add_cancel domI order_antisym)

lemma clockwise_le:
  fixes p q q' :: u64
  assumes "p \<le> q' \<Longrightarrow> p \<le> q" and "q \<le> q' \<or> p \<le> q \<and> q' < p"
  shows "q - p \<le> q' - p"
proof -
  have "uint (q - p) \<le> uint (q' - p)"
    using assms uint_lt2p [of q] unfolding word_le_def word_less_def uint_sub_if'
    by (auto split: if_splits; insert uint_ge_0 [of q']; linarith)
  then show ?thesis by (simp add: word_le_def)
qed

lemma find_first_ge:
  assumes "btree_ok m" and "btree_first_ge p m = Some (q, v)"
  shows "(q, v) \<in> set m \<and> p \<le> q \<and> (\<forall>q' \<in> fst ` set m. p \<le> q' \<longrightarrow> q \<le> q')"
  using assms unfolding btree_first_ge_def
  by (induction m) (auto split: if_splits)

lemma find_none_ge: "btree_first_ge p m = None \<longleftrightarrow> (\<forall>q \<in> fst ` set m. q < p)"
  by (auto simp: btree_first_ge_def find_None_iff not_le)

lemma ring_owner:
  assumes "ring_ok r" and "hr_ring r \<noteq> []"
  shows "\<exists>q. clockwise_next (ring_hash key) (points r) q \<and> ring_get_shard r key = points r q"
proof -
  have ok: "btree_ok (hr_ring r)" using assms(1) by (simp add: ring_ok_def)
  have dom: "dom (points r) = fst ` set (hr_ring r)" by (rule dom_map_of_conv_image_fst)
  show ?thesis
  proof (cases "btree_first_ge (ring_hash key) (hr_ring r)")
    case None
    obtain q v m where m: "hr_ring r = (q, v) # m" using assms(2) by (metis list.exhaust surj_pair)
    then have "\<forall>q' \<in> fst ` set (hr_ring r). q \<le> q' \<and> q' < ring_hash key"
      using ok None by (auto simp: find_none_ge less_imp_le)
    then have "clockwise_next (ring_hash key) (points r) q"
      using m unfolding clockwise_next_def dom by (auto intro!: clockwise_le)
    then show ?thesis using None m assms(2) by (auto simp: ring_get_shard_def Let_def)
  next
    case (Some e)
    obtain q v where e: "e = (q, v)" by fastforce
    note f = find_first_ge [OF ok Some [unfolded e]]
    then have "clockwise_next (ring_hash key) (points r) q"
      unfolding clockwise_next_def dom by (auto intro!: clockwise_le simp: image_iff not_le) force
    moreover have "points r q = Some v" using f ok by (simp add: btree_entry_iff)
    ultimately show ?thesis using Some e assms(2) by (auto simp: ring_get_shard_def Let_def)
  qed
qed

subsection \<open>Minimal disruption\<close>

text \<open>
  What a partitioner of keys promises when shards come and go: a new shard only takes keys over,
  and when a shard leaves, only its own keys move.
\<close>

locale partitioner =
  fixes ok :: "'r \<Rightarrow> bool"
    and owner :: "'r \<Rightarrow> string \<Rightarrow> u64 option"
    and add :: "'c \<Rightarrow> 'r \<Rightarrow> 'r"
    and cid :: "'c \<Rightarrow> u64"
    and remove :: "u64 \<Rightarrow> 'r \<Rightarrow> 'r"
  assumes ok_add: "ok r \<Longrightarrow> ok (add c r)"
    and ok_remove: "ok r \<Longrightarrow> ok (remove s r)"
    and add_takes_over: "ok r \<Longrightarrow> owner (add c r) k = owner r k \<or> owner (add c r) k = Some (cid c)"
    and remove_keeps: "ok r \<Longrightarrow> owner r k \<noteq> Some s \<Longrightarrow> owner (remove s r) k = owner r k"
    and remove_disowns: "ok r \<Longrightarrow> owner (remove s r) k \<noteq> Some s"
begin

text \<open>A shard that comes and goes again leaves every key it did not take where it was.\<close>

lemma add_remove:
  assumes "ok r" and "owner (add c r) k \<noteq> Some (cid c)"
  shows "owner (remove (cid c) (add c r)) k = owner r k"
  using assms add_takes_over [OF assms(1), of c k] remove_keeps [OF ok_add, OF assms(1)] by simp

lemma adds_take_over:
  assumes "ok r"
  shows "ok (fold add cs r) \<and>
    (owner (fold add cs r) k = owner r k \<or> (\<exists>c \<in> set cs. owner (fold add cs r) k = Some (cid c)))"
  using assms
proof (induction cs arbitrary: r)
  case (Cons c cs)
  from Cons.IH [OF ok_add [OF Cons.prems], of c] add_takes_over [OF Cons.prems, of c k]
  show ?case by auto
qed simp

end

lemma clockwise_subset:
  "clockwise_next p m q \<Longrightarrow> dom m' \<subseteq> dom m \<Longrightarrow> q \<in> dom m' \<Longrightarrow> clockwise_next p m' q"
  by (auto simp: clockwise_next_def)

lemma ring_owner_eqI:
  assumes "ring_ok r" and "clockwise_next (ring_hash k) (points r) q"
  shows "ring_get_shard r k = points r q"
proof -
  have "hr_ring r \<noteq> []" using assms(2) by (auto simp: clockwise_next_def)
  then show ?thesis using ring_owner [OF assms(1), of k] clockwise_unique [OF assms(2)] by auto
qed

lemma ring_get_shard_None: "ring_ok r \<Longrightarrow> ring_get_shard r k = None \<longleftrightarrow> hr_ring r = []"
  by (auto simp: ring_get_shard_def Let_def split: option.splits)

interpretation ring: partitioner ring_ok ring_get_shard ring_add_shard "\<lambda>s. s" ring_remove_shard
proof
  fix r k s
  assume ok: "ring_ok r"
  show "ring_ok (ring_add_shard s r)" "ring_ok (ring_remove_shard s r)" using ok by simp_all
  show "ring_get_shard (ring_add_shard s r) k = ring_get_shard r k \<or> ring_get_shard (ring_add_shard s r) k = Some s"
  proof (cases "hr_ring (ring_add_shard s r) = []")
    case True
    then have "points r p = None" for p using points_add [of s r p] by (simp split: if_splits)
    then show ?thesis using True by (simp add: ring_get_shard_def points_empty_iff fun_eq_iff)
  next
    case False
    then obtain q where q: "clockwise_next (ring_hash k) (points (ring_add_shard s r)) q"
      "ring_get_shard (ring_add_shard s r) k = points (ring_add_shard s r) q"
      using ring_owner [of "ring_add_shard s r" k] ok by auto
    have sub: "dom (points r) \<subseteq> dom (points (ring_add_shard s r))" by (auto simp: points_add)
    show ?thesis
    proof (cases "q \<in> vnodes r s")
      case False
      then have "q \<in> dom (points r)" using q(1) by (auto simp: clockwise_next_def points_add)
      from ring_owner_eqI [OF ok clockwise_subset [OF q(1) sub this]] show ?thesis
        using q(2) False by (simp add: points_add)
    qed (simp add: q(2) points_add)
  qed
  show "ring_get_shard r k \<noteq> Some s \<Longrightarrow> ring_get_shard (ring_remove_shard s r) k = ring_get_shard r k"
  proof (cases "hr_ring r = []")
    case True
    then show ?thesis by (simp add: ring_get_shard_def ring_remove_shard_def)
  next
    case False
    then obtain q where q: "clockwise_next (ring_hash k) (points r) q" "ring_get_shard r k = points r q"
      using ring_owner [OF ok] by blast
    assume "ring_get_shard r k \<noteq> Some s"
    then have at: "points (ring_remove_shard s r) q = points r q" using q(2) by (simp add: points_remove [OF ok])
    have "clockwise_next (ring_hash k) (points (ring_remove_shard s r)) q"
      using q(1) at by (intro clockwise_subset [OF q(1)]) (auto simp: points_remove [OF ok] clockwise_next_def split: if_splits)
    from ring_owner_eqI [OF ring_ok_remove [OF ok] this] show ?thesis using q(2) at by simp
  qed
  show "ring_get_shard (ring_remove_shard s r) k \<noteq> Some s"
    using ring_owner [OF ring_ok_remove [OF ok], of s k] points_remove [OF ok, of s]
    by (cases "hr_ring (ring_remove_shard s r) = []") (auto simp: ring_get_shard_def split: if_splits)
qed

text \<open>
  C25. A key belongs to the shard of the next point clockwise: the lookup on a ring with points
  answers with the shard of the point at the least distance from the key's hash, where distance
  is measured clockwise and wraps around the end of the ring.
\<close>

theorem key_owner_is_clockwise_next:
  assumes "btree_ok (hr_ring r)" and "hr_ring r \<noteq> []"
  shows "\<exists>q s. map_of (hr_ring r) q = Some s \<and> ring_get_shard r key = Some s \<and>
    (\<forall>q' s'. map_of (hr_ring r) q' = Some s' \<longrightarrow> q - ring_hash key \<le> q' - ring_hash key)"
  using ring_owner [of r key] assms by (fastforce simp: ring_ok_def clockwise_next_def)

theorem key_owner_is_clockwise_next_witness:
  "\<exists>q s. map_of (hr_ring (ring_add_shard 7 (ring_new 4))) q = Some s \<and>
    ring_get_shard (ring_add_shard 7 (ring_new 4)) ''user:1'' = Some s"
proof -
  have "btree_ok (hr_ring (ring_add_shard 7 (ring_new 4)))"
    using ring_ok_add [OF ring_ok_new] by (simp add: ring_ok_def)
  moreover have "hr_ring (ring_add_shard 7 (ring_new 4)) \<noteq> []" by code_simp
  ultimately show ?thesis using key_owner_is_clockwise_next [of "ring_add_shard 7 (ring_new 4)" "''user:1''"] by blast
qed

text \<open>
  The ring's list of shards: sorted, without repetition, exactly the shards that have a point,
  and \<open>shard_count\<close> is its length.
\<close>

theorem shard_ids_exact:
  "sorted_wrt (<) (ring_shard_ids r) \<and> set (ring_shard_ids r) = snd ` set (hr_ring r) \<and>
   ring_shard_count r = card (snd ` set (hr_ring r))"
proof -
  let ?xs = "remdups_adj (sort (map snd (hr_ring r)))"
  have d: "sorted_wrt (<) ?xs"
    by (rule strict_sorted_remdups_adj) simp
  then have "distinct ?xs" by (simp add: strict_sorted_iff)
  then have "length ?xs = card (set ?xs)" by (rule distinct_card [symmetric])
  then show ?thesis using d by (simp add: ring_shard_ids_def ring_shard_count_def)
qed

end
