(* ===== verification/Router.thy ===== *)
theory Router
  imports Ring
begin

text \<open>
  The request router of \<^verbatim>\<open>src/sharding/router.rs\<close>: the ring together with the configuration of
  each shard. The invariant \<open>router_ok\<close> is that every shard with a point on the ring has a
  configuration; it holds of a new router and of every router made from it, and makes routing
  total. The router is a \<open>partitioner\<close> like the ring under it.
\<close>

record ShardConfig =
  sc_shard_id :: u64
  sc_node_ids :: "u64 list"
  sc_leader_port :: "u16 option"

record Router =
  rt_ring :: HashRing
  rt_shards :: "ShardConfig list"

definition router_new :: "ShardConfig list \<Rightarrow> u32 \<Rightarrow> Router" where
  "router_new shards virtual_nodes =
     \<lparr>rt_ring = fold (\<lambda>s. ring_add_shard (sc_shard_id s)) shards (ring_new virtual_nodes), rt_shards = shards\<rparr>"

definition route :: "Router \<Rightarrow> string \<Rightarrow> ShardConfig option" where
  "route r key =
     (case ring_get_shard (rt_ring r) key of
        None \<Rightarrow> None
      | Some shard_id \<Rightarrow> List.find (\<lambda>s. sc_shard_id s = shard_id) (rt_shards r))"

definition get_shard_id :: "Router \<Rightarrow> string \<Rightarrow> u64 option" where
  "get_shard_id r key = ring_get_shard (rt_ring r) key"

definition key_belongs_to_shard :: "Router \<Rightarrow> string \<Rightarrow> u64 \<Rightarrow> bool" where
  "key_belongs_to_shard r key shard_id =
     (case ring_get_shard (rt_ring r) key of Some i \<Rightarrow> i = shard_id | None \<Rightarrow> False)"

definition router_get_shard :: "Router \<Rightarrow> u64 \<Rightarrow> ShardConfig option" where
  "router_get_shard r shard_id = List.find (\<lambda>s. sc_shard_id s = shard_id) (rt_shards r)"

definition router_add_shard :: "ShardConfig \<Rightarrow> Router \<Rightarrow> Router" where
  "router_add_shard config r =
     r\<lparr>rt_ring := ring_add_shard (sc_shard_id config) (rt_ring r), rt_shards := rt_shards r @ [config]\<rparr>"

definition router_remove_shard :: "u64 \<Rightarrow> Router \<Rightarrow> Router" where
  "router_remove_shard shard_id r =
     r\<lparr>rt_ring := ring_remove_shard shard_id (rt_ring r),
       rt_shards := filter (\<lambda>s. sc_shard_id s \<noteq> shard_id) (rt_shards r)\<rparr>"

definition router_shard_count :: "Router \<Rightarrow> usize" where
  "router_shard_count r = length (rt_shards r)"

subsection \<open>Invariant\<close>

definition router_ok :: "Router \<Rightarrow> bool" where
  "router_ok r \<longleftrightarrow> ring_ok (rt_ring r) \<and> ran (points (rt_ring r)) \<subseteq> sc_shard_id ` set (rt_shards r)"

lemma ran_points_add: "ran (points (ring_add_shard s r)) \<subseteq> insert s (ran (points r))"
  by (auto simp: ran_def points_add split: if_splits)

lemma router_ok_add [wf_intro]: "router_ok r \<Longrightarrow> router_ok (router_add_shard c r)"
  using ran_points_add [of "sc_shard_id c" "rt_ring r"] by (auto simp: router_ok_def router_add_shard_def)

lemma router_ok_remove [wf_intro]: "router_ok r \<Longrightarrow> router_ok (router_remove_shard s r)"
  by (auto simp: router_ok_def router_remove_shard_def points_remove ran_def split: if_splits)

text \<open>\<open>router_new\<close> is the empty router with the shards added one by one.\<close>

lemma router_new_adds: "router_new cs n = fold router_add_shard cs \<lparr>rt_ring = ring_new n, rt_shards = []\<rparr>"
proof -
  have "fold router_add_shard cs \<lparr>rt_ring = g, rt_shards = xs\<rparr> =
    \<lparr>rt_ring = fold (\<lambda>s. ring_add_shard (sc_shard_id s)) cs g, rt_shards = xs @ cs\<rparr>" for g xs
    by (induction cs arbitrary: g xs) (simp_all add: router_add_shard_def)
  then show ?thesis by (simp add: router_new_def)
qed

interpretation router: partitioner router_ok get_shard_id router_add_shard sc_shard_id router_remove_shard
proof
  fix r k s and c :: ShardConfig
  assume "router_ok r"
  then have ring: "ring_ok (rt_ring r)" by (simp add: router_ok_def)
  show "router_ok (router_add_shard c r)" "router_ok (router_remove_shard s r)"
    using \<open>router_ok r\<close> by (auto intro: wf_intro)
  show "get_shard_id (router_add_shard c r) k = get_shard_id r k \<or>
      get_shard_id (router_add_shard c r) k = Some (sc_shard_id c)"
    using ring.add_takes_over [OF ring] by (simp add: get_shard_id_def router_add_shard_def)
  show "get_shard_id r k \<noteq> Some s \<Longrightarrow> get_shard_id (router_remove_shard s r) k = get_shard_id r k"
    using ring.remove_keeps [OF ring] by (simp add: get_shard_id_def router_remove_shard_def)
  show "get_shard_id (router_remove_shard s r) k \<noteq> Some s"
    using ring.remove_disowns [OF ring] by (simp add: get_shard_id_def router_remove_shard_def)
qed

lemma router_ok_empty: "router_ok \<lparr>rt_ring = ring_new n, rt_shards = []\<rparr>"
  by (simp add: router_ok_def ring_new_def ring_ok_def)

lemma router_new_ok: "router_ok (router_new cs n)"
  unfolding router_new_adds using router.adds_take_over [OF router_ok_empty] by blast

lemma get_shard_configured:
  assumes "router_ok r" and "get_shard_id r k = Some s"
  shows "s \<in> sc_shard_id ` set (rt_shards r)"
proof -
  have "hr_ring (rt_ring r) \<noteq> []" using assms(2) by (auto simp: get_shard_id_def ring_get_shard_def)
  then obtain q where "points (rt_ring r) q = Some s"
    using ring_owner [of "rt_ring r" k] assms by (auto simp: router_ok_def get_shard_id_def)
  then show ?thesis using assms(1) ranI by (fastforce simp: router_ok_def)
qed

lemma find_config:
  assumes "s \<in> sc_shard_id ` set cs"
  obtains c where "List.find (\<lambda>c. sc_shard_id c = s) cs = Some c" "c \<in> set cs" "sc_shard_id c = s"
proof -
  obtain c where "List.find (\<lambda>c. sc_shard_id c = s) cs = Some c"
    using assms by (cases "List.find (\<lambda>c. sc_shard_id c = s) cs") (auto simp: find_None_iff)
  moreover from this have "c \<in> set cs" "sc_shard_id c = s" by (auto simp: find_Some_iff)
  ultimately show ?thesis using that by blast
qed

lemma ring_adds_nonempty:
  assumes "0 < unat n" and "cs \<noteq> []"
  shows "hr_ring (fold (\<lambda>c. ring_add_shard (sc_shard_id c)) cs (ring_new n)) \<noteq> []"
proof -
  have keep: "hr_num_virtual_nodes (fold (\<lambda>c. ring_add_shard (sc_shard_id c)) xs (ring_new n)) = n" for xs
    by (induction xs rule: rev_induct) (simp_all add: ring_add_shard_def ring_new_def)
  obtain xs c where cs: "cs = xs @ [c]" using assms(2) by (metis rev_exhaust)
  obtain k where "unat n = Suc k" using assms(1) by (metis gr0_implies_Suc)
  then show ?thesis using keep [of xs] by (simp add: cs ring_add_shard_def)
qed

text \<open>
  C24. Routing is total and single-valued. A router over at least one shard with at least one
  virtual node each sends every key to a configured shard: \<open>route\<close>, \<open>get_shard_id\<close> and
  \<open>key_belongs_to_shard\<close> agree, and the key belongs to that shard and to no other.
\<close>

theorem routing_total:
  assumes "cs \<noteq> []" and "0 < n"
  shows "\<exists>c \<in> set cs. route (router_new cs n) k = Some c \<and>
    get_shard_id (router_new cs n) k = Some (sc_shard_id c) \<and>
    key_belongs_to_shard (router_new cs n) k s = (s = sc_shard_id c)"
proof -
  have "0 < unat n" using assms(2) by (simp add: word_less_nat_alt)
  then have "hr_ring (rt_ring (router_new cs n)) \<noteq> []"
    using ring_adds_nonempty assms(1) by (simp add: router_new_def)
  then obtain i where i: "get_shard_id (router_new cs n) k = Some i"
    using ring_get_shard_None [of "rt_ring (router_new cs n)" k] router_new_ok [of cs n]
    by (auto simp: get_shard_id_def router_ok_def)
  then have "i \<in> sc_shard_id ` set cs"
    using get_shard_configured [OF router_new_ok i] by (simp add: router_new_def)
  from find_config [OF this] obtain c where "List.find (\<lambda>c. sc_shard_id c = i) cs = Some c" "c \<in> set cs" "sc_shard_id c = i"
    by blast
  then show ?thesis
    using i by (intro bexI [of _ c]) (auto simp: route_def key_belongs_to_shard_def get_shard_id_def router_new_def)
qed

theorem routing_total_witness:
  "\<exists>c \<in> set [\<lparr>sc_shard_id = 1, sc_node_ids = [1, 2, 3], sc_leader_port = Some 6381\<rparr>,
             \<lparr>sc_shard_id = 2, sc_node_ids = [4, 5, 6], sc_leader_port = Some 6384\<rparr>].
     route (router_new [\<lparr>sc_shard_id = 1, sc_node_ids = [1, 2, 3], sc_leader_port = Some 6381\<rparr>,
             \<lparr>sc_shard_id = 2, sc_node_ids = [4, 5, 6], sc_leader_port = Some 6384\<rparr>] 64) ''important_data'' = Some c"
  using routing_total [of "[\<lparr>sc_shard_id = 1, sc_node_ids = [1, 2, 3], sc_leader_port = Some 6381\<rparr>,
    \<lparr>sc_shard_id = 2, sc_node_ids = [4, 5, 6], sc_leader_port = Some 6384\<rparr>]" 64 "''important_data''" 1]
  by (auto simp: word_less_nat_alt)

text \<open>
  C23. Minimal disruption. Adding a shard to a router moves a key only to the new shard; removing
  one moves only the keys it owned, and it then owns none; and after both, every key the shard did
  not take over is where it was.
\<close>

theorem minimal_disruption:
  assumes "router_ok r"
  shows "(get_shard_id (router_add_shard c r) k = get_shard_id r k \<or>
      get_shard_id (router_add_shard c r) k = Some (sc_shard_id c)) \<and>
    (get_shard_id r k \<noteq> Some s \<longrightarrow> get_shard_id (router_remove_shard s r) k = get_shard_id r k) \<and>
    get_shard_id (router_remove_shard s r) k \<noteq> Some s \<and>
    (get_shard_id (router_add_shard c r) k \<noteq> Some (sc_shard_id c) \<longrightarrow>
      get_shard_id (router_remove_shard (sc_shard_id c) (router_add_shard c r)) k = get_shard_id r k)"
  using router.add_takes_over [OF assms] router.remove_keeps [OF assms] router.remove_disowns [OF assms]
    router.add_remove [OF assms] by auto

theorem minimal_disruption_witness:
  "router_ok (router_new [\<lparr>sc_shard_id = 1, sc_node_ids = [1], sc_leader_port = None\<rparr>] 64) \<and>
   get_shard_id (router_remove_shard 1 (router_new [\<lparr>sc_shard_id = 1, sc_node_ids = [1], sc_leader_port = None\<rparr>] 64))
     ''k'' \<noteq> Some 1"
  using minimal_disruption [OF router_new_ok, of _ _ _ "''k''" 1] router_new_ok by blast

end
