(* ===== verification/Protocol.thy ===== *)
theory Protocol
  imports Rust_Text
begin

text \<open>
  The client protocol of \<^verbatim>\<open>src/network/protocol.rs\<close>: \<open>Command::parse\<close> on the text of a request and
  \<open>Response::serialize\<close>. \<open>resp_encode\<close> is the request format the comment on \<^verbatim>\<open>parse\<close> documents,
  which is what clients send; the lemmas relate the two. Command names are compared after
  \<^verbatim>\<open>to_uppercase\<close>, which the model takes on ASCII letters only.
\<close>

datatype Command =
    Get string
  | Set string string
  | Del string
  | Ping
  | Unknown string

datatype Response =
    SimpleString string
  | BulkString string
  | Null
  | Error string
  | Integer int

subsection \<open>Parsing\<close>

text \<open>The loop over the arguments: pairs of a \<^verbatim>\<open>$\<close> line and a data line, and the lines left over.\<close>

fun read_args :: "nat \<Rightarrow> string list \<Rightarrow> (string list \<times> string list) option" where
  "read_args num_args lines =
     (if num_args = 0 then Some ([], lines)
      else case lines of
        len_line # data # rest \<Rightarrow>
          if \<not> starts_with CHR ''$'' len_line then None
          else (case read_args (num_args - 1) rest of
                  None \<Rightarrow> None
                | Some (args, rest) \<Rightarrow> Some (data # args, rest))
      | _ \<Rightarrow> None)"

declare read_args.simps [simp del]

definition command_of_args :: "string list \<Rightarrow> Command option" where
  "command_of_args args =
     (if args = [] then None
      else
        let command_name = to_uppercase (args ! 0)
        in if command_name = ''GET'' then (if length args \<noteq> 2 then None else Some (Get (args ! 1)))
           else if command_name = ''SET'' then (if length args \<noteq> 3 then None else Some (Set (args ! 1) (args ! 2)))
           else if command_name = ''DEL'' then (if length args \<noteq> 2 then None else Some (Del (args ! 1)))
           else if command_name = ''PING'' then Some Ping
           else Some (Unknown command_name))"

definition parse :: "string \<Rightarrow> Command option" where
  "parse input =
     (case str_lines input of
        [] \<Rightarrow> None
      | first_line # lines \<Rightarrow>
          if \<not> starts_with CHR ''*'' first_line then None
          else case parse_usize (drop 1 first_line) of
            None \<Rightarrow> None
          | Some num_args \<Rightarrow>
              (case read_args num_args lines of
                 None \<Rightarrow> None
               | Some (args, _) \<Rightarrow> command_of_args args))"

subsection \<open>Serialising\<close>

definition serialize :: "Response \<Rightarrow> string" where
  "serialize r =
     (case r of
        SimpleString s \<Rightarrow> ''+'' @ s @ crlf
      | BulkString s \<Rightarrow> ''$'' @ show_nat (length s) @ crlf @ s @ crlf
      | Null \<Rightarrow> ''$-1'' @ crlf
      | Error msg \<Rightarrow> ''-ERR '' @ msg @ crlf
      | Integer n \<Rightarrow> '':'' @ show_int n @ crlf)"

subsection \<open>Requests as clients send them\<close>

definition resp_bulk :: "string \<Rightarrow> string" where
  "resp_bulk s = ''$'' @ show_nat (length s) @ crlf @ s @ crlf"

definition resp_encode :: "string list \<Rightarrow> string" where
  "resp_encode args = ''*'' @ show_nat (length args) @ crlf @ concat (map resp_bulk args)"

definition one_line :: "string \<Rightarrow> bool" where
  "one_line s \<longleftrightarrow> LF \<notin> set s"

lemma read_args_0 [simp]: "read_args 0 ls = Some ([], ls)"
  by (simp add: read_args.simps)

lemma read_args_Suc:
  "read_args (Suc n) ((CHR ''$'' # l) # d # ls) =
     (case read_args n ls of None \<Rightarrow> None | Some (args, rest) \<Rightarrow> Some (d # args, rest))"
  by (subst read_args.simps) (simp add: starts_with_def)

lemma lines_of_bulks:
  assumes "list_all one_line args"
  shows "str_lines (concat (map resp_bulk args) @ s) =
    concat (map (\<lambda>a. [CHR ''$'' # show_nat (length a), a]) args) @ str_lines s"
  using assms
proof (induction args)
  case (Cons a args)
  have "resp_bulk a @ t = (CHR ''$'' # show_nat (length a)) @ CR # LF # (a @ CR # LF # t)" for t
    by (simp add: resp_bulk_def)
  then show ?case
    using Cons str_lines_crlf [of "CHR ''$'' # show_nat (length a)"] str_lines_crlf [of a]
    by (simp add: one_line_def)
qed simp

lemma read_bulk_lines:
  "read_args (length args) (concat (map (\<lambda>a. [CHR ''$'' # show_nat (length a), a]) args) @ ls) = Some (args, ls)"
  by (induction args) (simp_all add: read_args_Suc)

lemma lines_of_request:
  assumes "list_all one_line args"
  shows "str_lines (resp_encode args @ s) =
    (CHR ''*'' # show_nat (length args)) # concat (map (\<lambda>a. [CHR ''$'' # show_nat (length a), a]) args) @ str_lines s"
proof -
  have "resp_encode args @ s = (CHR ''*'' # show_nat (length args)) @ CR # LF # (concat (map resp_bulk args) @ s)"
    by (simp add: resp_encode_def)
  then show ?thesis
    using str_lines_crlf [of "CHR ''*'' # show_nat (length args)"] lines_of_bulks [OF assms] by simp
qed

text \<open>
  C30. Requests are parsed as they were meant. Whatever arguments a client encodes, as long as none
  contains a line feed, \<open>parse\<close> decodes exactly those arguments and interprets them as a command.
\<close>

theorem parse_encoded_request:
  assumes "list_all (\<lambda>a. LF \<notin> set a) args" and "length args < 2 ^ 64"
  shows "parse (resp_encode args) = command_of_args args"
proof -
  have ok: "list_all one_line args" using assms(1) by (simp add: one_line_def [abs_def])
  show ?thesis
    using lines_of_request [OF ok, of "[]"] read_bulk_lines [of args "[]"] parse_show_usize [OF assms(2)]
    by (simp add: parse_def starts_with_def)
qed

theorem parse_encoded_request_witness:
  "parse (resp_encode [''set'', ''name'', ''uday'']) = Some (Set ''name'' ''uday'')"
proof -
  have "command_of_args [''set'', ''name'', ''uday''] = Some (Set ''name'' ''uday'')" by code_simp
  then show ?thesis using parse_encoded_request [of "[''set'', ''name'', ''uday'']"] by simp
qed

text \<open>
  The length of a bulk string is not used. A value with a line feed in it is legal in the
  protocol, which counts bytes, but is cut at the line feed, and the command is accepted.
\<close>

theorem value_cut_at_line_feed:
  assumes "LF \<notin> set k" and "LF \<notin> set v" and "v \<noteq> [] \<Longrightarrow> last v \<noteq> CR"
  shows "parse (resp_encode [''SET'', k, v @ LF # w]) = Some (Set k v)"
proof -
  let ?n = "CHR ''$'' # show_nat (length v + length w + 1)"
  let ?bulks = "concat (map resp_bulk [''SET'', k]) @ ?n @ CR # LF # v @ LF # w @ crlf"
  have strip: "strip_cr v = v" using assms(3) unfolding strip_cr_def by (cases "v = []") simp_all
  have three: "show_nat (Suc (Suc (Suc 0))) = ''3''" by code_simp
  then have "resp_encode [''SET'', k, v @ LF # w] = ''*3'' @ CR # LF # ?bulks"
    by (simp add: resp_encode_def resp_bulk_def)
  then have "str_lines (resp_encode [''SET'', k, v @ LF # w]) = ''*3'' # str_lines ?bulks"
    using str_lines_crlf [of "''*3''" ?bulks] by simp
  moreover have "str_lines ?bulks = concat (map (\<lambda>a. [CHR ''$'' # show_nat (length a), a]) [''SET'', k]) @
      str_lines (?n @ CR # LF # v @ LF # w @ crlf)"
    by (rule lines_of_bulks) (simp add: one_line_def assms)
  moreover have "str_lines (?n @ CR # LF # v @ LF # w @ crlf) = ?n # str_lines (v @ LF # w @ crlf)"
    by (rule str_lines_crlf) simp
  moreover have "str_lines (v @ LF # w @ crlf) = v # str_lines (w @ crlf)"
    using str_lines_line [OF assms(2), of "w @ crlf"] strip by simp
  ultimately have "str_lines (resp_encode [''SET'', k, v @ LF # w]) =
    ''*3'' # ''$3'' # ''SET'' # (CHR ''$'' # show_nat (length k)) # k # ?n # v # str_lines (w @ crlf)" using three by simp
  moreover have "parse_usize ''3'' = Some (Suc (Suc (Suc 0)))"
    using parse_show_usize [of "Suc (Suc (Suc 0))"] three by simp
  moreover have "read_args (Suc (Suc (Suc 0))) (''$3'' # ''SET'' # (CHR ''$'' # show_nat (length k)) # k # ?n # v # ls) = Some ([''SET'', k, v], ls)" for ls
    by (simp add: read_args_Suc)
  moreover have "to_uppercase ''SET'' = ''SET''" by code_simp
  ultimately show ?thesis by (simp add: parse_def starts_with_def command_of_args_def)
qed

theorem value_cut_at_line_feed_witness:
  "parse (resp_encode [''SET'', ''k'', ''ab'' @ LF # ''cd'']) = Some (Set ''k'' ''ab'')"
  by (rule value_cut_at_line_feed) simp_all

text \<open>
  A client can tell responses apart: different responses never have the same bytes on the wire.
\<close>

theorem serialize_injective: "serialize r = serialize r' \<longleftrightarrow> r = r'"
proof
  assume eq: "serialize r = serialize r'"
  have split: "s = t" if "show_nat m @ CR # s = show_nat n @ CR # t" for m n s t
    using that by (simp add: split_at_first)
  have null: "show_nat m @ s \<noteq> CHR ''-'' # t" for m s t
  proof
    assume "show_nat m @ s = CHR ''-'' # t"
    then have "hd (show_nat m) = CHR ''-''" by (metis hd_append2 list.sel(1) show_nat_ne)
    then have "CHR ''-'' \<in> set (show_nat m)" by (metis hd_in_set show_nat_ne)
    then show False using show_nat_no_ctrl [of "CHR ''-''" m] by simp
  qed
  show "r = r'"
  proof (cases r)
    case (BulkString s)
    then show ?thesis using eq null by (cases r') (auto simp: serialize_def dest: split)
  next
    case Null
    then show ?thesis using eq null [symmetric] by (cases r') (auto simp: serialize_def)
  next
    case (Integer n)
    then show ?thesis using eq by (cases r') (auto simp: serialize_def dest: show_int_inj)
  qed (use eq in \<open>cases r'; simp add: serialize_def\<close>)+
qed simp

end
