(* ===== verification/Raft_Log.thy ===== *)
theory Raft_Log
  imports KV_Spec
begin

text \<open>
  The replicated log of \<^verbatim>\<open>src/raft/log.rs\<close>. A log is the vector of its entries with the
  sentinel of term 0 at index 0; \<open>log_ok\<close> is the invariant that the vector is never empty
  and starts with that sentinel. \<^verbatim>\<open>entries.len() - 1\<close> cannot underflow as long as it holds,
  so \<open>last_index\<close> reads like the code.
\<close>

datatype LogCommand = Put string string | Delete string | Noop

record LogEntry =
  le_term :: u64
  le_command :: LogCommand

text \<open>\<^verbatim>\<open>RaftLog\<close> has the single field \<^verbatim>\<open>entries\<close>.\<close>

type_synonym RaftLog = "LogEntry list"

definition sentinel :: LogEntry where
  "sentinel = \<lparr>le_term = 0, le_command = Noop\<rparr>"

definition log_new :: RaftLog where
  "log_new = [sentinel]"

definition log_get :: "RaftLog \<Rightarrow> usize \<Rightarrow> LogEntry option" where
  "log_get l index = (if index < length l then Some (l ! index) else None)"

definition last_index :: "RaftLog \<Rightarrow> usize" where
  "last_index l = length l - 1"

definition last_term :: "RaftLog \<Rightarrow> u64" where
  "last_term l = (if l = [] then 0 else le_term (last l))"

definition term_at :: "RaftLog \<Rightarrow> usize \<Rightarrow> u64" where
  "term_at l index = (case log_get l index of None \<Rightarrow> 0 | Some e \<Rightarrow> le_term e)"

definition log_append :: "LogEntry \<Rightarrow> RaftLog \<Rightarrow> usize \<times> RaftLog" where
  "log_append e l = (let l' = l @ [e] in (last_index l', l'))"

definition append_entries :: "LogEntry list \<Rightarrow> RaftLog \<Rightarrow> usize \<times> RaftLog" where
  "append_entries es l = (let l' = l @ es in (last_index l', l'))"

definition truncate_from :: "usize \<Rightarrow> RaftLog \<Rightarrow> RaftLog" where
  "truncate_from index l = (if index < length l then take index l else l)"

definition entries_from :: "usize \<Rightarrow> RaftLog \<Rightarrow> LogEntry list" where
  "entries_from start_index l = (if start_index \<ge> length l then [] else drop start_index l)"

definition log_len :: "RaftLog \<Rightarrow> usize" where
  "log_len l = length l - 1"

definition from_entries :: "LogEntry list \<Rightarrow> RaftLog" where
  "from_entries es = (if es = [] then log_new else es)"

definition to_entries :: "RaftLog \<Rightarrow> LogEntry list" where
  "to_entries l = l"

subsection \<open>Invariant and laws\<close>

definition log_ok :: "RaftLog \<Rightarrow> bool" where
  "log_ok l \<longleftrightarrow> l \<noteq> [] \<and> hd l = sentinel"

lemma log_ok_new [simp, wf_intro]: "log_ok log_new"
  by (simp add: log_ok_def log_new_def)

lemma log_ok_append [simp, wf_intro]: "log_ok l \<Longrightarrow> log_ok (l @ es)"
  by (cases l) (auto simp: log_ok_def)

lemma log_ok_take [wf_intro]: "log_ok l \<Longrightarrow> 0 < n \<Longrightarrow> log_ok (take n l)"
  by (cases l; cases n) (auto simp: log_ok_def)

lemma log_ok_truncate [wf_intro]: "log_ok l \<Longrightarrow> 0 < n \<Longrightarrow> log_ok (truncate_from n l)"
  by (simp add: truncate_from_def log_ok_take)

lemma log_ok_from_entries [wf_intro]: "log_ok l \<Longrightarrow> log_ok (from_entries l)"
  by (simp add: from_entries_def)

lemma log_ok_length: "log_ok l \<Longrightarrow> length l = Suc (last_index l)"
  by (cases l) (auto simp: log_ok_def last_index_def)

lemma log_ok_0: "log_ok l \<Longrightarrow> l ! 0 = sentinel"
  by (cases l) (auto simp: log_ok_def)

lemma log_ok_take_1: "log_ok l \<Longrightarrow> take (Suc 0) l = [sentinel]"
  by (cases l) (auto simp: log_ok_def)

lemma from_to_entries: "log_ok l \<Longrightarrow> from_entries (to_entries l) = l"
  by (auto simp: from_entries_def to_entries_def log_ok_def)

lemma term_at_in: "i < length l \<Longrightarrow> term_at l i = le_term (l ! i)"
  by (simp add: term_at_def log_get_def)

lemma term_at_out: "length l \<le> i \<Longrightarrow> term_at l i = 0"
  by (simp add: term_at_def log_get_def)

lemma term_at_append: "i < length l \<Longrightarrow> term_at (l @ es) i = term_at l i"
  by (simp add: term_at_in nth_append)

lemma term_at_0 [simp]: "log_ok l \<Longrightarrow> term_at l 0 = 0"
  by (cases l) (auto simp: term_at_in log_ok_0 log_ok_def sentinel_def)

lemma last_term_at: "log_ok l \<Longrightarrow> last_term l = term_at l (last_index l)"
  by (auto simp: log_ok_def last_term_def term_at_in last_index_def last_conv_nth)

lemma entries_from_drop [simp]: "entries_from n l = drop n l"
  by (simp add: entries_from_def)

lemma truncate_from_take [simp]: "truncate_from n l = take n l"
  by (simp add: truncate_from_def)

text \<open>Cutting a log and appending what was cut gives it back: what resending relies on.\<close>

lemma truncate_append_entries_from: "snd (append_entries (entries_from n l) (truncate_from n l)) = l"
  by (simp add: append_entries_def)

subsection \<open>What a log means for the store\<close>

text \<open>The operations a list of log entries asks of the state machine; no-ops ask for none.\<close>

fun command_op :: "LogCommand \<Rightarrow> kv_op option" where
  "command_op (Put k v) = Some (KPut k v)"
| "command_op (Delete k) = Some (KDel k)"
| "command_op Noop = None"

definition log_ops :: "LogEntry list \<Rightarrow> kv_op list" where
  "log_ops es = List.map_filter (\<lambda>e. command_op (le_command e)) es"

lemma log_ops_simps [simp]:
  "log_ops [] = []"
  "log_ops (e # es) = (case command_op (le_command e) of None \<Rightarrow> log_ops es | Some x \<Rightarrow> x # log_ops es)"
  "log_ops (xs @ ys) = log_ops xs @ log_ops ys"
  by (simp_all add: log_ops_def List.map_filter_def split: option.splits)

end
