(* ===== verification/Raft_State.thy ===== *)
theory Raft_State
  imports Raft_Log
begin

text \<open>
  The messages of \<^verbatim>\<open>src/raft/message.rs\<close>, the node state of \<^verbatim>\<open>src/raft/state.rs\<close> and its role
  transitions. The lemmas give the exact effect of each transition on term and vote, the
  arithmetic of majorities, and the interpretation of \<open>quorum_system\<close> on the sets of peers
  that reach \<open>majority_count\<close>.
\<close>

subsection \<open>Messages\<close>

record RequestVoteRequest =
  rv_term :: u64
  rv_candidate_id :: u64
  rv_last_log_index :: usize
  rv_last_log_term :: u64

record RequestVoteResponse =
  rvr_term :: u64
  rvr_vote_granted :: bool

record AppendEntriesRequest =
  ae_term :: u64
  ae_leader_id :: u64
  ae_prev_log_index :: usize
  ae_prev_log_term :: u64
  ae_entries :: "LogEntry list"
  ae_leader_commit :: usize

record AppendEntriesResponse =
  aer_term :: u64
  aer_success :: bool
  aer_match_index :: "usize option"

subsection \<open>Node state\<close>

datatype NodeRole = Follower | Candidate | Leader

record RaftState =
  rs_id :: u64
  rs_peers :: "u64 list"
  rs_current_term :: u64
  rs_voted_for :: "u64 option"
  rs_log :: RaftLog
  rs_commit_index :: usize
  rs_last_applied :: usize
  rs_next_index :: "(u64 \<times> usize) list"
  rs_match_index :: "(u64 \<times> usize) list"
  rs_role :: NodeRole
  rs_leader_id :: "u64 option"

definition state_new :: "u64 \<Rightarrow> u64 list \<Rightarrow> RaftState" where
  "state_new i peers =
     \<lparr>rs_id = i, rs_peers = peers, rs_current_term = 0, rs_voted_for = None, rs_log = log_new,
      rs_commit_index = 0, rs_last_applied = 0, rs_next_index = [], rs_match_index = [],
      rs_role = Follower, rs_leader_id = None\<rparr>"

definition become_follower :: "u64 \<Rightarrow> RaftState \<Rightarrow> RaftState" where
  "become_follower t s =
     (if t > rs_current_term s then s\<lparr>rs_current_term := t, rs_voted_for := None\<rparr> else s)
     \<lparr>rs_role := Follower, rs_next_index := [], rs_match_index := []\<rparr>"

text \<open>\<^verbatim>\<open>current_term += 1\<close> on a \<^verbatim>\<open>u64\<close>: it wraps around at the maximum.\<close>

definition become_candidate :: "RaftState \<Rightarrow> RaftState" where
  "become_candidate s =
     s\<lparr>rs_current_term := rs_current_term s + 1, rs_role := Candidate,
       rs_voted_for := Some (rs_id s), rs_leader_id := None\<rparr>"

definition become_leader :: "RaftState \<Rightarrow> RaftState" where
  "become_leader s =
     (let followers = filter (\<lambda>p. p \<noteq> rs_id s) (rs_peers s)
      in s\<lparr>rs_role := Leader, rs_leader_id := Some (rs_id s),
           rs_next_index := map (\<lambda>p. (p, last_index (rs_log s) + 1)) followers,
           rs_match_index := map (\<lambda>p. (p, 0)) followers\<rparr>)"

definition majority_count :: "RaftState \<Rightarrow> usize" where
  "majority_count s = length (rs_peers s) div 2 + 1"

subsection \<open>Frame lemmas\<close>

lemma become_follower_simps [simp]:
  "rs_id (become_follower t s) = rs_id s"
  "rs_peers (become_follower t s) = rs_peers s"
  "rs_current_term (become_follower t s) = max (rs_current_term s) t"
  "rs_voted_for (become_follower t s) = (if t > rs_current_term s then None else rs_voted_for s)"
  "rs_log (become_follower t s) = rs_log s"
  "rs_commit_index (become_follower t s) = rs_commit_index s"
  "rs_last_applied (become_follower t s) = rs_last_applied s"
  "rs_role (become_follower t s) = Follower"
  "rs_next_index (become_follower t s) = []"
  "rs_match_index (become_follower t s) = []"
  "rs_leader_id (become_follower t s) = rs_leader_id s"
  by (auto simp: become_follower_def max_def)

lemma become_candidate_simps [simp]:
  "rs_id (become_candidate s) = rs_id s"
  "rs_peers (become_candidate s) = rs_peers s"
  "rs_current_term (become_candidate s) = rs_current_term s + 1"
  "rs_voted_for (become_candidate s) = Some (rs_id s)"
  "rs_log (become_candidate s) = rs_log s"
  "rs_commit_index (become_candidate s) = rs_commit_index s"
  "rs_last_applied (become_candidate s) = rs_last_applied s"
  "rs_role (become_candidate s) = Candidate"
  "rs_next_index (become_candidate s) = rs_next_index s"
  "rs_match_index (become_candidate s) = rs_match_index s"
  by (simp_all add: become_candidate_def)

lemma become_leader_simps [simp]:
  "rs_id (become_leader s) = rs_id s"
  "rs_peers (become_leader s) = rs_peers s"
  "rs_current_term (become_leader s) = rs_current_term s"
  "rs_voted_for (become_leader s) = rs_voted_for s"
  "rs_log (become_leader s) = rs_log s"
  "rs_commit_index (become_leader s) = rs_commit_index s"
  "rs_last_applied (become_leader s) = rs_last_applied s"
  "rs_role (become_leader s) = Leader"
  "rs_leader_id (become_leader s) = Some (rs_id s)"
  by (simp_all add: become_leader_def Let_def)

lemma majority_count_frame [simp]:
  "majority_count (become_follower t s) = majority_count s"
  "majority_count (become_candidate s) = majority_count s"
  "majority_count (become_leader s) = majority_count s"
  by (simp_all add: majority_count_def)

subsection \<open>Majorities are quorums\<close>

definition majority :: "u64 list \<Rightarrow> u64 set \<Rightarrow> bool" where
  "majority peers Q \<longleftrightarrow> Q \<subseteq> set peers \<and> length peers div 2 + 1 \<le> card Q"

interpretation majority: quorum_system "majority peers" for peers
proof
  fix Q R
  assume "majority peers Q" and "majority peers R"
  then have sub: "Q \<subseteq> set peers" "R \<subseteq> set peers"
    and big: "length peers < card Q + card R"
    by (auto simp: majority_def)
  have "card (Q \<union> R) \<le> length peers"
    using sub card_mono [of "set peers" "Q \<union> R"] card_length [of peers] by simp
  moreover have "card Q + card R = card (Q \<union> R) + card (Q \<inter> R)"
    using sub by (intro card_Un_Int) (auto intro: finite_subset)
  ultimately have "Q \<inter> R \<noteq> {}" using big by auto
  then show "\<exists>x. x \<in> Q \<and> x \<in> R" by blast
qed

end
