(* ===== verification/Raft_Persist.thy ===== *)
theory Raft_Persist
  imports Raft_State Rust_Text
begin

text \<open>
  The durable part of a Raft node, \<^verbatim>\<open>src/raft/persist.rs\<close>: term, vote and log written to one
  file as JSON. \<^verbatim>\<open>serde_json\<close> and the file system are not part of the repository, so they are
  parameters of the model: \<open>'j\<close> is the type of JSON texts, \<open>to_json\<close> and \<open>from_json\<close> are the
  two serde calls, \<open>fs_write\<close> is \<^verbatim>\<open>fs::write\<close> (given what the file held, whether the call
  succeeds and what the file holds after it: a failed write may leave anything), \<open>fs_read\<close> is
  \<^verbatim>\<open>fs::read_to_string\<close>. \<open>good_fs\<close> names what the proofs assume of them.
\<close>

record PersistentState =
  ps_current_term :: u64
  ps_voted_for :: "u64 option"
  ps_log :: "LogEntry list"

record 'j json_fs =
  to_json :: "PersistentState \<Rightarrow> 'j option"
  from_json :: "'j \<Rightarrow> PersistentState option"
  fs_write :: "'j option \<Rightarrow> 'j \<Rightarrow> bool \<times> 'j option"
  fs_read :: "'j \<Rightarrow> 'j option"

text \<open>
  The documented behaviour relied on: deserialising what was serialised gives the value back,
  a write that succeeds replaces the contents, a read returns the contents; and the
  operational assumption that reads and writes succeed.
\<close>

definition good_fs :: "'j json_fs \<Rightarrow> bool" where
  "good_fs fs \<longleftrightarrow>
     (\<forall>st. \<exists>j. to_json fs st = Some j \<and> from_json fs j = Some st) \<and>
     (\<forall>old j. fs_write fs old j = (True, Some j)) \<and> (\<forall>j. fs_read fs j = Some j)"

datatype persist_error = SerializeError | WriteError | ReadError | InvalidData

text \<open>A persister is its path; \<open>sp_file\<close> is what the file there holds (\<open>None\<close>: no file).\<close>

record 'j StatePersister =
  sp_path :: string
  sp_file :: "'j option"

definition persister_new :: "(string \<Rightarrow> 'j option) \<Rightarrow> string \<Rightarrow> 'j StatePersister" where
  "persister_new disk path = \<lparr>sp_path = path, sp_file = disk path\<rparr>"

definition save ::
  "'j json_fs \<Rightarrow> PersistentState \<Rightarrow> 'j StatePersister \<Rightarrow> (persist_error + unit) \<times> 'j StatePersister" where
  "save fs st p =
     (case to_json fs st of
        None \<Rightarrow> (Inl SerializeError, p)
      | Some json \<Rightarrow>
          (case fs_write fs (sp_file p) json of
             (ok, contents) \<Rightarrow> (if ok then Inr () else Inl WriteError, p\<lparr>sp_file := contents\<rparr>)))"

definition load :: "'j json_fs \<Rightarrow> 'j StatePersister \<Rightarrow> persist_error + PersistentState option" where
  "load fs p =
     (case sp_file p of
        None \<Rightarrow> Inr None
      | Some contents \<Rightarrow>
         (case fs_read fs contents of
            None \<Rightarrow> Inl ReadError
          | Some json \<Rightarrow>
             (case from_json fs json of
                None \<Rightarrow> Inl InvalidData
              | Some st \<Rightarrow> Inr (Some st))))"

lemma save_good: "good_fs fs \<Longrightarrow> fst (save fs st p) = Inr ()"
  by (auto simp: good_fs_def save_def split: option.splits)

lemma load_save: "good_fs fs \<Longrightarrow> load fs (snd (save fs st p)) = Inr (Some st)"
  unfolding good_fs_def save_def load_def
  by (elim conjE, drule spec [of _ st]) auto

text \<open>An instance: the file holds the value itself and no call fails.\<close>

definition memory_fs :: "PersistentState json_fs" where
  "memory_fs = \<lparr>to_json = Some, from_json = Some, fs_write = (\<lambda>_ j. (True, Some j)), fs_read = Some\<rparr>"

lemma good_memory_fs [simp]: "good_fs memory_fs"
  by (simp add: good_fs_def memory_fs_def)

lemma save_path [simp]: "sp_path (snd (save fs st p)) = sp_path p"
  by (auto simp: save_def split: option.splits prod.splits)

end
