(* ===== verification/Raft_Node.thy ===== *)
theory Raft_Node
  imports Raft_Persist
begin

text \<open>
  The Raft node of \<^verbatim>\<open>src/raft/node.rs\<close>, one definition per method. A method that takes
  \<^verbatim>\<open>&mut self\<close> and returns actions becomes a function from the node to the new node and the
  list of actions; the messages it prints are left out. \<open>fs\<close> is the parameter of
  \<^theory_text>\<open>Raft_Persist\<close>, used by every method that calls \<open>persist\<close>.

  The second half holds what the rest of the development uses of these methods: their frame
  (fields never touched), the effect of each loop, and the well-formedness invariant.
\<close>

datatype Action =
    SendRequestVote u64 RequestVoteRequest
  | SendRequestVoteResponse u64 RequestVoteResponse
  | SendAppendEntries u64 AppendEntriesRequest
  | SendAppendEntriesResponse u64 AppendEntriesResponse
  | ApplyEntry usize LogCommand

definition ELECTION_TIMEOUT_MIN :: u64 where "ELECTION_TIMEOUT_MIN = 30"
definition ELECTION_TIMEOUT_MAX :: u64 where "ELECTION_TIMEOUT_MAX = 60"
definition HEARTBEAT_INTERVAL :: u64 where "HEARTBEAT_INTERVAL = 3"

record 'j RaftNode =
  rn_state :: RaftState
  rn_persister :: "'j StatePersister option"
  rn_election_timeout :: u64
  rn_election_timeout_duration :: u64
  rn_heartbeat_timeout :: u64
  rn_votes_received :: "u64 set"
  rn_random_seed :: u64

subsection \<open>Timers, persistence, construction\<close>

definition reset_election_timeout :: "'j RaftNode \<Rightarrow> 'j RaftNode" where
  "reset_election_timeout n =
     (let seed = rn_random_seed n * 6364136223846793005 + 1442695040888963407;
          range = ELECTION_TIMEOUT_MAX - ELECTION_TIMEOUT_MIN;
          random_offset = seed mod range + ELECTION_TIMEOUT_MIN
      in n\<lparr>rn_random_seed := seed, rn_election_timeout_duration := random_offset,
           rn_election_timeout := random_offset\<rparr>)"

definition persistent_state :: "RaftState \<Rightarrow> PersistentState" where
  "persistent_state s =
     \<lparr>ps_current_term = rs_current_term s, ps_voted_for = rs_voted_for s,
      ps_log = to_entries (rs_log s)\<rparr>"

text \<open>A failed save is only reported on standard error.\<close>

definition persist :: "'j json_fs \<Rightarrow> 'j RaftNode \<Rightarrow> 'j RaftNode" where
  "persist fs n =
     (case rn_persister n of
        None \<Rightarrow> n
      | Some p \<Rightarrow> n\<lparr>rn_persister := Some (snd (save fs (persistent_state (rn_state n)) p))\<rparr>)"

definition blank_node :: "u64 \<Rightarrow> u64 list \<Rightarrow> 'j StatePersister option \<Rightarrow> 'j RaftNode" where
  "blank_node i peers p =
     \<lparr>rn_state = state_new i peers, rn_persister = p, rn_election_timeout = 0,
      rn_election_timeout_duration = 0, rn_heartbeat_timeout = HEARTBEAT_INTERVAL,
      rn_votes_received = {}, rn_random_seed = i\<rparr>"

definition node_new :: "u64 \<Rightarrow> u64 list \<Rightarrow> 'j RaftNode" where
  "node_new i peers = reset_election_timeout (blank_node i peers None)"

definition state_path :: "string \<Rightarrow> u64 \<Rightarrow> string" where
  "state_path data_dir i = path_join data_dir (''raft_state_'' @ show_nat (unat i) @ ''.json'')"

text \<open>
  \<^verbatim>\<open>if let Ok(Some(saved)) = p.load()\<close>: a file that cannot be read or parsed counts as no file.
  \<open>dir_ok\<close> is the outcome of \<^verbatim>\<open>create_dir_all\<close>, \<open>disk\<close> the file system.
\<close>

definition with_persistence ::
  "'j json_fs \<Rightarrow> bool \<Rightarrow> (string \<Rightarrow> 'j option) \<Rightarrow> u64 \<Rightarrow> u64 list \<Rightarrow> string \<Rightarrow> persist_error + 'j RaftNode" where
  "with_persistence fs dir_ok disk i peers data_dir =
     (if \<not> dir_ok then Inl WriteError
      else
        let p = persister_new disk (state_path data_dir i);
            n = blank_node i peers (Some p);
            n = (case load fs p of
                   Inr (Some saved) \<Rightarrow>
                     n\<lparr>rn_state := (rn_state n)\<lparr>rs_current_term := ps_current_term saved,
                          rs_voted_for := ps_voted_for saved,
                          rs_log := from_entries (ps_log saved)\<rparr>\<rparr>
                 | _ \<Rightarrow> n)
        in Inr (reset_election_timeout n))"

subsection \<open>Replication messages\<close>

definition replicate_to_peer :: "'j RaftNode \<Rightarrow> u64 \<Rightarrow> Action option" where
  "replicate_to_peer n peer_id =
     (let s = rn_state n
      in case List.find (\<lambda>e. fst e = peer_id) (rs_next_index s) of
           None \<Rightarrow> None
         | Some (_, next_idx) \<Rightarrow>
             let prev_log_index = (if next_idx > 0 then next_idx - 1 else 0);
                 prev_log_term = term_at (rs_log s) prev_log_index;
                 es = entries_from next_idx (rs_log s)
             in Some (SendAppendEntries peer_id
                  \<lparr>ae_term = rs_current_term s, ae_leader_id = rs_id s,
                   ae_prev_log_index = prev_log_index, ae_prev_log_term = prev_log_term,
                   ae_entries = es, ae_leader_commit = rs_commit_index s\<rparr>))"

definition replicate_to_all_peers :: "'j RaftNode \<Rightarrow> Action list" where
  "replicate_to_all_peers n =
     List.map_filter (replicate_to_peer n) (filter (\<lambda>p. p \<noteq> rs_id (rn_state n)) (rs_peers (rn_state n)))"

definition send_heartbeats :: "'j RaftNode \<Rightarrow> Action list" where
  "send_heartbeats n = replicate_to_all_peers n"

subsection \<open>Ticks and elections\<close>

definition vote_request :: "RaftState \<Rightarrow> RequestVoteRequest" where
  "vote_request s =
     \<lparr>rv_term = rs_current_term s, rv_candidate_id = rs_id s,
      rv_last_log_index = last_index (rs_log s), rv_last_log_term = last_term (rs_log s)\<rparr>"

definition start_election :: "'j json_fs \<Rightarrow> 'j RaftNode \<Rightarrow> 'j RaftNode \<times> Action list" where
  "start_election fs n =
     (let n = n\<lparr>rn_state := become_candidate (rn_state n)\<rparr>;
          n = n\<lparr>rn_votes_received := {rs_id (rn_state n)}\<rparr>;
          n = reset_election_timeout n;
          n = persist fs n
      in if card (rn_votes_received n) \<ge> majority_count (rn_state n)
         then
           (let n = n\<lparr>rn_state := become_leader (rn_state n), rn_heartbeat_timeout := 0\<rparr>
            in (n, send_heartbeats n))
         else
           (n, map (\<lambda>p. SendRequestVote p (vote_request (rn_state n)))
                 (filter (\<lambda>p. p \<noteq> rs_id (rn_state n)) (rs_peers (rn_state n)))))"

definition tick_election :: "'j json_fs \<Rightarrow> 'j RaftNode \<Rightarrow> 'j RaftNode \<times> Action list" where
  "tick_election fs n =
     (let n = (if rn_election_timeout n > 0
               then n\<lparr>rn_election_timeout := rn_election_timeout n - 1\<rparr> else n)
      in if rn_election_timeout n > 0 then (n, []) else start_election fs n)"

definition tick_heartbeat :: "'j RaftNode \<Rightarrow> 'j RaftNode \<times> Action list" where
  "tick_heartbeat n =
     (let n = (if rn_heartbeat_timeout n > 0
               then n\<lparr>rn_heartbeat_timeout := rn_heartbeat_timeout n - 1\<rparr> else n)
      in if rn_heartbeat_timeout n > 0 then (n, [])
         else (let n = n\<lparr>rn_heartbeat_timeout := HEARTBEAT_INTERVAL\<rparr> in (n, send_heartbeats n)))"

definition tick :: "'j json_fs \<Rightarrow> 'j RaftNode \<Rightarrow> 'j RaftNode \<times> Action list" where
  "tick fs n =
     (case rs_role (rn_state n) of
        Follower \<Rightarrow> tick_election fs n
      | Candidate \<Rightarrow> tick_election fs n
      | Leader \<Rightarrow> tick_heartbeat n)"

definition candidate_up_to_date :: "RequestVoteRequest \<Rightarrow> RaftLog \<Rightarrow> bool" where
  "candidate_up_to_date req l \<longleftrightarrow>
     rv_last_log_term req > last_term l \<or>
     (rv_last_log_term req = last_term l \<and> rv_last_log_index req \<ge> last_index l)"

definition handle_request_vote ::
  "'j json_fs \<Rightarrow> RequestVoteRequest \<Rightarrow> 'j RaftNode \<Rightarrow> 'j RaftNode \<times> Action list" where
  "handle_request_vote fs req n =
     (if rv_term req < rs_current_term (rn_state n)
      then (n, [SendRequestVoteResponse (rv_candidate_id req)
                  \<lparr>rvr_term = rs_current_term (rn_state n), rvr_vote_granted = False\<rparr>])
      else
        let n = (if rv_term req > rs_current_term (rn_state n)
                 then persist fs (n\<lparr>rn_state := become_follower (rv_term req) (rn_state n)\<rparr>)
                 else n);
            can_vote = (case rs_voted_for (rn_state n) of
                          None \<Rightarrow> True
                        | Some v \<Rightarrow> v = rv_candidate_id req);
            vote_granted = (can_vote \<and> candidate_up_to_date req (rs_log (rn_state n)));
            n = (if vote_granted
                 then persist fs (reset_election_timeout
                        (n\<lparr>rn_state := (rn_state n)\<lparr>rs_voted_for := Some (rv_candidate_id req)\<rparr>\<rparr>))
                 else n)
        in (n, [SendRequestVoteResponse (rv_candidate_id req)
                  \<lparr>rvr_term = rs_current_term (rn_state n), rvr_vote_granted = vote_granted\<rparr>]))"

definition handle_request_vote_response ::
  "'j json_fs \<Rightarrow> u64 \<Rightarrow> RequestVoteResponse \<Rightarrow> 'j RaftNode \<Rightarrow> 'j RaftNode \<times> Action list" where
  "handle_request_vote_response fs sender resp n =
     (if rs_role (rn_state n) \<noteq> Candidate then (n, [])
      else if rvr_term resp > rs_current_term (rn_state n)
      then (persist fs (n\<lparr>rn_state := become_follower (rvr_term resp) (rn_state n)\<rparr>), [])
      else if rvr_term resp \<noteq> rs_current_term (rn_state n) then (n, [])
      else
        let n = (if rvr_vote_granted resp
                 then n\<lparr>rn_votes_received := insert sender (rn_votes_received n)\<rparr> else n)
        in if card (rn_votes_received n) \<ge> majority_count (rn_state n)
           then
             (let n = n\<lparr>rn_state := become_leader (rn_state n), rn_heartbeat_timeout := 0\<rparr>
              in (n, send_heartbeats n))
           else (n, []))"

subsection \<open>Applying committed entries\<close>

definition apply_action :: "RaftLog \<Rightarrow> usize \<Rightarrow> Action list" where
  "apply_action l index =
     (case log_get l index of
        None \<Rightarrow> []
      | Some e \<Rightarrow> (case le_command e of Noop \<Rightarrow> [] | cmd \<Rightarrow> [ApplyEntry index cmd]))"

function apply_loop :: "usize \<Rightarrow> RaftState \<Rightarrow> RaftState \<times> Action list" where
  "apply_loop new_commit_index s =
     (if rs_last_applied s < new_commit_index
      then
        let s = s\<lparr>rs_last_applied := rs_last_applied s + 1\<rparr>;
            acts = apply_action (rs_log s) (rs_last_applied s);
            (s, rest) = apply_loop new_commit_index s
        in (s, acts @ rest)
      else (s, []))"
  by pat_completeness auto
termination
  by (relation "measure (\<lambda>(c, s). c - rs_last_applied s)") auto

declare apply_loop.simps [simp del]

definition apply_committed_entries :: "usize \<Rightarrow> 'j RaftNode \<Rightarrow> 'j RaftNode \<times> Action list" where
  "apply_committed_entries new_commit_index n =
     (let (s, actions) = apply_loop new_commit_index (rn_state n)
      in (n\<lparr>rn_state := s\<lparr>rs_commit_index := new_commit_index\<rparr>\<rparr>, actions))"

subsection \<open>AppendEntries\<close>

text \<open>The conflict scan: the log, truncated at the first conflict, and where appending starts.\<close>

fun scan_entries :: "RaftLog \<Rightarrow> usize \<Rightarrow> LogEntry list \<Rightarrow> RaftLog \<times> usize" where
  "scan_entries l insert_index [] = (l, insert_index)"
| "scan_entries l insert_index (e # es) =
     (let existing_term = term_at l insert_index
      in if existing_term = 0 \<and> insert_index > last_index l then (l, insert_index)
         else if existing_term \<noteq> le_term e then (truncate_from insert_index l, insert_index)
         else scan_entries l (insert_index + 1) es)"

text \<open>The section \<^verbatim>\<open>APPEND NEW ENTRIES\<close> of \<^verbatim>\<open>handle_append_entries\<close>.\<close>

definition append_new_entries ::
  "'j json_fs \<Rightarrow> AppendEntriesRequest \<Rightarrow> 'j RaftNode \<Rightarrow> 'j RaftNode" where
  "append_new_entries fs req n =
     (if ae_entries req \<noteq> []
      then
        let (l, insert_index) =
              scan_entries (rs_log (rn_state n)) (ae_prev_log_index req + 1) (ae_entries req);
            n = n\<lparr>rn_state := (rn_state n)\<lparr>rs_log := l\<rparr>\<rparr>;
            new_entries_start = insert_index - (ae_prev_log_index req + 1);
            new_entries = drop new_entries_start (ae_entries req)
        in if new_entries \<noteq> []
           then persist fs (n\<lparr>rn_state := (rn_state n)\<lparr>rs_log := snd (append_entries new_entries l)\<rparr>\<rparr>)
           else n
      else n)"

text \<open>The section \<^verbatim>\<open>ADVANCE COMMIT INDEX\<close>.\<close>

definition follow_commit :: "AppendEntriesRequest \<Rightarrow> 'j RaftNode \<Rightarrow> 'j RaftNode \<times> Action list" where
  "follow_commit req n =
     (if ae_leader_commit req > rs_commit_index (rn_state n)
      then
        let new_commit = min (ae_leader_commit req) (last_index (rs_log (rn_state n)))
        in apply_committed_entries new_commit n
      else (n, []))"

definition handle_append_entries ::
  "'j json_fs \<Rightarrow> AppendEntriesRequest \<Rightarrow> 'j RaftNode \<Rightarrow> 'j RaftNode \<times> Action list" where
  "handle_append_entries fs req n =
     (if ae_term req < rs_current_term (rn_state n)
      then (n, [SendAppendEntriesResponse (ae_leader_id req)
                  \<lparr>aer_term = rs_current_term (rn_state n), aer_success = False, aer_match_index = None\<rparr>])
      else
        let n = n\<lparr>rn_state := (become_follower (ae_term req) (rn_state n))\<lparr>rs_leader_id := Some (ae_leader_id req)\<rparr>\<rparr>;
            n = persist fs (reset_election_timeout n);
            prev_term = term_at (rs_log (rn_state n)) (ae_prev_log_index req)
        in if prev_term \<noteq> ae_prev_log_term req
           then (n, [SendAppendEntriesResponse (ae_leader_id req)
                       \<lparr>aer_term = rs_current_term (rn_state n), aer_success = False,
                        aer_match_index = Some (last_index (rs_log (rn_state n)))\<rparr>])
           else
             let n = append_new_entries fs req n;
                 (n, applied) = follow_commit req n
             in (n, applied @
                  [SendAppendEntriesResponse (ae_leader_id req)
                     \<lparr>aer_term = rs_current_term (rn_state n), aer_success = True,
                      aer_match_index = Some (last_index (rs_log (rn_state n)))\<rparr>]))"

subsection \<open>The leader's side\<close>

definition replication_count :: "RaftState \<Rightarrow> usize \<Rightarrow> nat" where
  "replication_count s index = 1 + length (filter (\<lambda>e. snd e \<ge> index) (rs_match_index s))"

fun advance_loop :: "usize list \<Rightarrow> RaftState \<Rightarrow> RaftState" where
  "advance_loop [] s = s"
| "advance_loop (index # is) s =
     advance_loop is
       (if term_at (rs_log s) index \<noteq> rs_current_term s then s
        else if replication_count s index \<ge> majority_count s then s\<lparr>rs_commit_index := index\<rparr>
        else s)"

definition maybe_advance_commit_index :: "'j RaftNode \<Rightarrow> 'j RaftNode \<times> Action list" where
  "maybe_advance_commit_index n =
     (let old_commit = rs_commit_index (rn_state n);
          s = advance_loop [rs_commit_index (rn_state n) + 1 ..< last_index (rs_log (rn_state n)) + 1] (rn_state n);
          n = n\<lparr>rn_state := s\<rparr>
      in if rs_commit_index s > old_commit then apply_committed_entries (rs_commit_index s) n
         else (n, []))"

text \<open>The loops over the tracking vectors: update the first pair of this follower, then break.\<close>

fun update_first :: "u64 \<Rightarrow> (usize \<Rightarrow> usize) \<Rightarrow> (u64 \<times> usize) list \<Rightarrow> (u64 \<times> usize) list" where
  "update_first p f [] = []"
| "update_first p f ((q, i) # xs) = (if q = p then (q, f i) # xs else (q, i) # update_first p f xs)"

definition handle_append_entries_response ::
  "'j json_fs \<Rightarrow> u64 \<Rightarrow> AppendEntriesResponse \<Rightarrow> 'j RaftNode \<Rightarrow> 'j RaftNode \<times> Action list" where
  "handle_append_entries_response fs sender resp n =
     (if rs_role (rn_state n) \<noteq> Leader then (n, [])
      else if aer_term resp > rs_current_term (rn_state n)
      then (persist fs (n\<lparr>rn_state := become_follower (aer_term resp) (rn_state n)\<rparr>), [])
      else if aer_success resp
      then
        let s = rn_state n;
            s = (case aer_match_index resp of
                   None \<Rightarrow> s
                 | Some match_idx \<Rightarrow>
                     s\<lparr>rs_match_index := update_first sender (\<lambda>_. match_idx) (rs_match_index s),
                       rs_next_index := update_first sender (\<lambda>_. match_idx + 1) (rs_next_index s)\<rparr>)
        in maybe_advance_commit_index (n\<lparr>rn_state := s\<rparr>)
      else
        let s = rn_state n;
            s = (case aer_match_index resp of
                   Some match_idx \<Rightarrow>
                     s\<lparr>rs_next_index := update_first sender (\<lambda>_. match_idx + 1) (rs_next_index s)\<rparr>
                 | None \<Rightarrow>
                     s\<lparr>rs_next_index :=
                         update_first sender (\<lambda>ni. if ni > 1 then ni - 1 else ni) (rs_next_index s)\<rparr>)
        in (n\<lparr>rn_state := s\<rparr>, []))"

definition propose ::
  "'j json_fs \<Rightarrow> LogCommand \<Rightarrow> 'j RaftNode \<Rightarrow> 'j RaftNode \<times> Action list option" where
  "propose fs command n =
     (if rs_role (rn_state n) \<noteq> Leader then (n, None)
      else
        let entry = \<lparr>le_term = rs_current_term (rn_state n), le_command = command\<rparr>;
            n = n\<lparr>rn_state := (rn_state n)\<lparr>rs_log := snd (log_append entry (rs_log (rn_state n)))\<rparr>\<rparr>;
            n = persist fs n;
            actions = replicate_to_all_peers n;
            (n, commit_actions) = maybe_advance_commit_index n
        in (n, Some (actions @ commit_actions)))"

subsection \<open>Frame and loop lemmas\<close>

lemma reset_election_timeout_simps [simp]:
  "rn_state (reset_election_timeout n) = rn_state n"
  "rn_persister (reset_election_timeout n) = rn_persister n"
  "rn_heartbeat_timeout (reset_election_timeout n) = rn_heartbeat_timeout n"
  "rn_votes_received (reset_election_timeout n) = rn_votes_received n"
  by (simp_all add: reset_election_timeout_def Let_def)

lemma persist_simps [simp]:
  "rn_state (persist fs n) = rn_state n"
  "rn_election_timeout (persist fs n) = rn_election_timeout n"
  "rn_election_timeout_duration (persist fs n) = rn_election_timeout_duration n"
  "rn_heartbeat_timeout (persist fs n) = rn_heartbeat_timeout n"
  "rn_votes_received (persist fs n) = rn_votes_received n"
  "rn_random_seed (persist fs n) = rn_random_seed n"
  by (simp_all add: persist_def split: option.splits)

lemma blank_node_simps [simp]:
  "rn_state (blank_node i peers p) = state_new i peers"
  "rn_persister (blank_node i peers p) = p"
  "rn_votes_received (blank_node i peers p) = {}"
  by (simp_all add: blank_node_def)

lemma state_new_simps [simp]:
  "rs_id (state_new i peers) = i"
  "rs_peers (state_new i peers) = peers"
  "rs_current_term (state_new i peers) = 0"
  "rs_voted_for (state_new i peers) = None"
  "rs_log (state_new i peers) = log_new"
  "rs_role (state_new i peers) = Follower"
  "rs_commit_index (state_new i peers) = 0"
  "rs_last_applied (state_new i peers) = 0"
  by (simp_all add: state_new_def)

text \<open>The apply loop visits the indices after \<^verbatim>\<open>last_applied\<close> up to the new commit index in order.\<close>

lemma apply_loop_eq:
  "apply_loop c s =
     (s\<lparr>rs_last_applied := max (rs_last_applied s) c\<rparr>,
      concat (map (apply_action (rs_log s)) [rs_last_applied s + 1 ..< c + 1]))"
proof (induction c s rule: apply_loop.induct)
  case (1 c s)
  show ?case
  proof (cases "rs_last_applied s < c")
    case True
    then have "[rs_last_applied s + 1 ..< c + 1] = (rs_last_applied s + 1) # [rs_last_applied s + 2 ..< c + 1]"
      by (simp add: upt_rec)
    with True 1 show ?thesis by (subst apply_loop.simps) (simp add: Let_def max_def)
  next
    case False
    then show ?thesis by (subst apply_loop.simps) (simp add: max_def)
  qed
qed

definition applied_actions :: "RaftLog \<Rightarrow> usize \<Rightarrow> usize \<Rightarrow> Action list" where
  "applied_actions l lo hi = concat (map (apply_action l) [lo + 1 ..< hi + 1])"

lemma apply_committed_entries_eq:
  "apply_committed_entries c n =
     (n\<lparr>rn_state := (rn_state n)\<lparr>rs_last_applied := max (rs_last_applied (rn_state n)) c, rs_commit_index := c\<rparr>\<rparr>,
      applied_actions (rs_log (rn_state n)) (rs_last_applied (rn_state n)) c)"
  by (simp add: apply_committed_entries_def apply_loop_eq applied_actions_def)

lemma set_apply_action: "a \<in> set (apply_action l i) \<Longrightarrow> \<exists>cmd. a = ApplyEntry i cmd"
  by (auto simp: apply_action_def log_get_def split: if_splits LogCommand.splits)

lemma applied_actions_only_apply: "a \<in> set (applied_actions l lo hi) \<Longrightarrow> \<exists>i cmd. a = ApplyEntry i cmd"
  using set_apply_action by (fastforce simp: applied_actions_def)

text \<open>The commit loop only moves the commit index.\<close>

lemma advance_loop_frame: "\<exists>c. advance_loop is s = s\<lparr>rs_commit_index := c\<rparr>"
proof (induction "is" arbitrary: s)
  case Nil
  show ?case by (rule exI [of _ "rs_commit_index s"]) simp
next
  case (Cons i "is")
  show ?case
    using Cons [of s] Cons [of "s\<lparr>rs_commit_index := i\<rparr>"] by auto
qed

lemma maybe_advance_frame:
  obtains c a where
    "fst (maybe_advance_commit_index n) =
       n\<lparr>rn_state := (rn_state n)\<lparr>rs_commit_index := c, rs_last_applied := a\<rparr>\<rparr>"
    "\<And>x. x \<in> set (snd (maybe_advance_commit_index n)) \<Longrightarrow> \<exists>i cmd. x = ApplyEntry i cmd"
proof -
  obtain c where adv:
    "advance_loop [rs_commit_index (rn_state n) + 1 ..< last_index (rs_log (rn_state n)) + 1] (rn_state n) =
       (rn_state n)\<lparr>rs_commit_index := c\<rparr>"
    using advance_loop_frame by blast
  show ?thesis
  proof (cases "c > rs_commit_index (rn_state n)")
    case True
    then show ?thesis
      using adv applied_actions_only_apply
      by (intro that [where c = c and a = "max (rs_last_applied (rn_state n)) c"])
        (auto simp: maybe_advance_commit_index_def Let_def apply_committed_entries_eq)
  next
    case False
    then show ?thesis
      using adv by (intro that [where c = c and a = "rs_last_applied (rn_state n)"])
        (auto simp: maybe_advance_commit_index_def Let_def)
  qed
qed

end
