(* ===== verification/Raft_Contract.thy ===== *)
theory Raft_Contract
  imports Raft_Node
begin

text \<open>
  What every entry point of a Raft node promises to the rest of the system, stated once as the
  locale \<open>raft_handler\<close> and discharged for each of them: identity and peers never change, the
  term never decreases, a vote is never changed within its term, the log keeps its sentinel,
  a granted vote that is sent has been recorded, and what is on the disk when the handler
  returns is what a restart needs. Inside the locale, the consequence for a crash right after
  the handler is derived. \<open>safe\<close> is a condition of the handler for the statements about terms:
  a tick that starts an election must find room for the next term, since the \<^verbatim>\<open>u64\<close> wraps around.
\<close>

subsection \<open>What a restart restores\<close>

definition restored :: "'j json_fs \<Rightarrow> 'j StatePersister \<Rightarrow> u64 \<times> u64 option \<times> RaftLog" where
  "restored fs p =
     (case load fs p of
        Inr (Some st) \<Rightarrow> (ps_current_term st, ps_voted_for st, from_entries (ps_log st))
      | _ \<Rightarrow> (0, None, log_new))"

definition recoverable :: "'j json_fs \<Rightarrow> 'j RaftNode \<Rightarrow> bool" where
  "recoverable fs n \<longleftrightarrow>
     (\<exists>p. rn_persister n = Some p \<and>
        restored fs p = (rs_current_term (rn_state n), rs_voted_for (rn_state n), rs_log (rn_state n)))"

text \<open>
  A crash and a restart of the process: \<open>with_persistence\<close> on the file the node left behind.
  A node without a persister starts afresh.
\<close>

definition restart :: "'j json_fs \<Rightarrow> string \<Rightarrow> 'j RaftNode \<Rightarrow> 'j RaftNode" where
  "restart fs data_dir n =
     (case rn_persister n of
        None \<Rightarrow> node_new (rs_id (rn_state n)) (rs_peers (rn_state n))
      | Some p \<Rightarrow>
         (case with_persistence fs True (\<lambda>_. sp_file p) (rs_id (rn_state n)) (rs_peers (rn_state n)) data_dir of
            Inl _ \<Rightarrow> n
          | Inr n' \<Rightarrow> n'))"

lemma load_persister_new: "load fs (persister_new (\<lambda>_. sp_file p) path) = load fs p"
  by (simp add: persister_new_def load_def)

lemma with_persistence_eq:
  assumes "with_persistence fs True disk i peers dir = Inr n"
  shows "rs_id (rn_state n) = i" "rs_peers (rn_state n) = peers"
    "(rs_current_term (rn_state n), rs_voted_for (rn_state n), rs_log (rn_state n)) =
       restored fs (persister_new disk (state_path dir i))"
    "rs_role (rn_state n) = Follower" "rn_votes_received n = {}"
    "rs_commit_index (rn_state n) = 0" "rs_last_applied (rn_state n) = 0"
    "rn_persister n = Some (persister_new disk (state_path dir i))"
  using assms
  by (auto simp: with_persistence_def Let_def restored_def split: sum.splits option.splits)

lemma restart_simps:
  assumes "rn_persister n = Some p"
  shows "rs_id (rn_state (restart fs dir n)) = rs_id (rn_state n)"
    "rs_peers (rn_state (restart fs dir n)) = rs_peers (rn_state n)"
    "(rs_current_term (rn_state (restart fs dir n)), rs_voted_for (rn_state (restart fs dir n)),
      rs_log (rn_state (restart fs dir n))) = restored fs p"
    "rs_role (rn_state (restart fs dir n)) = Follower"
    "rn_votes_received (restart fs dir n) = {}"
    "rs_commit_index (rn_state (restart fs dir n)) = 0"
    "rs_last_applied (rn_state (restart fs dir n)) = 0"
    "\<exists>q. rn_persister (restart fs dir n) = Some q \<and> sp_file q = sp_file p"
proof -
  obtain n' where n': "with_persistence fs True (\<lambda>_. sp_file p) (rs_id (rn_state n)) (rs_peers (rn_state n)) dir = Inr n'"
    by (simp add: with_persistence_def Let_def)
  then have "restart fs dir n = n'" using assms by (simp add: restart_def)
  then show "rs_id (rn_state (restart fs dir n)) = rs_id (rn_state n)"
    "rs_peers (rn_state (restart fs dir n)) = rs_peers (rn_state n)"
    "(rs_current_term (rn_state (restart fs dir n)), rs_voted_for (rn_state (restart fs dir n)),
      rs_log (rn_state (restart fs dir n))) = restored fs p"
    "rs_role (rn_state (restart fs dir n)) = Follower"
    "rn_votes_received (restart fs dir n) = {}"
    "rs_commit_index (rn_state (restart fs dir n)) = 0"
    "rs_last_applied (rn_state (restart fs dir n)) = 0"
    "\<exists>q. rn_persister (restart fs dir n) = Some q \<and> sp_file q = sp_file p"
    using with_persistence_eq [OF n'] load_persister_new [of fs p]
    by (simp_all add: restored_def persister_new_def)
qed

lemma restart_recoverable:
  assumes "recoverable fs n"
  shows "rs_current_term (rn_state (restart fs dir n)) = rs_current_term (rn_state n)"
    "rs_voted_for (rn_state (restart fs dir n)) = rs_voted_for (rn_state n)"
    "rs_log (rn_state (restart fs dir n)) = rs_log (rn_state n)"
    "recoverable fs (restart fs dir n)"
proof -
  obtain p where p: "rn_persister n = Some p"
    and r: "restored fs p = (rs_current_term (rn_state n), rs_voted_for (rn_state n), rs_log (rn_state n))"
    using assms by (auto simp: recoverable_def)
  show same: "rs_current_term (rn_state (restart fs dir n)) = rs_current_term (rn_state n)"
    "rs_voted_for (rn_state (restart fs dir n)) = rs_voted_for (rn_state n)"
    "rs_log (rn_state (restart fs dir n)) = rs_log (rn_state n)"
    using restart_simps(3) [OF p, of fs dir] r by simp_all
  obtain q where "rn_persister (restart fs dir n) = Some q" and "sp_file q = sp_file p"
    using restart_simps(8) [OF p] by blast
  moreover from this have "restored fs q = restored fs p" by (simp add: restored_def load_def)
  ultimately show "recoverable fs (restart fs dir n)" using r same by (simp add: recoverable_def)
qed

lemma recoverable_persist:
  assumes "good_fs fs" and "rn_persister n \<noteq> None" and "log_ok (rs_log (rn_state n))"
  shows "recoverable fs (persist fs n)"
  using assms load_save [OF assms(1)]
  by (auto simp: recoverable_def persist_def restored_def persistent_state_def from_to_entries)

lemma recoverable_frame:
  assumes "recoverable fs n" and "rn_persister n' = rn_persister n"
    and "rs_current_term (rn_state n') = rs_current_term (rn_state n)"
    and "rs_voted_for (rn_state n') = rs_voted_for (rn_state n)"
    and "rs_log (rn_state n') = rs_log (rn_state n)"
  shows "recoverable fs n'"
  using assms by (simp add: recoverable_def)

lemma recoverable_persister: "recoverable fs n \<Longrightarrow> rn_persister n \<noteq> None"
  by (auto simp: recoverable_def)

lemma persist_persister [simp]: "rn_persister (persist fs n) = None \<longleftrightarrow> rn_persister n = None"
  by (auto simp: persist_def split: option.splits)

subsection \<open>The log after an accepted AppendEntries\<close>

definition merged_log :: "RaftLog \<Rightarrow> usize \<Rightarrow> LogEntry list \<Rightarrow> RaftLog" where
  "merged_log l prev es =
     (let (l', i) = scan_entries l (prev + 1) es in l' @ drop (i - (prev + 1)) es)"

lemma scan_entries_spec:
  assumes "scan_entries l i es = (l', j)"
  shows "i \<le> j \<and> j \<le> i + length es \<and>
    (\<forall>k < j - i. term_at l (i + k) = le_term (es ! k) \<and> \<not> (term_at l (i + k) = 0 \<and> i + k > last_index l)) \<and>
    (if j = i + length es then l' = l
     else l' = take j l \<and> (j > last_index l \<or> term_at l j \<noteq> le_term (es ! (j - i))))"
  using assms
proof (induction es arbitrary: i)
  case (Cons e es)
  show ?case
  proof (cases "term_at l i = 0 \<and> i > last_index l")
    case True
    then have "length l \<le> i" unfolding last_index_def by linarith
    then show ?thesis using True Cons.prems by auto
  next
    case not_past: False
    show ?thesis
    proof (cases "term_at l i \<noteq> le_term e")
      case True
      then show ?thesis using not_past Cons.prems by (auto simp: Let_def)
    next
      case False
      then have "scan_entries l (i + 1) es = (l', j)" using not_past Cons.prems by (auto simp: Let_def)
      from Cons.IH [OF this] have IH: "i + 1 \<le> j" "j \<le> i + 1 + length es"
        "\<And>k. k < j - (i + 1) \<Longrightarrow> term_at l (i + 1 + k) = le_term (es ! k) \<and> \<not> (term_at l (i + 1 + k) = 0 \<and> i + 1 + k > last_index l)"
        "if j = i + 1 + length es then l' = l else l' = take j l \<and> (j > last_index l \<or> term_at l j \<noteq> le_term (es ! (j - (i + 1))))"
        by blast+
      have "term_at l (i + k) = le_term ((e # es) ! k) \<and> \<not> (term_at l (i + k) = 0 \<and> i + k > last_index l)"
        if "k < j - i" for k
        using that IH(3) [of "k - 1"] False not_past by (cases k) auto
      then show ?thesis using IH(1,2,4) by (auto simp: nth_Cons' split: if_splits)
    qed
  qed
qed simp

text \<open>
  The merged log is the old one if every entry was already there, and otherwise the old log up
  to the first difference followed by the rest of the message.
\<close>

lemma merged_log_cases:
  obtains (unchanged) "merged_log l prev es = l"
      "\<And>k. k < length es \<Longrightarrow> term_at l (prev + 1 + k) = le_term (es ! k) \<and>
         \<not> (term_at l (prev + 1 + k) = 0 \<and> prev + 1 + k > last_index l)"
    | (replaced) m where "m < length es" "merged_log l prev es = take (prev + 1 + m) l @ drop m es"
      "\<And>k. k < m \<Longrightarrow> term_at l (prev + 1 + k) = le_term (es ! k) \<and>
         \<not> (term_at l (prev + 1 + k) = 0 \<and> prev + 1 + k > last_index l)"
      "prev + 1 + m > last_index l \<or> term_at l (prev + 1 + m) \<noteq> le_term (es ! m)"
proof -
  obtain l' j where sc: "scan_entries l (prev + 1) es = (l', j)" by fastforce
  note spec = scan_entries_spec [OF sc]
  show ?thesis
  proof (cases "j = prev + 1 + length es")
    case True
    then show ?thesis using spec sc unchanged by (simp add: merged_log_def)
  next
    case False
    then have "j - (prev + 1) < length es" using spec by auto
    with False show ?thesis using spec sc replaced [of "j - (prev + 1)"] by (simp add: merged_log_def)
  qed
qed

lemma log_ok_merged [wf_intro]: "log_ok l \<Longrightarrow> log_ok (merged_log l prev es)"
  by (rule merged_log_cases [where l = l and prev = prev and es = es])
    (auto intro: log_ok_append log_ok_take)

lemma merged_log_Nil [simp]: "merged_log l prev [] = l"
  by (simp add: merged_log_def)

subsection \<open>What the handlers do to the fields the contract is about\<close>

abbreviation current_term :: "'j RaftNode \<Rightarrow> u64" where "current_term n \<equiv> rs_current_term (rn_state n)"
abbreviation voted_for :: "'j RaftNode \<Rightarrow> u64 option" where "voted_for n \<equiv> rs_voted_for (rn_state n)"
abbreviation node_log :: "'j RaftNode \<Rightarrow> RaftLog" where "node_log n \<equiv> rs_log (rn_state n)"
abbreviation role :: "'j RaftNode \<Rightarrow> NodeRole" where "role n \<equiv> rs_role (rn_state n)"
abbreviation node_id :: "'j RaftNode \<Rightarrow> u64" where "node_id n \<equiv> rs_id (rn_state n)"
abbreviation peers :: "'j RaftNode \<Rightarrow> u64 list" where "peers n \<equiv> rs_peers (rn_state n)"
abbreviation commit_index :: "'j RaftNode \<Rightarrow> usize" where "commit_index n \<equiv> rs_commit_index (rn_state n)"
abbreviation last_applied :: "'j RaftNode \<Rightarrow> usize" where "last_applied n \<equiv> rs_last_applied (rn_state n)"

lemma append_new_entries_simps [simp]:
  "node_log (append_new_entries fs req n) = merged_log (node_log n) (ae_prev_log_index req) (ae_entries req)"
  "node_id (append_new_entries fs req n) = node_id n"
  "peers (append_new_entries fs req n) = peers n"
  "current_term (append_new_entries fs req n) = current_term n"
  "voted_for (append_new_entries fs req n) = voted_for n"
  "role (append_new_entries fs req n) = role n"
  "commit_index (append_new_entries fs req n) = commit_index n"
  "last_applied (append_new_entries fs req n) = last_applied n"
  "rn_votes_received (append_new_entries fs req n) = rn_votes_received n"
  by (auto simp: append_new_entries_def merged_log_def append_entries_def Let_def split: prod.splits)

lemma append_new_entries_recoverable:
  assumes "good_fs fs" "recoverable fs n" "log_ok (node_log n)"
  shows "recoverable fs (append_new_entries fs req n)"
proof -
  obtain l' j where sc: "scan_entries (node_log n) (ae_prev_log_index req + 1) (ae_entries req) = (l', j)"
    by fastforce
  consider "ae_entries req = []"
    | "ae_entries req \<noteq> []" "drop (j - (ae_prev_log_index req + 1)) (ae_entries req) = []"
    | "drop (j - (ae_prev_log_index req + 1)) (ae_entries req) \<noteq> []"
    by fastforce
  then show ?thesis
  proof cases
    case 1
    then show ?thesis using assms by (simp add: append_new_entries_def)
  next
    case 2
    then have "l' = node_log n" using scan_entries_spec [OF sc] by (auto split: if_splits)
    with 2 sc show ?thesis
      using assms(2) by (auto simp: append_new_entries_def elim!: recoverable_frame)
  next
    case 3
    then have "ae_entries req \<noteq> []" by auto
    with 3 sc have "append_new_entries fs req n = persist fs (n\<lparr>rn_state := (rn_state n)
        \<lparr>rs_log := merged_log (node_log n) (ae_prev_log_index req) (ae_entries req)\<rparr>\<rparr>)"
      by (simp add: append_new_entries_def merged_log_def append_entries_def Let_def)
    then show ?thesis
      using assms recoverable_persister [OF assms(2)]
      by (auto intro!: recoverable_persist log_ok_merged)
  qed
qed

lemma follow_commit_simps [simp]:
  "node_log (fst (follow_commit req n)) = node_log n"
  "node_id (fst (follow_commit req n)) = node_id n"
  "peers (fst (follow_commit req n)) = peers n"
  "current_term (fst (follow_commit req n)) = current_term n"
  "voted_for (fst (follow_commit req n)) = voted_for n"
  "role (fst (follow_commit req n)) = role n"
  "rn_votes_received (fst (follow_commit req n)) = rn_votes_received n"
  "rn_persister (fst (follow_commit req n)) = rn_persister n"
  by (simp_all add: follow_commit_def apply_committed_entries_eq Let_def)

lemma follow_commit_actions: "x \<in> set (snd (follow_commit req n)) \<Longrightarrow> \<exists>i cmd. x = ApplyEntry i cmd"
  using applied_actions_only_apply
  by (auto simp: follow_commit_def apply_committed_entries_eq Let_def split: if_splits)

text \<open>The node before the consistency check of \<^verbatim>\<open>handle_append_entries\<close>.\<close>

definition accept_leader :: "'j json_fs \<Rightarrow> AppendEntriesRequest \<Rightarrow> 'j RaftNode \<Rightarrow> 'j RaftNode" where
  "accept_leader fs req n =
     persist fs (reset_election_timeout (n\<lparr>rn_state :=
       (become_follower (ae_term req) (rn_state n))\<lparr>rs_leader_id := Some (ae_leader_id req)\<rparr>\<rparr>))"

lemma accept_leader_simps [simp]:
  "node_log (accept_leader fs req n) = node_log n"
  "node_id (accept_leader fs req n) = node_id n"
  "peers (accept_leader fs req n) = peers n"
  "current_term (accept_leader fs req n) = max (current_term n) (ae_term req)"
  "voted_for (accept_leader fs req n) = (if ae_term req > current_term n then None else voted_for n)"
  "role (accept_leader fs req n) = Follower"
  "commit_index (accept_leader fs req n) = commit_index n"
  "last_applied (accept_leader fs req n) = last_applied n"
  "rn_votes_received (accept_leader fs req n) = rn_votes_received n"
  by (simp_all add: accept_leader_def)

lemma handle_append_entries_eq:
  "handle_append_entries fs req n =
     (if ae_term req < current_term n
      then (n, [SendAppendEntriesResponse (ae_leader_id req)
             \<lparr>aer_term = current_term n, aer_success = False, aer_match_index = None\<rparr>])
      else if term_at (node_log n) (ae_prev_log_index req) \<noteq> ae_prev_log_term req
      then (accept_leader fs req n, [SendAppendEntriesResponse (ae_leader_id req)
             \<lparr>aer_term = ae_term req, aer_success = False, aer_match_index = Some (last_index (node_log n))\<rparr>])
      else (fst (follow_commit req (append_new_entries fs req (accept_leader fs req n))),
            snd (follow_commit req (append_new_entries fs req (accept_leader fs req n))) @
            [SendAppendEntriesResponse (ae_leader_id req)
              \<lparr>aer_term = ae_term req, aer_success = True,
               aer_match_index = Some (last_index (merged_log (node_log n) (ae_prev_log_index req) (ae_entries req)))\<rparr>]))"
proof (cases "ae_term req < current_term n")
  case False
  then have m: "max (current_term n) (ae_term req) = ae_term req" by simp
  let ?a = "append_new_entries fs req (accept_leader fs req n)"
  show ?thesis
  proof (cases "term_at (node_log n) (ae_prev_log_index req) = ae_prev_log_term req")
    case True
    have "handle_append_entries fs req n =
      (case follow_commit req ?a of (n, applied) \<Rightarrow> (n, applied @ [SendAppendEntriesResponse (ae_leader_id req)
         \<lparr>aer_term = current_term n, aer_success = True, aer_match_index = Some (last_index (node_log n))\<rparr>]))"
      using False True by (simp add: handle_append_entries_def Let_def accept_leader_def)
    also have "\<dots> = (fst (follow_commit req ?a), snd (follow_commit req ?a) @ [SendAppendEntriesResponse (ae_leader_id req)
         \<lparr>aer_term = current_term (fst (follow_commit req ?a)), aer_success = True,
          aer_match_index = Some (last_index (node_log (fst (follow_commit req ?a))))\<rparr>])"
      by (simp only: case_prod_unfold)
    finally show ?thesis using False True m by (simp del: follow_commit_simps add: follow_commit_simps(1,4))
  next
    case neq: False
    then show ?thesis using False m
      by (simp add: handle_append_entries_def Let_def accept_leader_def)
  qed
qed (simp add: handle_append_entries_def)

lemma start_election_simps [simp]:
  "node_id (fst (start_election fs n)) = node_id n"
  "peers (fst (start_election fs n)) = peers n"
  "current_term (fst (start_election fs n)) = current_term n + 1"
  "voted_for (fst (start_election fs n)) = Some (node_id n)"
  "node_log (fst (start_election fs n)) = node_log n"
  "commit_index (fst (start_election fs n)) = commit_index n"
  "last_applied (fst (start_election fs n)) = last_applied n"
  "rn_votes_received (fst (start_election fs n)) = {node_id n}"
  "role (fst (start_election fs n)) = (if majority_count (rn_state n) \<le> 1 then Leader else Candidate)"
  by (simp_all add: start_election_def Let_def)

lemma start_election_recoverable:
  assumes "good_fs fs" "rn_persister n \<noteq> None" "log_ok (node_log n)"
  shows "recoverable fs (fst (start_election fs n))"
proof -
  let ?m = "persist fs (reset_election_timeout
    (n\<lparr>rn_state := become_candidate (rn_state n), rn_votes_received := {node_id n}\<rparr>))"
  have "recoverable fs ?m" using assms by (intro recoverable_persist) simp_all
  then show ?thesis by (auto simp: start_election_def Let_def elim: recoverable_frame)
qed

definition tick_timer :: "'j RaftNode \<Rightarrow> 'j RaftNode" where
  "tick_timer n =
     (if rn_election_timeout n > 0 then n\<lparr>rn_election_timeout := rn_election_timeout n - 1\<rparr> else n)"

lemma tick_timer_simps [simp]:
  "rn_state (tick_timer n) = rn_state n" "rn_persister (tick_timer n) = rn_persister n"
  "rn_votes_received (tick_timer n) = rn_votes_received n"
  by (simp_all add: tick_timer_def)

lemma tick_election_eq:
  "tick_election fs n =
     (if rn_election_timeout (tick_timer n) > 0 then (tick_timer n, []) else start_election fs (tick_timer n))"
  by (simp add: tick_election_def tick_timer_def Let_def)

lemma tick_heartbeat_simps [simp]:
  "rn_state (fst (tick_heartbeat n)) = rn_state n"
  "rn_persister (fst (tick_heartbeat n)) = rn_persister n"
  "rn_votes_received (fst (tick_heartbeat n)) = rn_votes_received n"
  by (simp_all add: tick_heartbeat_def Let_def)

lemma tick_cases:
  obtains (idle) "role n \<noteq> Leader" "rn_election_timeout (tick_timer n) > 0" "tick fs n = (tick_timer n, [])"
    | (election) "role n \<noteq> Leader" "rn_election_timeout (tick_timer n) = 0"
        "tick fs n = start_election fs (tick_timer n)"
    | (leader) "role n = Leader" "tick fs n = tick_heartbeat n"
  by (cases "role n"; cases "rn_election_timeout (tick_timer n) = 0")
    (auto simp: tick_def tick_election_eq word_gt_0)

text \<open>Messages of replication are all AppendEntries in the sender's term.\<close>

lemma replicate_to_peer_SomeD:
  assumes "replicate_to_peer n p = Some a"
  shows "\<exists>next. (p, next) \<in> set (rs_next_index (rn_state n)) \<and>
    a = SendAppendEntries p
      \<lparr>ae_term = current_term n, ae_leader_id = node_id n, ae_prev_log_index = next - 1,
       ae_prev_log_term = term_at (node_log n) (next - 1), ae_entries = drop next (node_log n),
       ae_leader_commit = commit_index n\<rparr>"
proof -
  obtain e where f: "List.find (\<lambda>e. fst e = p) (rs_next_index (rn_state n)) = Some e"
    using assms by (auto simp: replicate_to_peer_def Let_def split: option.splits)
  then have "(p, snd e) \<in> set (rs_next_index (rn_state n))"
    by (auto simp: find_Some_iff in_set_conv_nth)
  then show ?thesis
    using assms f by (intro exI [of _ "snd e"]) (auto simp: replicate_to_peer_def Let_def case_prod_unfold)
qed

lemma replicate_to_all_peersD:
  assumes "a \<in> set (replicate_to_all_peers n)"
  shows "\<exists>p next. p \<in> set (peers n) \<and> p \<noteq> node_id n \<and> (p, next) \<in> set (rs_next_index (rn_state n)) \<and>
    a = SendAppendEntries p
      \<lparr>ae_term = current_term n, ae_leader_id = node_id n, ae_prev_log_index = next - 1,
       ae_prev_log_term = term_at (node_log n) (next - 1), ae_entries = drop next (node_log n),
       ae_leader_commit = commit_index n\<rparr>"
proof -
  obtain p where p: "p \<in> set (peers n)" "p \<noteq> node_id n" and a: "replicate_to_peer n p = Some a"
    using assms by (auto simp: replicate_to_all_peers_def List.map_filter_def)
  from replicate_to_peer_SomeD [OF a] p show ?thesis by blast
qed

lemma send_heartbeats_no_vote [simp]: "SendRequestVoteResponse c r \<notin> set (send_heartbeats n)"
  "SendRequestVoteResponse c r \<notin> set (replicate_to_all_peers n)"
  by (auto simp: send_heartbeats_def dest: replicate_to_all_peersD)

lemma start_election_no_vote [simp]: "SendRequestVoteResponse c r \<notin> set (snd (start_election fs n))"
  by (auto simp: start_election_def Let_def)

lemma tick_no_vote [simp]: "SendRequestVoteResponse c r \<notin> set (snd (tick fs n))"
  by (cases rule: tick_cases [where n = n and fs = fs]) (auto simp: tick_heartbeat_def Let_def)

subsection \<open>The contract\<close>

locale raft_handler =
  fixes fs :: "'j json_fs"
    and safe :: "'j RaftNode \<Rightarrow> bool"
    and h :: "'j RaftNode \<Rightarrow> 'j RaftNode \<times> Action list"
  assumes keeps_id: "node_id (fst (h n)) = node_id n"
    and keeps_peers: "peers (fst (h n)) = peers n"
    and term_grows: "safe n \<Longrightarrow> current_term n \<le> current_term (fst (h n))"
    and vote_stays: "safe n \<Longrightarrow> current_term (fst (h n)) = current_term n \<Longrightarrow>
      voted_for n = Some v \<Longrightarrow> voted_for (fst (h n)) = Some v"
    and keeps_log_ok: "log_ok (node_log n) \<Longrightarrow> log_ok (node_log (fst (h n)))"
    and saves: "good_fs fs \<Longrightarrow> log_ok (node_log n) \<Longrightarrow> recoverable fs n \<Longrightarrow> recoverable fs (fst (h n))"
    and grants: "SendRequestVoteResponse c r \<in> set (snd (h n)) \<Longrightarrow> rvr_vote_granted r \<Longrightarrow>
      rvr_term r = current_term (fst (h n)) \<and> voted_for (fst (h n)) = Some c"
begin

text \<open>
  A crash right after the handler, before or after its messages leave the node, loses nothing
  a voter may not forget: the restarted node has the handler's term, vote and log.
\<close>

lemma restart_after:
  assumes "good_fs fs" "log_ok (node_log n)" "recoverable fs n"
  shows "current_term (restart fs dir (fst (h n))) = current_term (fst (h n))"
    and "voted_for (restart fs dir (fst (h n))) = voted_for (fst (h n))"
    and "node_log (restart fs dir (fst (h n))) = node_log (fst (h n))"
  using saves [OF assms] by (simp_all add: restart_recoverable)

lemma vote_survives_restart:
  assumes "good_fs fs" "log_ok (node_log n)" "recoverable fs n"
    and "SendRequestVoteResponse c r \<in> set (snd (h n))" "rvr_vote_granted r"
  shows "current_term (restart fs dir (fst (h n))) = rvr_term r \<and>
    voted_for (restart fs dir (fst (h n))) = Some c"
  using restart_after [OF assms(1-3)] grants [OF assms(4,5)] by simp

end

interpretation tick: raft_handler fs "\<lambda>n. current_term n \<noteq> - 1" "tick fs" for fs
proof unfold_locales
  fix n :: "'a RaftNode" and v c r
  show "node_id (fst (tick fs n)) = node_id n" and "peers (fst (tick fs n)) = peers n"
    by (cases rule: tick_cases [where n = n and fs = fs]; simp)+
  show "log_ok (node_log n) \<Longrightarrow> log_ok (node_log (fst (tick fs n)))"
    by (cases rule: tick_cases [where n = n and fs = fs]) simp_all
  show "current_term n \<noteq> - 1 \<Longrightarrow> current_term n \<le> current_term (fst (tick fs n))"
    by (cases rule: tick_cases [where n = n and fs = fs]) (simp_all add: word_less_succ less_imp_le)
  show "current_term n \<noteq> - 1 \<Longrightarrow> current_term (fst (tick fs n)) = current_term n \<Longrightarrow>
      voted_for n = Some v \<Longrightarrow> voted_for (fst (tick fs n)) = Some v"
    by (cases rule: tick_cases [where n = n and fs = fs]) simp_all
  show "good_fs fs \<Longrightarrow> log_ok (node_log n) \<Longrightarrow> recoverable fs n \<Longrightarrow> recoverable fs (fst (tick fs n))"
    using start_election_recoverable [of fs "tick_timer n"] recoverable_persister [of fs n]
    by (cases rule: tick_cases [where n = n and fs = fs]) (auto elim: recoverable_frame)
  show "SendRequestVoteResponse c r \<in> set (snd (tick fs n)) \<Longrightarrow> rvr_vote_granted r \<Longrightarrow>
      rvr_term r = current_term (fst (tick fs n)) \<and> voted_for (fst (tick fs n)) = Some c"
    by simp
qed

interpretation request_vote: raft_handler fs "\<lambda>_. True" "handle_request_vote fs req" for fs req
proof unfold_locales
  fix n :: "'a RaftNode" and v c r
  let ?h = "handle_request_vote fs req"
  show "node_id (fst (?h n)) = node_id n" and "peers (fst (?h n)) = peers n"
    and "log_ok (node_log n) \<Longrightarrow> log_ok (node_log (fst (?h n)))"
    and "current_term n \<le> current_term (fst (?h n))"
    by (simp_all add: handle_request_vote_def Let_def less_imp_le)
  show "current_term (fst (?h n)) = current_term n \<Longrightarrow> voted_for n = Some v \<Longrightarrow> voted_for (fst (?h n)) = Some v"
    by (auto simp: handle_request_vote_def Let_def split: if_splits)
  show "good_fs fs \<Longrightarrow> log_ok (node_log n) \<Longrightarrow> recoverable fs n \<Longrightarrow> recoverable fs (fst (?h n))"
    using recoverable_persister [of fs n]
    by (simp add: handle_request_vote_def Let_def recoverable_persist)
  show "SendRequestVoteResponse c r \<in> set (snd (?h n)) \<Longrightarrow> rvr_vote_granted r \<Longrightarrow>
      rvr_term r = current_term (fst (?h n)) \<and> voted_for (fst (?h n)) = Some c"
    by (auto simp: handle_request_vote_def Let_def split: if_splits)
qed

interpretation request_vote_response: raft_handler fs "\<lambda>_. True" "handle_request_vote_response fs sender resp"
  for fs sender resp
proof unfold_locales
  fix n :: "'a RaftNode" and v c r
  let ?h = "handle_request_vote_response fs sender resp"
  show "node_id (fst (?h n)) = node_id n" and "peers (fst (?h n)) = peers n"
    and "log_ok (node_log n) \<Longrightarrow> log_ok (node_log (fst (?h n)))"
    and "current_term n \<le> current_term (fst (?h n))"
    by (simp_all add: handle_request_vote_response_def Let_def less_imp_le)
  show "current_term (fst (?h n)) = current_term n \<Longrightarrow> voted_for n = Some v \<Longrightarrow> voted_for (fst (?h n)) = Some v"
    by (auto simp: handle_request_vote_response_def Let_def split: if_splits)
  show "good_fs fs \<Longrightarrow> log_ok (node_log n) \<Longrightarrow> recoverable fs n \<Longrightarrow> recoverable fs (fst (?h n))"
    by (auto simp: handle_request_vote_response_def Let_def dest: recoverable_persister
        intro!: recoverable_persist elim: recoverable_frame)
  show "SendRequestVoteResponse c r \<in> set (snd (?h n)) \<Longrightarrow> rvr_vote_granted r \<Longrightarrow>
      rvr_term r = current_term (fst (?h n)) \<and> voted_for (fst (?h n)) = Some c"
    by (auto simp: handle_request_vote_response_def Let_def split: if_splits)
qed


lemma accept_leader_recoverable:
  assumes "good_fs fs" "recoverable fs n" "log_ok (node_log n)"
  shows "recoverable fs (accept_leader fs req n)"
  using assms recoverable_persister [OF assms(2)]
  by (auto simp: accept_leader_def intro!: recoverable_persist)

interpretation append_entries: raft_handler fs "\<lambda>_. True" "handle_append_entries fs req" for fs req
proof unfold_locales
  fix n :: "'a RaftNode" and v c r
  let ?h = "handle_append_entries fs req"
  show "node_id (fst (?h n)) = node_id n" and "peers (fst (?h n)) = peers n"
    and "log_ok (node_log n) \<Longrightarrow> log_ok (node_log (fst (?h n)))"
    and "current_term n \<le> current_term (fst (?h n))"
    by (simp_all add: handle_append_entries_eq log_ok_merged not_less)
  show "current_term (fst (?h n)) = current_term n \<Longrightarrow> voted_for n = Some v \<Longrightarrow> voted_for (fst (?h n)) = Some v"
    by (auto simp: handle_append_entries_eq split: if_splits)
  show "good_fs fs \<Longrightarrow> log_ok (node_log n) \<Longrightarrow> recoverable fs n \<Longrightarrow> recoverable fs (fst (?h n))"
  proof -
    assume a: "good_fs fs" "log_ok (node_log n)" "recoverable fs n"
    then have acc: "recoverable fs (accept_leader fs req n)" by (intro accept_leader_recoverable)
    then have "recoverable fs (append_new_entries fs req (accept_leader fs req n))"
      using a by (intro append_new_entries_recoverable) simp_all
    then have "recoverable fs (fst (follow_commit req (append_new_entries fs req (accept_leader fs req n))))"
      by (rule recoverable_frame) simp_all
    then show ?thesis using acc a(3) by (simp add: handle_append_entries_eq)
  qed
  show "SendRequestVoteResponse c r \<in> set (snd (?h n)) \<Longrightarrow> rvr_vote_granted r \<Longrightarrow>
      rvr_term r = current_term (fst (?h n)) \<and> voted_for (fst (?h n)) = Some c"
    by (auto simp: handle_append_entries_eq dest: follow_commit_actions split: if_splits)
qed

lemma maybe_advance_simps [simp]:
  "node_id (fst (maybe_advance_commit_index n)) = node_id n"
  "peers (fst (maybe_advance_commit_index n)) = peers n"
  "current_term (fst (maybe_advance_commit_index n)) = current_term n"
  "voted_for (fst (maybe_advance_commit_index n)) = voted_for n"
  "node_log (fst (maybe_advance_commit_index n)) = node_log n"
  "role (fst (maybe_advance_commit_index n)) = role n"
  "rs_next_index (rn_state (fst (maybe_advance_commit_index n))) = rs_next_index (rn_state n)"
  "rs_match_index (rn_state (fst (maybe_advance_commit_index n))) = rs_match_index (rn_state n)"
  "rn_persister (fst (maybe_advance_commit_index n)) = rn_persister n"
  "rn_votes_received (fst (maybe_advance_commit_index n)) = rn_votes_received n"
  by (rule maybe_advance_frame [where n = n]; simp)+

lemma maybe_advance_actions:
  "x \<in> set (snd (maybe_advance_commit_index n)) \<Longrightarrow> \<exists>i cmd. x = ApplyEntry i cmd"
  by (rule maybe_advance_frame [where n = n]) blast

lemma maybe_advance_recoverable [simp]:
  "recoverable fs (fst (maybe_advance_commit_index n)) = recoverable fs n"
  by (simp add: recoverable_def)

text \<open>The leader's bookkeeping for a response, before it looks at the commit index.\<close>

definition note_response :: "u64 \<Rightarrow> AppendEntriesResponse \<Rightarrow> RaftState \<Rightarrow> RaftState" where
  "note_response sender resp s =
     (case aer_match_index resp of
        None \<Rightarrow>
          if aer_success resp then s
          else s\<lparr>rs_next_index := update_first sender (\<lambda>ni. if ni > 1 then ni - 1 else ni) (rs_next_index s)\<rparr>
      | Some m \<Rightarrow>
          (if aer_success resp then s\<lparr>rs_match_index := update_first sender (\<lambda>_. m) (rs_match_index s)\<rparr> else s)
          \<lparr>rs_next_index := update_first sender (\<lambda>_. m + 1) (rs_next_index s)\<rparr>)"

lemma note_response_simps [simp]:
  "rs_id (note_response p r s) = rs_id s" "rs_peers (note_response p r s) = rs_peers s"
  "rs_current_term (note_response p r s) = rs_current_term s"
  "rs_voted_for (note_response p r s) = rs_voted_for s"
  "rs_log (note_response p r s) = rs_log s" "rs_role (note_response p r s) = rs_role s"
  "rs_commit_index (note_response p r s) = rs_commit_index s"
  "rs_last_applied (note_response p r s) = rs_last_applied s"
  by (simp_all add: note_response_def split: option.splits)

lemma handle_append_entries_response_eq:
  "handle_append_entries_response fs sender resp n =
     (if role n \<noteq> Leader then (n, [])
      else if aer_term resp > current_term n
      then (persist fs (n\<lparr>rn_state := become_follower (aer_term resp) (rn_state n)\<rparr>), [])
      else if aer_success resp
      then maybe_advance_commit_index (n\<lparr>rn_state := note_response sender resp (rn_state n)\<rparr>)
      else (n\<lparr>rn_state := note_response sender resp (rn_state n)\<rparr>, []))"
  by (auto simp: handle_append_entries_response_def note_response_def Let_def split: option.splits)

interpretation append_entries_response: raft_handler fs "\<lambda>_. True" "handle_append_entries_response fs sender resp"
  for fs sender resp
proof unfold_locales
  fix n :: "'a RaftNode" and v c r
  let ?h = "handle_append_entries_response fs sender resp"
  show "node_id (fst (?h n)) = node_id n" and "peers (fst (?h n)) = peers n"
    and "log_ok (node_log n) \<Longrightarrow> log_ok (node_log (fst (?h n)))"
    and "current_term n \<le> current_term (fst (?h n))"
    by (simp_all add: handle_append_entries_response_eq less_imp_le)
  show "current_term (fst (?h n)) = current_term n \<Longrightarrow> voted_for n = Some v \<Longrightarrow> voted_for (fst (?h n)) = Some v"
    by (auto simp: handle_append_entries_response_eq)
  show "good_fs fs \<Longrightarrow> log_ok (node_log n) \<Longrightarrow> recoverable fs n \<Longrightarrow> recoverable fs (fst (?h n))"
    using recoverable_persister [of fs n]
    by (auto simp: handle_append_entries_response_eq intro!: recoverable_persist elim: recoverable_frame)
  show "SendRequestVoteResponse c r \<in> set (snd (?h n)) \<Longrightarrow> rvr_vote_granted r \<Longrightarrow>
      rvr_term r = current_term (fst (?h n)) \<and> voted_for (fst (?h n)) = Some c"
    by (auto simp: handle_append_entries_response_eq dest: maybe_advance_actions split: if_splits)
qed

text \<open>\<open>propose\<close> as a handler: no actions where it returns \<^verbatim>\<open>None\<close>.\<close>

definition propose_actions :: "'j json_fs \<Rightarrow> LogCommand \<Rightarrow> 'j RaftNode \<Rightarrow> 'j RaftNode \<times> Action list" where
  "propose_actions fs command n =
     (fst (propose fs command n), case_option [] id (snd (propose fs command n)))"

definition proposed :: "'j json_fs \<Rightarrow> LogCommand \<Rightarrow> 'j RaftNode \<Rightarrow> 'j RaftNode" where
  "proposed fs command n =
     persist fs (n\<lparr>rn_state := (rn_state n)\<lparr>rs_log := node_log n @ [\<lparr>le_term = current_term n, le_command = command\<rparr>]\<rparr>\<rparr>)"

lemma proposed_simps [simp]:
  "rn_state (proposed fs command n) =
     (rn_state n)\<lparr>rs_log := node_log n @ [\<lparr>le_term = current_term n, le_command = command\<rparr>]\<rparr>"
  "rn_votes_received (proposed fs command n) = rn_votes_received n"
  by (simp_all add: proposed_def)

lemma propose_eq:
  "propose fs command n =
     (if role n \<noteq> Leader then (n, None)
      else (fst (maybe_advance_commit_index (proposed fs command n)),
            Some (replicate_to_all_peers (proposed fs command n) @
                  snd (maybe_advance_commit_index (proposed fs command n)))))"
  by (simp add: propose_def proposed_def log_append_def Let_def case_prod_unfold)

interpretation propose: raft_handler fs "\<lambda>_. True" "propose_actions fs command" for fs command
proof unfold_locales
  fix n :: "'a RaftNode" and v c r
  let ?h = "propose_actions fs command"
  show "node_id (fst (?h n)) = node_id n" and "peers (fst (?h n)) = peers n"
    and "log_ok (node_log n) \<Longrightarrow> log_ok (node_log (fst (?h n)))"
    and "current_term n \<le> current_term (fst (?h n))"
    and "voted_for n = Some v \<Longrightarrow> voted_for (fst (?h n)) = Some v"
    by (simp_all add: propose_actions_def propose_eq)
  show "good_fs fs \<Longrightarrow> log_ok (node_log n) \<Longrightarrow> recoverable fs n \<Longrightarrow> recoverable fs (fst (?h n))"
    using recoverable_persister [of fs n]
    by (auto simp: propose_actions_def propose_eq proposed_def intro!: recoverable_persist)
  show "SendRequestVoteResponse c r \<in> set (snd (?h n)) \<Longrightarrow> rvr_vote_granted r \<Longrightarrow>
      rvr_term r = current_term (fst (?h n)) \<and> voted_for (fst (?h n)) = Some c"
    by (auto simp: propose_actions_def propose_eq dest: maybe_advance_actions split: if_splits)
qed

end
