(* ===== verification/Raft_System.thy ===== *)
theory Raft_System
  imports Raft_Contract
begin

text \<open>
  A Raft group: the nodes of \<open>ps\<close>, each running the handlers of \<^theory_text>\<open>Raft_Node\<close>, and a
  network. Node \<open>i\<close> keeps its file in the directory \<open>dir i\<close>. The network is the list of all messages ever sent, so a delivery may happen late,
  in any order, several times or never. A step is one node taking a tick, receiving a message,
  accepting a client's proposal, or crashing and restarting from its file, between two handlers or
  between the two saves of one.

  Terms are \<^verbatim>\<open>u64\<close>; the tick rule asks for room for one more term, so the runs considered are
  those in which no node has started an election in the last term a \<^verbatim>\<open>u64\<close> can hold.

  \<open>hist\<close> adds history variables for the proofs: every vote cast, every leadership, and for
  each term the log of its leader when it was last seen leading. They are updated from the
  state and never read by a step.
\<close>

subsection \<open>Messages on the wire\<close>

datatype NetworkMessage =
    NmRequestVote u64 RequestVoteRequest
  | NmRequestVoteResponse u64 RequestVoteResponse
  | NmAppendEntries u64 AppendEntriesRequest
  | NmAppendEntriesResponse u64 AppendEntriesResponse

text \<open>The \<^verbatim>\<open>match\<close> of \<^verbatim>\<open>PeerTransport::dispatch_message\<close>.\<close>

definition raft_dispatch :: "'j json_fs \<Rightarrow> NetworkMessage \<Rightarrow> 'j RaftNode \<Rightarrow> 'j RaftNode \<times> Action list" where
  "raft_dispatch fs msg n =
     (case msg of
        NmRequestVote _ request \<Rightarrow> handle_request_vote fs request n
      | NmRequestVoteResponse sender response \<Rightarrow> handle_request_vote_response fs sender response n
      | NmAppendEntries _ request \<Rightarrow> handle_append_entries fs request n
      | NmAppendEntriesResponse sender response \<Rightarrow> handle_append_entries_response fs sender response n)"

text \<open>The message an action puts on the wire, with its destination; applying puts none.\<close>

definition action_message :: "u64 \<Rightarrow> Action \<Rightarrow> (u64 \<times> NetworkMessage) option" where
  "action_message i a =
     (case a of
        SendRequestVote to request \<Rightarrow> Some (to, NmRequestVote i request)
      | SendRequestVoteResponse to response \<Rightarrow> Some (to, NmRequestVoteResponse i response)
      | SendAppendEntries to request \<Rightarrow> Some (to, NmAppendEntries i request)
      | SendAppendEntriesResponse to response \<Rightarrow> Some (to, NmAppendEntriesResponse i response)
      | ApplyEntry _ _ \<Rightarrow> None)"

subsection \<open>The system and its steps\<close>

record 'j raft_sys =
  sys_node :: "u64 \<Rightarrow> 'j RaftNode"
  sys_net :: "(u64 \<times> NetworkMessage) list"

definition run_handler ::
  "u64 \<Rightarrow> ('j RaftNode \<Rightarrow> 'j RaftNode \<times> Action list) \<Rightarrow> 'j raft_sys \<Rightarrow> 'j raft_sys" where
  "run_handler i h s =
     (let (n, acts) = h (sys_node s i)
      in s\<lparr>sys_node := (sys_node s)(i := n),
           sys_net := sys_net s @ List.map_filter (action_message i) acts\<rparr>)"

definition fresh_node :: "'j json_fs \<Rightarrow> string \<Rightarrow> u64 list \<Rightarrow> u64 \<Rightarrow> 'j RaftNode" where
  "fresh_node fs dir ps i =
     (case with_persistence fs True (\<lambda>_. None) i ps dir of Inl _ \<Rightarrow> node_new i ps | Inr n \<Rightarrow> n)"

definition raft_init :: "'j json_fs \<Rightarrow> (u64 \<Rightarrow> string) \<Rightarrow> u64 list \<Rightarrow> 'j raft_sys" where
  "raft_init fs dir ps = \<lparr>sys_node = \<lambda>i. fresh_node fs (dir i) ps i, sys_net = []\<rparr>"

text \<open>
  \<^verbatim>\<open>handle_request_vote\<close> and \<^verbatim>\<open>handle_append_entries\<close> save the state twice; the other handlers save at
  most once, at the end. \<open>first_save\<close> is the node at the first of the two saves: a crash before the
  second one leaves this state on the disk.
\<close>

definition first_save :: "'j json_fs \<Rightarrow> NetworkMessage \<Rightarrow> 'j RaftNode \<Rightarrow> 'j RaftNode" where
  "first_save fs m n =
     (case m of
        NmRequestVote _ request \<Rightarrow>
          if rv_term request > current_term n
          then persist fs (n\<lparr>rn_state := become_follower (rv_term request) (rn_state n)\<rparr>) else n
      | NmAppendEntries _ request \<Rightarrow>
          if ae_term request < current_term n then n else accept_leader fs request n
      | _ \<Rightarrow> n)"

inductive raft_step ::
  "'j json_fs \<Rightarrow> (u64 \<Rightarrow> string) \<Rightarrow> u64 list \<Rightarrow> u64 \<Rightarrow> 'j raft_sys \<Rightarrow> 'j raft_sys \<Rightarrow> bool"
  for fs dir ps i where
  tick_step: "i \<in> set ps \<Longrightarrow> current_term (sys_node s i) \<noteq> - 1 \<Longrightarrow>
    raft_step fs dir ps i s (run_handler i (tick fs) s)"
| deliver_step: "i \<in> set ps \<Longrightarrow> (i, m) \<in> set (sys_net s) \<Longrightarrow>
    raft_step fs dir ps i s (run_handler i (raft_dispatch fs m) s)"
| propose_step: "i \<in> set ps \<Longrightarrow> raft_step fs dir ps i s (run_handler i (propose_actions fs cmd) s)"
| restart_step: "i \<in> set ps \<Longrightarrow>
    raft_step fs dir ps i s (run_handler i (\<lambda>n. (restart fs (dir i) n, [])) s)"
| crash_step: "i \<in> set ps \<Longrightarrow> (i, m) \<in> set (sys_net s) \<Longrightarrow>
    raft_step fs dir ps i s (run_handler i (\<lambda>n. (restart fs (dir i) (first_save fs m n), [])) s)"

inductive_cases raft_stepE: "raft_step fs dir ps i s s'"

inductive raft_steps :: "'j json_fs \<Rightarrow> (u64 \<Rightarrow> string) \<Rightarrow> u64 list \<Rightarrow> 'j raft_sys \<Rightarrow> 'j raft_sys \<Rightarrow> bool"
  for fs dir ps where
  steps_refl: "raft_steps fs dir ps s s"
| steps_step: "raft_steps fs dir ps s t \<Longrightarrow> raft_step fs dir ps i t u \<Longrightarrow> raft_steps fs dir ps s u"

definition raft_reachable :: "'j json_fs \<Rightarrow> (u64 \<Rightarrow> string) \<Rightarrow> u64 list \<Rightarrow> 'j raft_sys \<Rightarrow> bool" where
  "raft_reachable fs dir ps s \<longleftrightarrow> raft_steps fs dir ps (raft_init fs dir ps) s"

lemma run_handler_node:
  "sys_node (run_handler i h s) = (sys_node s)(i := fst (h (sys_node s i)))"
  by (simp add: run_handler_def case_prod_unfold Let_def)

lemma run_handler_net:
  "sys_net (run_handler i h s) = sys_net s @ List.map_filter (action_message i) (snd (h (sys_node s i)))"
  by (simp add: run_handler_def case_prod_unfold Let_def)

lemma set_net_append:
  "(c, m) \<in> set (xs @ List.map_filter (action_message i) acts) \<longleftrightarrow>
     (c, m) \<in> set xs \<or> (\<exists>a \<in> set acts. action_message i a = Some (c, m))"
  by (auto simp: List.map_filter_def; force)

lemma run_handler_net_iff:
  "(t, m) \<in> set (sys_net (run_handler i h s)) \<longleftrightarrow>
     (t, m) \<in> set (sys_net s) \<or> (\<exists>a \<in> set (snd (h (sys_node s i))). action_message i a = Some (t, m))"
  by (simp only: run_handler_net set_net_append)

lemma action_message_iff:
  "action_message i a = Some (t, NmRequestVote j rv) \<longleftrightarrow> a = SendRequestVote t rv \<and> i = j"
  "action_message i a = Some (t, NmRequestVoteResponse j rvr) \<longleftrightarrow> a = SendRequestVoteResponse t rvr \<and> i = j"
  "action_message i a = Some (t, NmAppendEntries j ae) \<longleftrightarrow> a = SendAppendEntries t ae \<and> i = j"
  "action_message i a = Some (t, NmAppendEntriesResponse j aer) \<longleftrightarrow> a = SendAppendEntriesResponse t aer \<and> i = j"
  by (cases a; auto simp: action_message_def)+

lemma fresh_node_simps [simp]:
  "node_id (fresh_node fs dir ps i) = i" "peers (fresh_node fs dir ps i) = ps"
  "current_term (fresh_node fs dir ps i) = 0" "voted_for (fresh_node fs dir ps i) = None"
  "node_log (fresh_node fs dir ps i) = log_new" "role (fresh_node fs dir ps i) = Follower"
  "rn_votes_received (fresh_node fs dir ps i) = {}" "recoverable fs (fresh_node fs dir ps i)"
  by (simp_all add: fresh_node_def with_persistence_def Let_def persister_new_def load_def
      recoverable_def restored_def)

subsection \<open>Executable schedules\<close>

text \<open>
  A schedule names the events of a run; \<open>run_event\<close> refuses an event that is not possible.
  \<open>Deliver i k\<close> delivers the message number \<open>k\<close> of the network to node \<open>i\<close>.
\<close>

datatype raft_event = Ticks u64 nat | Deliver u64 nat | Client u64 LogCommand | Restart u64

primrec run_ticks :: "'j json_fs \<Rightarrow> u64 \<Rightarrow> nat \<Rightarrow> 'j raft_sys \<Rightarrow> 'j raft_sys option" where
  "run_ticks fs i 0 s = Some s"
| "run_ticks fs i (Suc k) s =
     (if current_term (sys_node s i) \<noteq> - 1 then run_ticks fs i k (run_handler i (tick fs) s) else None)"

text \<open>
  The ticks of one node touch no other node: they run on the node alone, and its state and messages
  reach the system once. This is how schedules are evaluated.
\<close>

primrec node_ticks :: "'j json_fs \<Rightarrow> nat \<Rightarrow> 'j RaftNode \<Rightarrow> Action list \<Rightarrow> ('j RaftNode \<times> Action list) option" where
  "node_ticks fs 0 n acts = Some (n, acts)"
| "node_ticks fs (Suc k) n acts =
     (if current_term n \<noteq> - 1 then (case tick fs n of (n', acts') \<Rightarrow> node_ticks fs k n' (acts @ acts')) else None)"

lemma node_ticks_acts:
  "node_ticks fs k n (xs @ ys) = map_option (\<lambda>(m, acts). (m, xs @ acts)) (node_ticks fs k n ys)"
  by (induction k arbitrary: n ys) (auto split: prod.split)

lemma run_ticks_node [code]:
  "run_ticks fs i k s =
     (case node_ticks fs k (sys_node s i) [] of
        None \<Rightarrow> None
      | Some (n, acts) \<Rightarrow>
          Some (s\<lparr>sys_node := (sys_node s)(i := n), sys_net := sys_net s @ List.map_filter (action_message i) acts\<rparr>))"
proof (induction k arbitrary: s)
  case (Suc k)
  obtain n acts where t: "tick fs (sys_node s i) = (n, acts)" by fastforce
  have "node_ticks fs k n acts = map_option (\<lambda>(m, bs). (m, acts @ bs)) (node_ticks fs k n [])"
    using node_ticks_acts [of fs k n acts "[]"] by simp
  with t show ?case
    by (cases "node_ticks fs k n []") (auto simp: Suc.IH run_handler_def List.map_filter_def)
qed simp

fun event_node :: "raft_event \<Rightarrow> u64" where
  "event_node (Ticks i k) = i"
| "event_node (Deliver i k) = i"
| "event_node (Client i cmd) = i"
| "event_node (Restart i) = i"

definition run_event ::
  "'j json_fs \<Rightarrow> (u64 \<Rightarrow> string) \<Rightarrow> u64 list \<Rightarrow> raft_event \<Rightarrow> 'j raft_sys \<Rightarrow> 'j raft_sys option" where
  "run_event fs dir ps e s =
     (if \<not> List.member ps (event_node e) then None
      else case e of
        Ticks i k \<Rightarrow> run_ticks fs i k s
      | Deliver i k \<Rightarrow>
          (if k < length (sys_net s) \<and> fst (sys_net s ! k) = i
           then Some (run_handler i (raft_dispatch fs (snd (sys_net s ! k))) s) else None)
      | Client i cmd \<Rightarrow> Some (run_handler i (propose_actions fs cmd) s)
      | Restart i \<Rightarrow> Some (run_handler i (\<lambda>n. (restart fs (dir i) n, [])) s))"

fun run_events ::
  "'j json_fs \<Rightarrow> (u64 \<Rightarrow> string) \<Rightarrow> u64 list \<Rightarrow> raft_event list \<Rightarrow> 'j raft_sys \<Rightarrow> 'j raft_sys option" where
  "run_events fs dir ps [] s = Some s"
| "run_events fs dir ps (e # es) s =
     (case run_event fs dir ps e s of None \<Rightarrow> None | Some s' \<Rightarrow> run_events fs dir ps es s')"

lemma run_ticks_sound:
  assumes "run_ticks fs i k s = Some t" and "i \<in> set ps" and "raft_steps fs dir ps r s"
  shows "raft_steps fs dir ps r t"
  using assms
  by (induction k arbitrary: s) (auto split: if_splits intro: steps_step tick_step)

lemma run_event_sound:
  assumes "run_event fs dir ps e s = Some t" and "raft_steps fs dir ps r s"
  shows "raft_steps fs dir ps r t"
proof -
  have e: "event_node e \<in> set ps" using assms(1) by (auto simp: run_event_def split: if_splits)
  have "raft_steps fs dir ps r t" if "e = Deliver i k" for i k
  proof -
    have "(i, snd (sys_net s ! k)) \<in> set (sys_net s)"
      using assms(1) that by (auto simp: run_event_def split: if_splits)
    then show ?thesis
      using assms e that by (auto simp: run_event_def split: if_splits intro: steps_step deliver_step)
  qed
  then show ?thesis
    using assms e run_ticks_sound
    by (cases e) (auto simp: run_event_def split: if_splits intro: steps_step propose_step restart_step)
qed

lemma run_events_sound:
  assumes "run_events fs dir ps es s = Some t" and "raft_steps fs dir ps r s"
  shows "raft_steps fs dir ps r t"
  using assms
  by (induction es arbitrary: s) (auto split: option.splits dest: run_event_sound)

lemma run_events_reachable:
  "run_events fs dir ps es (raft_init fs dir ps) = Some t \<Longrightarrow> raft_reachable fs dir ps t"
  by (auto simp: raft_reachable_def intro: run_events_sound steps_refl)

subsection \<open>History variables\<close>

record 'j hist =
  h_sys :: "'j raft_sys"
  h_votes :: "(u64 \<times> u64 \<times> u64) set"
  h_leaders :: "(u64 \<times> u64) set"
  h_llog :: "u64 \<Rightarrow> RaftLog"

abbreviation h_node :: "'j hist \<Rightarrow> u64 \<Rightarrow> 'j RaftNode" where
  "h_node h i \<equiv> sys_node (h_sys h) i"

definition observe :: "u64 \<Rightarrow> 'j hist \<Rightarrow> 'j raft_sys \<Rightarrow> 'j hist" where
  "observe i h s =
     (let n = sys_node s i
      in \<lparr>h_sys = s,
          h_votes = h_votes h \<union> {(i, current_term n, v) | v. voted_for n = Some v},
          h_leaders = h_leaders h \<union> {(current_term n, i) | x :: unit. role n = Leader},
          h_llog = (if role n = Leader then (h_llog h)(current_term n := node_log n) else h_llog h)\<rparr>)"

definition hist_init :: "'j json_fs \<Rightarrow> (u64 \<Rightarrow> string) \<Rightarrow> u64 list \<Rightarrow> 'j hist" where
  "hist_init fs dir ps =
     \<lparr>h_sys = raft_init fs dir ps, h_votes = {}, h_leaders = {}, h_llog = (\<lambda>_. log_new)\<rparr>"

inductive hist_step :: "'j json_fs \<Rightarrow> (u64 \<Rightarrow> string) \<Rightarrow> u64 list \<Rightarrow> 'j hist \<Rightarrow> 'j hist \<Rightarrow> bool"
  for fs dir ps where
  "raft_step fs dir ps i (h_sys h) s \<Longrightarrow> hist_step fs dir ps h (observe i h s)"

inductive_cases hist_stepE: "hist_step fs dir ps h h'"

inductive hist_reachable :: "'j json_fs \<Rightarrow> (u64 \<Rightarrow> string) \<Rightarrow> u64 list \<Rightarrow> 'j hist \<Rightarrow> bool"
  for fs dir ps where
  hist_start: "hist_reachable fs dir ps (hist_init fs dir ps)"
| hist_next: "hist_reachable fs dir ps h \<Longrightarrow> hist_step fs dir ps h h' \<Longrightarrow> hist_reachable fs dir ps h'"

lemma observe_simps [simp]:
  "h_sys (observe i h s) = s"
  "h_votes (observe i h s) =
     h_votes h \<union> {(i, current_term (sys_node s i), v) | v. voted_for (sys_node s i) = Some v}"
  "(t, j) \<in> h_leaders (observe i h s) \<longleftrightarrow>
     (t, j) \<in> h_leaders h \<or> t = current_term (sys_node s i) \<and> j = i \<and> role (sys_node s i) = Leader"
  "h_llog (observe i h s) =
     (if role (sys_node s i) = Leader
      then (h_llog h)(current_term (sys_node s i) := node_log (sys_node s i)) else h_llog h)"
  by (auto simp: observe_def Let_def)

text \<open>Every run of the system is the run of a history, which only ever grows.\<close>

inductive hist_steps :: "'j json_fs \<Rightarrow> (u64 \<Rightarrow> string) \<Rightarrow> u64 list \<Rightarrow> 'j hist \<Rightarrow> 'j hist \<Rightarrow> bool"
  for fs dir ps where
  hsteps_refl: "hist_steps fs dir ps h h"
| hsteps_step: "hist_steps fs dir ps h k \<Longrightarrow> hist_step fs dir ps k l \<Longrightarrow> hist_steps fs dir ps h l"

lemma steps_have_history:
  assumes "raft_steps fs dir ps s t" and "hist_reachable fs dir ps h" and "h_sys h = s"
  shows "\<exists>k. hist_reachable fs dir ps k \<and> hist_steps fs dir ps h k \<and> h_sys k = t"
  using assms
proof (induction rule: raft_steps.induct)
  case (steps_refl s)
  then show ?case using hsteps_refl by blast
next
  case (steps_step s t i u)
  then obtain k where k: "hist_reachable fs dir ps k" "hist_steps fs dir ps h k" "h_sys k = t"
    by blast
  then have "hist_step fs dir ps k (observe i k u)"
    using steps_step.hyps(2) by (auto intro: hist_step.intros)
  with k show ?case
    by (intro exI [of _ "observe i k u"]) (auto intro: hist_next hsteps_step)
qed

lemma reachable_has_history:
  assumes "raft_reachable fs dir ps s"
  shows "\<exists>h. hist_reachable fs dir ps h \<and> h_sys h = s"
  using assms steps_have_history [OF _ hist_start]
  by (fastforce simp: raft_reachable_def hist_init_def)

lemma history_grows:
  assumes "hist_steps fs dir ps h k"
  shows "h_leaders h \<subseteq> h_leaders k \<and> h_votes h \<subseteq> h_votes k"
  using assms
  by (induction rule: hist_steps.induct) (auto elim!: hist_stepE)

lemma raft_steps_trans:
  assumes "raft_steps fs dir ps t u" and "raft_steps fs dir ps s t"
  shows "raft_steps fs dir ps s u"
  using assms by (induction rule: raft_steps.induct) (auto intro: steps_step)

end
