(* ===== verification/Election_Safety.thy ===== *)
theory Election_Safety
  imports Raft_System
begin

text \<open>
  Election safety: in every run of the system, restarts included, a term has at most one leader,
  ever. The proof follows the votes: a node that votes records the vote before it answers
  (\<open>grants\<close> and \<open>saves\<close> of the handler contract), so a crash cannot make it vote twice in a term;
  a leader has the recorded votes of a majority; and two majorities share a voter.

  The invariants are about histories, each one an interpretation of \<open>inductive_invariant\<close> that
  may use the ones before it.
\<close>

interpretation hist: transition_system
  "\<lambda>h. h = hist_init fs dir ps" "hist_step fs dir ps" "hist_reachable fs dir ps" for fs dir ps
proof
  fix s and P :: "'a hist \<Rightarrow> bool"
  assume "hist_reachable fs dir ps s"
    and "\<And>s. s = hist_init fs dir ps \<Longrightarrow> P s"
    and "\<And>s t. hist_reachable fs dir ps s \<Longrightarrow> P s \<Longrightarrow> hist_step fs dir ps s t \<Longrightarrow> P t"
  then show "P s" by (induction rule: hist_reachable.induct) blast+
qed

subsection \<open>The contract of a step\<close>

interpretation dispatch: raft_handler fs "\<lambda>_. True" "raft_dispatch fs m" for fs m
proof -
  have "raft_dispatch fs m =
    (case m of NmRequestVote _ r \<Rightarrow> handle_request_vote fs r
     | NmRequestVoteResponse j r \<Rightarrow> handle_request_vote_response fs j r
     | NmAppendEntries _ r \<Rightarrow> handle_append_entries fs r
     | NmAppendEntriesResponse j r \<Rightarrow> handle_append_entries_response fs j r)"
    by (cases m) (simp_all add: raft_dispatch_def fun_eq_iff)
  then show "raft_handler fs (\<lambda>_. True) (raft_dispatch fs m)"
    using request_vote.raft_handler_axioms request_vote_response.raft_handler_axioms
      append_entries.raft_handler_axioms append_entries_response.raft_handler_axioms
    by (cases m) auto
qed

definition node_ok :: "'j json_fs \<Rightarrow> u64 list \<Rightarrow> u64 \<Rightarrow> 'j RaftNode \<Rightarrow> bool" where
  "node_ok fs ps i n \<longleftrightarrow> node_id n = i \<and> peers n = ps \<and> log_ok (node_log n) \<and> recoverable fs n"

definition voter_step :: "'j RaftNode \<Rightarrow> 'j RaftNode \<Rightarrow> Action list \<Rightarrow> bool" where
  "voter_step n n' acts \<longleftrightarrow>
     current_term n \<le> current_term n' \<and>
     (\<forall>v. current_term n' = current_term n \<longrightarrow> voted_for n = Some v \<longrightarrow> voted_for n' = Some v) \<and>
     (\<forall>c r. SendRequestVoteResponse c r \<in> set acts \<longrightarrow> rvr_vote_granted r \<longrightarrow>
        rvr_term r = current_term n' \<and> voted_for n' = Some c)"

context raft_handler
begin

lemma voter_step:
  assumes "good_fs fs" and "node_ok fs ps i n" and "safe n"
  shows "node_ok fs ps i (fst (h n)) \<and> voter_step n (fst (h n)) (snd (h n))"
  using assms keeps_id [of n] keeps_peers [of n] keeps_log_ok [of n] saves [of n] term_grows [of n]
    vote_stays [of n] grants [of _ _ n]
  unfolding node_ok_def voter_step_def by blast

end

lemma restart_voter_step:
  assumes "node_ok fs ps i n"
  shows "node_ok fs ps i (restart fs dir n) \<and> voter_step n (restart fs dir n) []"
proof -
  obtain p where "rn_persister n = Some p" using assms by (auto simp: node_ok_def recoverable_def)
  from restart_simps(1,2) [OF this] show ?thesis
    using assms restart_recoverable [of fs n dir] by (simp add: node_ok_def voter_step_def)
qed

text \<open>A crash between the two saves of a handler, and the restart.\<close>

lemma first_save_ok:
  assumes "good_fs fs" and "node_ok fs ps i n"
  shows "node_ok fs ps i (first_save fs m n)" and "node_log (first_save fs m n) = node_log n"
    and "voted_for (first_save fs m n) = Some v \<Longrightarrow> current_term (first_save fs m n) = current_term n \<and> voted_for n = Some v"
    and "voter_step n (first_save fs m n) []"
proof -
  have "rn_persister n \<noteq> None" using assms(2) recoverable_persister by (auto simp: node_ok_def)
  then have "recoverable fs (first_save fs m n)"
    using assms by (auto simp: first_save_def accept_leader_def node_ok_def
        intro!: recoverable_persist split: NetworkMessage.splits)
  then show "node_ok fs ps i (first_save fs m n)" "node_log (first_save fs m n) = node_log n"
    using assms(2) by (auto simp: first_save_def node_ok_def split: NetworkMessage.splits)
  show "voted_for (first_save fs m n) = Some v \<Longrightarrow> current_term (first_save fs m n) = current_term n \<and> voted_for n = Some v"
    and "voter_step n (first_save fs m n) []"
    by (auto simp: first_save_def voter_step_def max_def split: NetworkMessage.splits if_splits)
qed

lemma crash_restart:
  assumes "good_fs fs" and "node_ok fs ps i n"
  shows "node_ok fs ps i (restart fs dir (first_save fs m n))" and "node_log (restart fs dir (first_save fs m n)) = node_log n"
    and "role (restart fs dir (first_save fs m n)) = Follower" and "commit_index (restart fs dir (first_save fs m n)) = 0"
    and "voted_for (restart fs dir (first_save fs m n)) = Some v \<Longrightarrow>
      current_term (restart fs dir (first_save fs m n)) = current_term n \<and> voted_for n = Some v"
    and "voter_step n (restart fs dir (first_save fs m n)) []"
proof -
  let ?n = "first_save fs m n"
  note ok = first_save_ok [OF assms, of m]
  have rec: "recoverable fs ?n" using ok(1) by (simp add: node_ok_def)
  then obtain p where p: "rn_persister ?n = Some p" by (auto simp: recoverable_def)
  show "node_ok fs ps i (restart fs dir ?n)" using restart_voter_step [OF ok(1)] by blast
  show "node_log (restart fs dir ?n) = node_log n" using ok(2) by (simp add: restart_recoverable [OF rec])
  show "role (restart fs dir ?n) = Follower" "commit_index (restart fs dir ?n) = 0" using restart_simps [OF p] by auto
  show "voted_for (restart fs dir ?n) = Some v \<Longrightarrow> current_term (restart fs dir ?n) = current_term n \<and> voted_for n = Some v"
    using ok(3) by (simp add: restart_recoverable [OF rec])
  show "voter_step n (restart fs dir ?n) []" using ok(4) by (simp add: voter_step_def restart_recoverable [OF rec])
qed

lemma step_voter:
  assumes "raft_step fs dir ps i s s'" and "good_fs fs" and "node_ok fs ps i (sys_node s i)"
  obtains acts where
    "\<And>j. j \<noteq> i \<Longrightarrow> sys_node s' j = sys_node s j"
    "sys_net s' = sys_net s @ List.map_filter (action_message i) acts"
    "node_ok fs ps i (sys_node s' i)" "voter_step (sys_node s i) (sys_node s' i) acts" "i \<in> set ps"
  using assms(1)
proof cases
  case tick_step
  then show ?thesis
    using tick.voter_step [OF assms(2,3)] that by (simp add: run_handler_node run_handler_net)
next
  case (deliver_step m)
  then show ?thesis
    using dispatch.voter_step [OF assms(2,3)] that by (simp add: run_handler_node run_handler_net)
next
  case (propose_step cmd)
  then show ?thesis
    using propose.voter_step [OF assms(2,3)] that by (simp add: run_handler_node run_handler_net)
next
  case restart_step
  then show ?thesis
    using restart_voter_step [OF assms(3)] that [of "[]"] by (simp add: run_handler_node run_handler_net)
next
  case (crash_step m)
  then show ?thesis
    using crash_restart(1,6) [OF assms(2,3)] that [of "[]"] by (simp add: run_handler_node run_handler_net)
qed

subsection \<open>Nodes and votes\<close>

definition nodes_inv :: "'j json_fs \<Rightarrow> u64 list \<Rightarrow> 'j hist \<Rightarrow> bool" where
  "nodes_inv fs ps h \<longleftrightarrow> (good_fs fs \<longrightarrow> (\<forall>i \<in> set ps. node_ok fs ps i (h_node h i)))"

interpretation nodes: inductive_invariant
  "\<lambda>h. h = hist_init fs dir ps" "hist_step fs dir ps" "hist_reachable fs dir ps" "nodes_inv fs ps"
  for fs dir ps
proof
  fix h :: "'a hist"
  show "h = hist_init fs dir ps \<Longrightarrow> nodes_inv fs ps h"
    by (simp add: nodes_inv_def hist_init_def raft_init_def node_ok_def)
next
  fix h k :: "'a hist"
  assume inv: "nodes_inv fs ps h" and "hist_step fs dir ps h k"
  then obtain i s where st: "raft_step fs dir ps i (h_sys h) s" and k: "k = observe i h s"
    by (auto elim: hist_stepE)
  show "nodes_inv fs ps k"
    unfolding nodes_inv_def k observe_simps
  proof (intro impI ballI)
    fix j
    assume good: "good_fs fs" and j: "j \<in> set ps"
    have "i \<in> set ps" using st by cases
    then have "node_ok fs ps i (h_node h i)" using inv good by (simp add: nodes_inv_def)
    from step_voter [OF st good this] show "node_ok fs ps j (sys_node s j)"
      using inv good j unfolding nodes_inv_def by metis
  qed
qed

lemma reachable_node_ok:
  "hist_reachable fs dir ps h \<Longrightarrow> good_fs fs \<Longrightarrow> i \<in> set ps \<Longrightarrow> node_ok fs ps i (h_node h i)"
  using nodes.holds by (fastforce simp: nodes_inv_def)

text \<open>A step of a history, taken apart for the invariants about votes.\<close>

lemma hist_voterE:
  assumes "hist_step fs dir ps h k" and "hist_reachable fs dir ps h" and "good_fs fs"
  obtains i s acts where
    "k = observe i h s" "raft_step fs dir ps i (h_sys h) s" "i \<in> set ps"
    "\<And>j. j \<noteq> i \<Longrightarrow> sys_node s j = h_node h j"
    "sys_net s = sys_net (h_sys h) @ List.map_filter (action_message i) acts"
    "node_ok fs ps i (h_node h i)" "node_ok fs ps i (sys_node s i)"
    "voter_step (h_node h i) (sys_node s i) acts"
proof -
  obtain i s where st: "raft_step fs dir ps i (h_sys h) s" and k: "k = observe i h s"
    using assms(1) by (auto elim: hist_stepE)
  have "i \<in> set ps" using st by cases
  then have n: "node_ok fs ps i (h_node h i)" using assms by (simp add: reachable_node_ok)
  from st assms(3) n show ?thesis
    by (rule step_voter) (rule that [OF k st], assumption+, rule n, assumption+)
qed

definition votes_held :: "'j hist \<Rightarrow> bool" where
  "votes_held h \<longleftrightarrow> (\<forall>j t v. (j, t, v) \<in> h_votes h \<longrightarrow>
     t \<le> current_term (h_node h j) \<and> (t = current_term (h_node h j) \<longrightarrow> voted_for (h_node h j) = Some v))"

definition votes_single :: "'j hist \<Rightarrow> bool" where
  "votes_single h \<longleftrightarrow> (\<forall>j t v w. (j, t, v) \<in> h_votes h \<longrightarrow> (j, t, w) \<in> h_votes h \<longrightarrow> v = w)"

definition votes_recorded :: "u64 list \<Rightarrow> 'j hist \<Rightarrow> bool" where
  "votes_recorded ps h \<longleftrightarrow> (\<forall>j t v. (j, t, v) \<in> h_votes h \<longrightarrow> j \<in> set ps) \<and>
     (\<forall>j v. j \<in> set ps \<longrightarrow> voted_for (h_node h j) = Some v \<longrightarrow> (j, current_term (h_node h j), v) \<in> h_votes h)"

definition votes_granted :: "'j hist \<Rightarrow> bool" where
  "votes_granted h \<longleftrightarrow> (\<forall>c j r. (c, NmRequestVoteResponse j r) \<in> set (sys_net (h_sys h)) \<longrightarrow>
     rvr_vote_granted r \<longrightarrow> (j, rvr_term r, c) \<in> h_votes h)"

definition votes_inv :: "'j json_fs \<Rightarrow> u64 list \<Rightarrow> 'j hist \<Rightarrow> bool" where
  "votes_inv fs ps h \<longleftrightarrow>
     (good_fs fs \<longrightarrow> votes_held h \<and> votes_single h \<and> votes_recorded ps h \<and> votes_granted h)"

lemma votes_held_now:
  assumes "votes_held h" and "voter_step (h_node h i) (sys_node s i) acts"
    and "\<And>j. j \<noteq> i \<Longrightarrow> sys_node s j = h_node h j" and "(j, t, v) \<in> h_votes h"
  shows "t \<le> current_term (sys_node s j) \<and> (t = current_term (sys_node s j) \<longrightarrow> voted_for (sys_node s j) = Some v)"
proof (cases "j = i")
  case True
  have before: "t \<le> current_term (h_node h i)" "t = current_term (h_node h i) \<Longrightarrow> voted_for (h_node h i) = Some v"
    using assms(1,4) True by (auto simp: votes_held_def)
  have mono: "current_term (h_node h i) \<le> current_term (sys_node s i)"
    using assms(2) by (simp add: voter_step_def)
  moreover have "voted_for (sys_node s i) = Some v" if t: "t = current_term (sys_node s i)"
  proof -
    have "t = current_term (h_node h i)" using before(1) mono t by simp
    then show ?thesis using before(2) t assms(2) by (simp add: voter_step_def)
  qed
  ultimately show ?thesis using before(1) True by simp
next
  case False
  then show ?thesis using assms(1,3,4) by (simp add: votes_held_def)
qed

lemma votes_held_step:
  assumes "votes_held h" and "voter_step (h_node h i) (sys_node s i) acts"
    and "\<And>j. j \<noteq> i \<Longrightarrow> sys_node s j = h_node h j"
  shows "votes_held (observe i h s)"
  using votes_held_now [OF assms] by (auto simp: votes_held_def [of "observe i h s"])

lemma votes_single_step:
  assumes "votes_single h" and "votes_held h" and "voter_step (h_node h i) (sys_node s i) acts"
    and "\<And>j. j \<noteq> i \<Longrightarrow> sys_node s j = h_node h j"
  shows "votes_single (observe i h s)"
  unfolding votes_single_def
proof (intro allI impI)
  fix j t v w
  assume "(j, t, v) \<in> h_votes (observe i h s)" "(j, t, w) \<in> h_votes (observe i h s)"
  then consider "(j, t, v) \<in> h_votes h" "(j, t, w) \<in> h_votes h"
    | "(j, t, v) \<in> h_votes h" "j = i" "t = current_term (sys_node s i)" "voted_for (sys_node s i) = Some w"
    | "(j, t, w) \<in> h_votes h" "j = i" "t = current_term (sys_node s i)" "voted_for (sys_node s i) = Some v"
    | "voted_for (sys_node s i) = Some v" "voted_for (sys_node s i) = Some w" by auto
  then show "v = w"
    using assms(1) votes_held_now [OF assms(2-4)] by cases (fastforce simp: votes_single_def)+
qed

lemma votes_recorded_step:
  assumes "votes_recorded ps h" and "i \<in> set ps"
    and other: "\<And>j. j \<noteq> i \<Longrightarrow> sys_node s j = h_node h j"
  shows "votes_recorded ps (observe i h s)"
  unfolding votes_recorded_def
proof (intro conjI allI impI)
  fix j v
  assume "j \<in> set ps" and "voted_for (h_node (observe i h s) j) = Some v"
  then show "(j, current_term (h_node (observe i h s) j), v) \<in> h_votes (observe i h s)"
    using assms(1) other [of j] by (cases "j = i") (auto simp: votes_recorded_def)
qed (use assms in \<open>auto simp: votes_recorded_def\<close>)

lemma votes_granted_step:
  assumes "votes_granted h" and "voter_step (h_node h i) (sys_node s i) acts"
    and "sys_net s = sys_net (h_sys h) @ List.map_filter (action_message i) acts"
  shows "votes_granted (observe i h s)"
  using assms unfolding votes_granted_def voter_step_def
  by (auto simp del: set_append simp: set_net_append action_message_iff)

interpretation votes: inductive_invariant
  "\<lambda>h. h = hist_init fs dir ps" "hist_step fs dir ps" "hist_reachable fs dir ps" "votes_inv fs ps"
  for fs dir ps
proof
  fix h :: "'a hist"
  show "h = hist_init fs dir ps \<Longrightarrow> votes_inv fs ps h"
    by (simp add: votes_inv_def votes_held_def votes_single_def votes_recorded_def votes_granted_def
        hist_init_def raft_init_def)
next
  fix h k :: "'a hist"
  assume "hist_reachable fs dir ps h" and "votes_inv fs ps h" and "hist_step fs dir ps h k"
  then show "votes_inv fs ps k"
    unfolding votes_inv_def
    by (auto elim!: hist_voterE intro: votes_held_step votes_single_step votes_recorded_step votes_granted_step)
qed

subsection \<open>Candidates and leaders\<close>

text \<open>
  How a node comes out of a step as a candidate or a leader: it was one already and its tally is
  unchanged, it has just started an election with its own vote, or it has counted a vote.
\<close>

definition campaign_step :: "(u64 \<times> NetworkMessage) set \<Rightarrow> 'j RaftNode \<Rightarrow> 'j RaftNode \<Rightarrow> bool" where
  "campaign_step net n n' \<longleftrightarrow> role n' = Follower \<or>
     (role n \<noteq> Follower \<and> current_term n' = current_term n \<and> rn_votes_received n' = rn_votes_received n) \<or>
     (current_term n \<noteq> - 1 \<and> current_term n' = current_term n + 1 \<and> voted_for n' = Some (node_id n) \<and>
      rn_votes_received n' = {node_id n}) \<or>
     (\<exists>j r. (node_id n, NmRequestVoteResponse j r) \<in> net \<and> rvr_vote_granted r \<and> role n = Candidate \<and>
        rvr_term r = current_term n \<and> current_term n' = current_term n \<and>
        rn_votes_received n' = insert j (rn_votes_received n))"

definition lead_step :: "'j RaftNode \<Rightarrow> 'j RaftNode \<Rightarrow> bool" where
  "lead_step n n' \<longleftrightarrow> (role n' = Leader \<longrightarrow>
     role n = Leader \<and> current_term n' = current_term n \<or> majority_count (rn_state n) \<le> card (rn_votes_received n'))"

lemma tick_role:
  assumes "current_term n \<noteq> - 1"
  shows "campaign_step net n (fst (tick fs n)) \<and> lead_step n (fst (tick fs n))"
  using assms
  by (cases rule: tick_cases [where n = n and fs = fs]) (simp_all add: campaign_step_def lead_step_def)

lemma dispatch_role:
  assumes "(node_id n, m) \<in> net"
  shows "campaign_step net n (fst (raft_dispatch fs m n)) \<and> lead_step n (fst (raft_dispatch fs m n))"
proof (cases m)
  case (NmRequestVoteResponse j r)
  then show ?thesis
    using assms
    by (auto simp: raft_dispatch_def handle_request_vote_response_def Let_def campaign_step_def lead_step_def
        majority_count_def)
qed (auto simp: raft_dispatch_def handle_request_vote_def handle_append_entries_eq handle_append_entries_response_eq
      Let_def campaign_step_def lead_step_def)

lemma propose_role: "campaign_step net n (fst (propose_actions fs cmd n)) \<and> lead_step n (fst (propose_actions fs cmd n))"
  by (simp add: propose_actions_def propose_eq campaign_step_def lead_step_def)

lemma step_role:
  assumes "raft_step fs dir ps i s s'" and good: "good_fs fs" and n: "node_ok fs ps i (sys_node s i)"
  shows "campaign_step (set (sys_net s)) (sys_node s i) (sys_node s' i) \<and> lead_step (sys_node s i) (sys_node s' i)"
  using assms(1)
proof cases
  case tick_step
  then show ?thesis by (simp add: run_handler_node tick_role)
next
  case (deliver_step m)
  then show ?thesis using n by (simp add: run_handler_node dispatch_role node_ok_def)
next
  case (propose_step cmd)
  then show ?thesis by (simp add: run_handler_node propose_role)
next
  case restart_step
  obtain p where "rn_persister (sys_node s i) = Some p" using n by (auto simp: node_ok_def recoverable_def)
  from restart_simps(4) [OF this] show ?thesis
    using restart_step by (simp add: run_handler_node campaign_step_def lead_step_def)
next
  case (crash_step m)
  then show ?thesis using crash_restart(3) [OF good n] by (simp add: run_handler_node campaign_step_def lead_step_def)
qed

definition campaigns_inv :: "'j json_fs \<Rightarrow> u64 list \<Rightarrow> 'j hist \<Rightarrow> bool" where
  "campaigns_inv fs ps h \<longleftrightarrow> (good_fs fs \<longrightarrow>
     (\<forall>i \<in> set ps. role (h_node h i) \<noteq> Follower \<longrightarrow> current_term (h_node h i) \<noteq> 0 \<and>
        (\<forall>j \<in> rn_votes_received (h_node h i). (j, current_term (h_node h i), i) \<in> h_votes h)))"

lemma campaign_tally:
  assumes "campaign_step net n n'" and "role n' \<noteq> Follower" and "node_id n = i"
    and "role n \<noteq> Follower \<Longrightarrow> current_term n \<noteq> 0 \<and> (\<forall>j \<in> rn_votes_received n. (j, current_term n, i) \<in> V)"
    and "\<And>j r. (i, NmRequestVoteResponse j r) \<in> net \<Longrightarrow> rvr_vote_granted r \<Longrightarrow> (j, rvr_term r, i) \<in> V"
    and "V \<subseteq> V'" and "voted_for n' = Some i \<Longrightarrow> (i, current_term n', i) \<in> V'"
  shows "current_term n' \<noteq> 0 \<and> (\<forall>j \<in> rn_votes_received n'. (j, current_term n', i) \<in> V')"
proof -
  have succ: "x + 1 \<noteq> 0" if "x \<noteq> - 1" for x :: u64
    using word_less_succ [OF that] by auto
  consider
      "role n \<noteq> Follower" "current_term n' = current_term n" "rn_votes_received n' = rn_votes_received n"
    | "current_term n \<noteq> - 1" "current_term n' = current_term n + 1" "voted_for n' = Some i" "rn_votes_received n' = {i}"
    | j r where "(i, NmRequestVoteResponse j r) \<in> net" "rvr_vote_granted r" "role n \<noteq> Follower"
        "rvr_term r = current_term n" "current_term n' = current_term n"
        "rn_votes_received n' = insert j (rn_votes_received n)"
    using assms(1-3) by (auto simp: campaign_step_def)
  then show ?thesis
  proof cases
    case 3
    then have "(j, current_term n, i) \<in> V'" using assms(5) [of j r] assms(6) by auto
    then show ?thesis using 3 assms(4,6) by auto
  qed (use assms(4,6,7) succ in auto)
qed

interpretation campaigns: inductive_invariant
  "\<lambda>h. h = hist_init fs dir ps" "hist_step fs dir ps" "hist_reachable fs dir ps" "campaigns_inv fs ps"
  for fs dir ps
proof
  fix h :: "'a hist"
  show "h = hist_init fs dir ps \<Longrightarrow> campaigns_inv fs ps h"
    by (simp add: campaigns_inv_def hist_init_def raft_init_def)
next
  fix h k :: "'a hist"
  assume r: "hist_reachable fs dir ps h" and inv: "campaigns_inv fs ps h" and st: "hist_step fs dir ps h k"
  show "campaigns_inv fs ps k"
    unfolding campaigns_inv_def
  proof (intro impI ballI)
    fix j
    assume good: "good_fs fs" and j: "j \<in> set ps" and rl: "role (h_node k j) \<noteq> Follower"
    note I = inv [unfolded campaigns_inv_def, rule_format, OF good]
    from st r good show "current_term (h_node k j) \<noteq> 0 \<and>
      (\<forall>q \<in> rn_votes_received (h_node k j). (q, current_term (h_node k j), j) \<in> h_votes k)"
    proof (rule hist_voterE)
      fix i s acts
      assume k: "k = observe i h s" and rs: "raft_step fs dir ps i (h_sys h) s"
        and other: "\<And>j. j \<noteq> i \<Longrightarrow> sys_node s j = h_node h j" and n: "node_ok fs ps i (h_node h i)"
      show ?thesis
      proof (cases "j = i")
        case True
        have "votes_granted h" using votes.holds [OF r] good by (simp add: votes_inv_def)
        then show ?thesis
          using campaign_tally [OF conjunct1 [OF step_role [OF rs good n]], of i "h_votes h" "h_votes k"] rl I j n
          by (auto simp: k True votes_granted_def node_ok_def)
      next
        case False
        then show ?thesis using I [of j] j rl other [of j] by (auto simp: k)
      qed
    qed
  qed
qed

definition leaders_inv :: "'j json_fs \<Rightarrow> u64 list \<Rightarrow> 'j hist \<Rightarrow> bool" where
  "leaders_inv fs ps h \<longleftrightarrow> (good_fs fs \<longrightarrow>
     (\<forall>t i. (t, i) \<in> h_leaders h \<longrightarrow> i \<in> set ps \<and> t \<noteq> 0 \<and> (\<exists>Q. majority ps Q \<and> (\<forall>j \<in> Q. (j, t, i) \<in> h_votes h))) \<and>
     (\<forall>i \<in> set ps. role (h_node h i) = Leader \<longrightarrow> (current_term (h_node h i), i) \<in> h_leaders h))"

lemma reachable_campaign:
  assumes "hist_reachable fs dir ps h" and good: "good_fs fs" and "i \<in> set ps" "role (h_node h i) \<noteq> Follower"
  shows "current_term (h_node h i) \<noteq> 0"
    and "j \<in> rn_votes_received (h_node h i) \<Longrightarrow> j \<in> set ps \<and> (j, current_term (h_node h i), i) \<in> h_votes h"
proof -
  have "current_term (h_node h i) \<noteq> 0 \<and> (\<forall>j \<in> rn_votes_received (h_node h i). (j, current_term (h_node h i), i) \<in> h_votes h)"
    using campaigns.holds [OF assms(1)] assms(2-4) by (simp add: campaigns_inv_def)
  moreover have "votes_recorded ps h" using votes.holds [OF assms(1)] good by (simp add: votes_inv_def)
  ultimately show "current_term (h_node h i) \<noteq> 0"
    and "j \<in> rn_votes_received (h_node h i) \<Longrightarrow> j \<in> set ps \<and> (j, current_term (h_node h i), i) \<in> h_votes h"
    unfolding votes_recorded_def by blast+
qed

text \<open>A node that leads after a step has the votes of a majority: it led before, or was just elected.\<close>

lemma elected_by_majority:
  assumes "hist_reachable fs dir ps (observe i h s)" and "good_fs fs" and "i \<in> set ps"
    and "raft_step fs dir ps i (h_sys h) s" and "node_ok fs ps i (h_node h i)" and lead: "role (sys_node s i) = Leader"
    and old: "role (h_node h i) = Leader \<Longrightarrow>
      \<exists>Q. majority ps Q \<and> (\<forall>q \<in> Q. (q, current_term (h_node h i), i) \<in> h_votes h)"
  shows "\<exists>Q. majority ps Q \<and> (\<forall>q \<in> Q. (q, current_term (sys_node s i), i) \<in> h_votes (observe i h s))"
proof -
  from step_role [OF assms(4,2,5)] lead consider
    "role (h_node h i) = Leader" "current_term (sys_node s i) = current_term (h_node h i)"
    | "length ps div 2 + 1 \<le> card (rn_votes_received (sys_node s i))"
    using assms(5) by (auto simp: lead_step_def node_ok_def majority_count_def)
  then show ?thesis
  proof cases
    case 1
    then show ?thesis using old by fastforce
  next
    case 2
    then show ?thesis
      using reachable_campaign(2) [OF assms(1-3)] lead
      by (intro exI [of _ "rn_votes_received (sys_node s i)"]) (auto simp: majority_def)
  qed
qed

interpretation leaders: inductive_invariant
  "\<lambda>h. h = hist_init fs dir ps" "hist_step fs dir ps" "hist_reachable fs dir ps" "leaders_inv fs ps"
  for fs dir ps
proof
  fix h :: "'a hist"
  show "h = hist_init fs dir ps \<Longrightarrow> leaders_inv fs ps h"
    by (simp add: leaders_inv_def hist_init_def raft_init_def)
next
  fix h k :: "'a hist"
  assume r: "hist_reachable fs dir ps h" and inv: "leaders_inv fs ps h" and st: "hist_step fs dir ps h k"
  then have rk: "hist_reachable fs dir ps k" by (blast intro: hist_next)
  show "leaders_inv fs ps k"
    unfolding leaders_inv_def
  proof (intro impI)
    assume good: "good_fs fs"
    note I = inv [unfolded leaders_inv_def, rule_format, OF good]
    from st r good show "(\<forall>t i. (t, i) \<in> h_leaders k \<longrightarrow> i \<in> set ps \<and> t \<noteq> 0 \<and>
        (\<exists>Q. majority ps Q \<and> (\<forall>j \<in> Q. (j, t, i) \<in> h_votes k))) \<and>
      (\<forall>i \<in> set ps. role (h_node k i) = Leader \<longrightarrow> (current_term (h_node k i), i) \<in> h_leaders k)"
    proof (rule hist_voterE)
      fix i s acts
      assume k: "k = observe i h s" and rs: "raft_step fs dir ps i (h_sys h) s" and i: "i \<in> set ps"
        and other: "\<And>j. j \<noteq> i \<Longrightarrow> sys_node s j = h_node h j" and n: "node_ok fs ps i (h_node h i)"
      have old: "\<exists>Q. majority ps Q \<and> (\<forall>q \<in> Q. (q, t, j) \<in> h_votes k)" if "(t, j) \<in> h_leaders h" for t j
        using I that by (fastforce simp: k)
      have new: "\<exists>Q. majority ps Q \<and> (\<forall>q \<in> Q. (q, current_term (sys_node s i), i) \<in> h_votes k)"
        if lead: "role (sys_node s i) = Leader"
        using rk rs n lead I i unfolding k by (intro elected_by_majority [OF _ good i]) auto
      have "current_term (sys_node s i) \<noteq> 0" if "role (sys_node s i) = Leader"
        using reachable_campaign(1) [OF rk good i] that by (simp add: k)
      moreover have "(current_term (sys_node s j), j) \<in> h_leaders k" if "j \<in> set ps" "role (sys_node s j) = Leader" for j
        using I that other [of j] by (cases "j = i") (auto simp: k)
      ultimately show ?thesis using I old new i by (auto simp: k)
    qed
  qed
qed

subsection \<open>One leader per term\<close>

lemma one_leader_per_term:
  assumes "hist_reachable fs dir ps h" and good: "good_fs fs"
    and "(t, i) \<in> h_leaders h" and "(t, j) \<in> h_leaders h"
  shows "i = j"
proof -
  obtain Q R where Q: "majority ps Q" "\<And>q. q \<in> Q \<Longrightarrow> (q, t, i) \<in> h_votes h"
    and R: "majority ps R" "\<And>q. q \<in> R \<Longrightarrow> (q, t, j) \<in> h_votes h"
    using leaders.holds [OF assms(1)] good assms(3,4) unfolding leaders_inv_def by meson
  have "votes_single h" using votes.holds [OF assms(1)] good by (simp add: votes_inv_def)
  then show ?thesis
    using majority.agreement [where chosen = "\<lambda>q c. (q, t, c) \<in> h_votes h", OF Q(1) R(1) Q(2) R(2)]
    by (auto simp: votes_single_def)
qed

lemma leader_in_history:
  assumes "hist_reachable fs dir ps h" and "good_fs fs" and "i \<in> set ps" and "role (h_node h i) = Leader"
  shows "(current_term (h_node h i), i) \<in> h_leaders h"
  using leaders.holds [OF assms(1)] assms(2-4) by (simp add: leaders_inv_def)

lemma leaders_of_term_agree:
  assumes "good_fs fs" and "raft_reachable fs dir ps s" and "raft_steps fs dir ps s s'"
    and "i \<in> set ps" and "role (sys_node s i) = Leader"
    and "j \<in> set ps" and "role (sys_node s' j) = Leader"
    and "current_term (sys_node s i) = current_term (sys_node s' j)"
  shows "i = j"
proof -
  obtain h where h: "hist_reachable fs dir ps h" "h_sys h = s"
    using reachable_has_history [OF assms(2)] by blast
  then obtain k where k: "hist_reachable fs dir ps k" "hist_steps fs dir ps h k" "h_sys k = s'"
    using steps_have_history [OF assms(3)] by blast
  have "(current_term (sys_node s i), i) \<in> h_leaders h"
    using leader_in_history [OF h(1) assms(1,4)] assms(5) h(2) by simp
  then have "(current_term (sys_node s i), i) \<in> h_leaders k" using history_grows [OF k(2)] by blast
  moreover have "(current_term (sys_node s i), j) \<in> h_leaders k"
    using leader_in_history [OF k(1) assms(1,6)] assms(7,8) k(3) by simp
  ultimately show ?thesis by (rule one_leader_per_term [OF k(1) assms(1)])
qed

text \<open>
  C1. Election safety. Over a whole run, with messages delayed, reordered, duplicated or lost and
  nodes crashing and restarting, no two different nodes are ever leader of the same term: not at
  the same moment (\<open>s' = s\<close>) and not at different ones.
\<close>

theorem election_safety:
  assumes "good_fs fs" and "raft_reachable fs dir ps s" and "raft_steps fs dir ps s s'"
    and "i \<in> set ps" and "role (sys_node s i) = Leader"
    and "j \<in> set ps" and "role (sys_node s' j) = Leader"
    and "current_term (sys_node s i) = current_term (sys_node s' j)"
  shows "i = j"
  using assms by (rule leaders_of_term_agree)

text \<open>A run in which node 2 of three is elected, and then restarts.\<close>

definition election_run :: "raft_event list" where
  "election_run = [Ticks 2 37, Deliver 1 0, Deliver 2 2]"

lemma election_run_result:
  "case run_events memory_fs (\<lambda>_. ''data'') [1, 2, 3] election_run (raft_init memory_fs (\<lambda>_. ''data'') [1, 2, 3]) of
     None \<Rightarrow> False
   | Some s \<Rightarrow> role (sys_node s 2) = Leader \<and> current_term (sys_node s 2) = 1 \<and>
       current_term (sys_node s 1) = 1 \<and> voted_for (sys_node s 1) = Some 2"
  by code_simp

lemma election_run_reachable:
  obtains s where "raft_reachable memory_fs (\<lambda>_. ''data'') [1, 2, 3] s" "role (sys_node s 2) = Leader"
    "current_term (sys_node s 2) = 1"
  using election_run_result run_events_reachable by (fastforce split: option.splits)

theorem election_safety_witness:
  "\<exists>s. raft_reachable memory_fs (\<lambda>_. ''data'') [1, 2, 3] s \<and> role (sys_node s 2) = Leader \<and>
     \<not> (role (sys_node s 1) = Leader \<and> current_term (sys_node s 2) = current_term (sys_node s 1))"
proof -
  obtain s where s: "raft_reachable memory_fs (\<lambda>_. ''data'') [1, 2, 3] s" "role (sys_node s 2) = Leader"
    by (rule election_run_reachable)
  then show ?thesis
    using election_safety [OF good_memory_fs s(1) steps_refl, of 2 1] by auto
qed

text \<open>
  C8. A vote is for life: once a node has voted in a term, then in every later state in which it
  is still in that term, restarts included, it has voted for the same candidate.
\<close>

theorem vote_is_final:
  assumes "good_fs fs" and "raft_reachable fs dir ps s" and "raft_steps fs dir ps s s'" and "i \<in> set ps"
    and "voted_for (sys_node s i) = Some v"
  shows "current_term (sys_node s i) \<le> current_term (sys_node s' i) \<and>
    (current_term (sys_node s' i) = current_term (sys_node s i) \<longrightarrow> voted_for (sys_node s' i) = Some v)"
proof -
  obtain h where h: "hist_reachable fs dir ps h" "h_sys h = s"
    using reachable_has_history [OF assms(2)] by blast
  then obtain k where k: "hist_reachable fs dir ps k" "hist_steps fs dir ps h k" "h_sys k = s'"
    using steps_have_history [OF assms(3)] by blast
  have "(i, current_term (sys_node s i), v) \<in> h_votes h"
    using votes.holds [OF h(1)] assms(1,4,5) h(2) by (simp add: votes_inv_def votes_recorded_def)
  then have "(i, current_term (sys_node s i), v) \<in> h_votes k" using history_grows [OF k(2)] by blast
  moreover have "votes_held k" using votes.holds [OF k(1)] assms(1) by (simp add: votes_inv_def)
  ultimately show ?thesis using k(3) unfolding votes_held_def by metis
qed

theorem vote_is_final_witness:
  "\<exists>s s'. raft_steps memory_fs (\<lambda>_. ''data'') [1, 2, 3] s s' \<and> voted_for (sys_node s 1) = Some 2 \<and>
     s' = run_handler 1 (\<lambda>n. (restart memory_fs ''data'' n, [])) s \<and>
     current_term (sys_node s 1) \<le> current_term (sys_node s' 1)"
proof -
  obtain s where s: "raft_reachable memory_fs (\<lambda>_. ''data'') [1, 2, 3] s" "voted_for (sys_node s 1) = Some 2"
    using election_run_result run_events_reachable by (fastforce split: option.splits)
  let ?s = "run_handler 1 (\<lambda>n. (restart memory_fs ''data'' n, [])) s"
  have "raft_steps memory_fs (\<lambda>_. ''data'') [1, 2, 3] s ?s"
    by (rule steps_step [OF steps_refl restart_step]) simp
  then show ?thesis using vote_is_final [OF good_memory_fs s(1), of ?s 1 2] s(2) by auto
qed

end
