(* ===== verification/Log_Matching.thy ===== *)
theory Log_Matching
  imports Election_Safety
begin

text \<open>
  The Log Matching property: if two logs hold entries of the same term at the same index, they are
  identical up to there. The history keeps, for every term, the log of its leader; each entry of
  each log is shown to come, with everything before it, from the log of the leader of its term
  (\<open>consistent\<close>), and since a term has one leader, two such logs agree.
\<close>

subsection \<open>Logs that come from leaders\<close>

definition consistent :: "u64 set \<Rightarrow> (u64 \<Rightarrow> RaftLog) \<Rightarrow> RaftLog \<Rightarrow> bool" where
  "consistent T ll l \<longleftrightarrow> log_ok l \<and>
     (\<forall>k. 0 < k \<longrightarrow> k < length l \<longrightarrow> le_term (l ! k) \<in> T \<and> le_term (l ! k) \<noteq> 0 \<and>
        k < length (ll (le_term (l ! k))) \<and> take (Suc k) (ll (le_term (l ! k))) = take (Suc k) l)"

lemma consistentD:
  assumes "consistent T ll l" and "0 < k" and "k < length l"
  shows "le_term (l ! k) \<in> T" "le_term (l ! k) \<noteq> 0" "k < length (ll (le_term (l ! k)))"
    "take (Suc k) (ll (le_term (l ! k))) = take (Suc k) l"
  using assms by (auto simp: consistent_def)

lemma consistent_log_ok: "consistent T ll l \<Longrightarrow> log_ok l"
  by (simp add: consistent_def)

lemma consistent_new: "consistent T ll log_new"
  by (simp add: consistent_def log_new_def log_ok_def)

lemma consistent_matching:
  assumes "consistent T ll l" and "consistent T ll l'" and "k < length l" and "k < length l'"
    and "le_term (l ! k) = le_term (l' ! k)"
  shows "take (Suc k) l = take (Suc k) l'"
proof (cases "k = 0")
  case True
  then show ?thesis using assms(1,2) by (simp add: consistent_def log_ok_take_1)
next
  case False
  then have "take (Suc k) l = take (Suc k) (ll (le_term (l ! k)))"
    using consistentD(4) [OF assms(1) _ assms(3)] by simp
  also have "\<dots> = take (Suc k) l'"
    using consistentD(4) [OF assms(2) _ assms(4)] False assms(5) by simp
  finally show ?thesis .
qed

lemma consistent_take:
  assumes "consistent T ll l" and "0 < n"
  shows "consistent T ll (take n l)"
  using assms by (auto simp: consistent_def log_ok_take min_def)

lemma consistent_mono:
  assumes "consistent T ll l" and "T \<subseteq> T'" and "\<And>u. u \<in> T \<Longrightarrow> \<exists>xs. ll' u = ll u @ xs"
  shows "consistent T' ll' l"
  unfolding consistent_def
proof (intro conjI allI impI)
  fix k
  assume k: "0 < k" "k < length l"
  note d = consistentD [OF assms(1) k]
  obtain xs where "ll' (le_term (l ! k)) = ll (le_term (l ! k)) @ xs" using assms(3) d(1) by blast
  then show "le_term (l ! k) \<in> T'" "le_term (l ! k) \<noteq> 0" "k < length (ll' (le_term (l ! k)))"
    "take (Suc k) (ll' (le_term (l ! k))) = take (Suc k) l"
    using d assms(2) by auto
qed (rule consistent_log_ok [OF assms(1)])

lemma consistent_snoc:
  assumes "consistent T ll l" and "ll (le_term e) = l @ [e]" and "le_term e \<in> T" and "le_term e \<noteq> 0"
  shows "consistent T ll (l @ [e])"
  unfolding consistent_def
proof (intro conjI allI impI)
  fix k
  assume k: "0 < k" "k < length (l @ [e])"
  show "le_term ((l @ [e]) ! k) \<in> T" "le_term ((l @ [e]) ! k) \<noteq> 0" "k < length (ll (le_term ((l @ [e]) ! k)))"
    "take (Suc k) (ll (le_term ((l @ [e]) ! k))) = take (Suc k) (l @ [e])"
    using k assms consistentD [OF assms(1) k(1)] by (cases "k < length l"; auto simp: nth_append)+
qed (use assms(1) in \<open>simp add: consistent_def\<close>)

text \<open>Two logs that hold the same entries up to an index.\<close>

definition agrees :: "RaftLog \<Rightarrow> RaftLog \<Rightarrow> usize \<Rightarrow> bool" where
  "agrees l g k \<longleftrightarrow> k < length l \<and> k < length g \<and> take (Suc k) l = take (Suc k) g"

lemma agrees_refl [simp]: "agrees l l k \<longleftrightarrow> k < length l"
  by (simp add: agrees_def)

lemma agrees_sym: "agrees l g k \<Longrightarrow> agrees g l k"
  by (simp add: agrees_def)

lemma agrees_trans: "agrees l g k \<Longrightarrow> agrees g f k \<Longrightarrow> agrees l f k"
  by (simp add: agrees_def)

lemma agrees_le:
  assumes "agrees l g k" and "j \<le> k"
  shows "agrees l g j"
proof -
  have "take (Suc j) (take (Suc k) l) = take (Suc j) (take (Suc k) g)" using assms(1) by (simp add: agrees_def)
  then show ?thesis using assms by (simp add: agrees_def min_def)
qed

lemma agrees_nth: "agrees l g k \<Longrightarrow> j \<le> k \<Longrightarrow> l ! j = g ! j"
  by (metis agrees_def agrees_le lessI nth_take)

lemma agrees_term_at: "agrees l g k \<Longrightarrow> j \<le> k \<Longrightarrow> term_at l j = le_term (g ! j) \<and> j < length l"
  using agrees_le [of l g k j] agrees_nth [of l g k j] by (simp add: agrees_def term_at_in)

lemma agrees_append1: "agrees l g k \<Longrightarrow> agrees (l @ xs) g k"
  by (simp add: agrees_def)

lemma agrees_append2: "agrees l g k \<Longrightarrow> agrees l (g @ xs) k"
  by (simp add: agrees_def)

lemma agrees_take: "k < m \<Longrightarrow> k < length g \<Longrightarrow> agrees (take m g) g k"
  by (simp add: agrees_def min_def)

lemma agrees_prefix: "l = take (length l) g \<Longrightarrow> k < length l \<Longrightarrow> agrees l g k"
  by (metis agrees_take length_take min_less_iff_conj)

text \<open>
  An accepted AppendEntries whose entries are a segment of a leader's log leaves either the
  follower's log as it was or a prefix of the leader's.
\<close>

lemma agree_up_to:
  assumes "consistent T ll l" and "consistent T ll g" and "k < length g" and "term_at l k = le_term (g ! k)"
  shows "take (Suc k) l = take (Suc k) g \<and> k < length l"
proof -
  have "k < length l"
  proof (cases "k = 0")
    case True
    then show ?thesis using assms(1) by (simp add: consistent_def log_ok_def)
  next
    case False
    then have "term_at l k \<noteq> 0" using consistentD(2) [OF assms(2) _ assms(3)] assms(4) by simp
    then show ?thesis using term_at_out [of l k] by force
  qed
  then show ?thesis using consistent_matching [OF assms(1,2) _ assms(3)] assms(4) by (simp add: term_at_in)
qed

lemma merged_by_leader:
  assumes l: "consistent T ll l" and g: "consistent T ll g" and es: "es \<noteq> []"
    and seg: "es = take (length es) (drop (prev + 1) g)" "prev < length g"
    and prev: "term_at l prev = le_term (g ! prev)"
  obtains (kept) "merged_log l prev es = l" "agrees l g (prev + length es)"
    | (replaced) m where "merged_log l prev es = take (prev + 1 + length es) g" "prev + 1 + length es \<le> length g"
        "m < length es" "prev + 1 + m > last_index l \<or> term_at l (prev + 1 + m) \<noteq> le_term (g ! (prev + 1 + m))"
proof -
  have len: "prev + 1 + length es \<le> length g"
    using arg_cong [OF seg(1), of length] seg(2) by (simp add: min_def split: if_splits)
  have at: "es ! k = g ! (prev + 1 + k)" if "k < length es" for k
    by (subst seg(1)) (use that len in simp)
  show ?thesis
  proof (cases rule: merged_log_cases [where l = l and prev = prev and es = es])
    case unchanged
    let ?k = "length es - 1"
    have k: "?k < length es" "prev + 1 + ?k = prev + length es" using es by (cases es, auto)+
    have "term_at l (prev + 1 + ?k) = le_term (es ! ?k)" using unchanged(2) k(1) by blast
    then have "term_at l (prev + length es) = le_term (g ! (prev + length es))" unfolding at [OF k(1)] k(2) .
    from agree_up_to [OF l g _ this] len have "agrees l g (prev + length es)" by (simp add: agrees_def)
    then show ?thesis using unchanged(1) kept by blast
  next
    case (replaced m)
    have "take (prev + 1 + m) l = take (prev + 1 + m) g"
    proof (cases m)
      case 0
      then show ?thesis using agree_up_to [OF l g seg(2) prev] by simp
    next
      case (Suc k)
      then have "term_at l (prev + 1 + k) = le_term (g ! (prev + 1 + k))"
        using replaced(1,3) at [of k] by simp
      then show ?thesis using agree_up_to [OF l g, of "prev + 1 + k"] Suc replaced(1) len by simp
    qed
    then have "merged_log l prev es = take (prev + 1 + m) g @ drop m (take (length es) (drop (prev + 1) g))"
      using replaced(2) seg(1) by simp
    also have "\<dots> = take (prev + 1 + length es) g"
      using replaced(1) by (simp add: drop_take take_add [symmetric] add.commute [of m])
    finally show ?thesis using replaced(1,4) at [OF replaced(1)] len that(2) [of m] by simp
  qed
qed

lemma consistent_merge:
  assumes l: "consistent T ll l" and g: "consistent T ll g"
    and seg: "es = take (length es) (drop (prev + 1) g)" "prev < length g"
    and prev: "term_at l prev = le_term (g ! prev)"
  shows "consistent T ll (merged_log l prev es)"
proof (cases "es = []")
  case False
  from l g False seg prev show ?thesis
    by (cases rule: merged_by_leader) (simp_all add: l consistent_take [OF g])
qed (simp add: l)

subsection \<open>What a step does to logs and messages\<close>

text \<open>A node never returns to candidacy within a term, and a leader's next indices are positive.\<close>

definition next_positive :: "'j RaftNode \<Rightarrow> bool" where
  "next_positive n \<longleftrightarrow> (\<forall>p i. (p, i) \<in> set (rs_next_index (rn_state n)) \<longrightarrow> 0 < i)"

definition log_step :: "(u64 \<times> NetworkMessage) set \<Rightarrow> 'j RaftNode \<Rightarrow> 'j RaftNode \<Rightarrow> bool" where
  "log_step net n n' \<longleftrightarrow> node_log n' = node_log n \<or>
     (role n = Leader \<and> role n' = Leader \<and> current_term n' = current_term n \<and>
      (\<exists>cmd. node_log n' = node_log n @ [\<lparr>le_term = current_term n, le_command = cmd\<rparr>])) \<or>
     (role n' = Follower \<and> (\<exists>c r. (node_id n, NmAppendEntries c r) \<in> net \<and> ae_entries r \<noteq> [] \<and>
        ae_term r = current_term n' \<and> term_at (node_log n) (ae_prev_log_index r) = ae_prev_log_term r \<and>
        node_log n' = merged_log (node_log n) (ae_prev_log_index r) (ae_entries r)))"

definition send_step :: "'j RaftNode \<Rightarrow> Action list \<Rightarrow> bool" where
  "send_step n' acts \<longleftrightarrow> (\<forall>c r. SendAppendEntries c r \<in> set acts \<longrightarrow>
     role n' = Leader \<and> ae_term r = current_term n' \<and>
     (\<exists>p i. (p, i) \<in> set (rs_next_index (rn_state n')) \<and> ae_prev_log_index r = i - 1 \<and>
        ae_prev_log_term r = term_at (node_log n') (i - 1) \<and> ae_entries r = drop i (node_log n')))"

definition repl_step :: "(u64 \<times> NetworkMessage) set \<Rightarrow> 'j RaftNode \<Rightarrow> 'j RaftNode \<Rightarrow> Action list \<Rightarrow> bool" where
  "repl_step net n n' acts \<longleftrightarrow> log_step net n n' \<and> send_step n' acts \<and>
     (next_positive n \<longrightarrow> next_positive n') \<and>
     (role n' = Candidate \<longrightarrow> current_term n' = current_term n \<longrightarrow> role n = Candidate) \<and>
     (role n' = Leader \<longrightarrow> role n = Leader \<and> current_term n' = current_term n \<or>
        role n = Candidate \<and> current_term n' = current_term n \<or> current_term n < current_term n')"

lemma become_leader_next: "(p, i) \<in> set (rs_next_index (become_leader s)) \<Longrightarrow> 0 < i"
  by (auto simp: become_leader_def Let_def)

lemma next_positive_persist [simp]: "next_positive (persist fs n) = next_positive n"
  by (simp add: next_positive_def)

lemma send_step_replicate:
  assumes "set acts \<subseteq> set (replicate_to_all_peers n) \<union> A" and "\<And>c r. SendAppendEntries c r \<notin> A"
    and "role n' = Leader" and "current_term n' = current_term n" and "node_log n' = node_log n"
    and "rs_next_index (rn_state n') = rs_next_index (rn_state n)"
  shows "send_step n' acts"
  unfolding send_step_def
proof (intro allI impI)
  fix c r
  assume "SendAppendEntries c r \<in> set acts"
  then have "SendAppendEntries c r \<in> set (replicate_to_all_peers n)" using assms(1,2) by blast
  from replicate_to_all_peersD [OF this] show "role n' = Leader \<and> ae_term r = current_term n' \<and>
     (\<exists>p i. (p, i) \<in> set (rs_next_index (rn_state n')) \<and> ae_prev_log_index r = i - 1 \<and>
        ae_prev_log_term r = term_at (node_log n') (i - 1) \<and> ae_entries r = drop i (node_log n'))"
    using assms(3-6) by (auto; blast)
qed

lemma start_election_repl:
  assumes "current_term n \<noteq> - 1"
  shows "repl_step net n (fst (start_election fs n)) (snd (start_election fs n))"
proof -
  have "send_step (fst (start_election fs n)) (snd (start_election fs n))"
  proof (cases "majority_count (rn_state n) \<le> 1")
    case True
    then show ?thesis
      by (intro send_step_replicate [where n = "fst (start_election fs n)" and A = "{}"])
        (auto simp: start_election_def Let_def send_heartbeats_def)
  next
    case False
    then show ?thesis by (auto simp: start_election_def Let_def send_step_def)
  qed
  moreover have "next_positive n \<longrightarrow> next_positive (fst (start_election fs n))"
    by (auto simp: start_election_def Let_def next_positive_def dest: become_leader_next)
  ultimately show ?thesis
    using word_less_succ [OF assms] by (auto simp: repl_step_def log_step_def)
qed

lemma tick_repl:
  assumes "current_term n \<noteq> - 1"
  shows "repl_step net n (fst (tick fs n)) (snd (tick fs n))"
proof (cases rule: tick_cases [where n = n and fs = fs])
  case idle
  then show ?thesis by (simp add: repl_step_def log_step_def send_step_def next_positive_def)
next
  case election
  then show ?thesis
    using start_election_repl [of "tick_timer n" net fs] assms
    by (simp add: repl_step_def log_step_def next_positive_def)
next
  case leader
  have "send_step (fst (tick_heartbeat n)) (snd (tick_heartbeat n))"
    by (rule send_step_replicate [where n = "fst (tick_heartbeat n)" and A = "{}"])
      (auto simp: tick_heartbeat_def Let_def send_heartbeats_def leader)
  then show ?thesis using leader by (simp add: repl_step_def log_step_def next_positive_def)
qed

lemma send_step_none: "(\<And>c r. SendAppendEntries c r \<notin> set acts) \<Longrightarrow> send_step n acts"
  by (simp add: send_step_def)

lemma repl_step_quiet:
  assumes "node_log n' = node_log n" and "\<And>c r. SendAppendEntries c r \<notin> set acts"
    and "next_positive n \<Longrightarrow> next_positive n'" and "role n' = Follower \<or> role n' = role n \<and> current_term n' = current_term n"
  shows "repl_step net n n' acts"
  using assms by (cases "role n'") (auto simp: repl_step_def log_step_def send_step_def)

lemma request_vote_repl: "repl_step net n (fst (handle_request_vote fs req n)) (snd (handle_request_vote fs req n))"
  by (rule repl_step_quiet) (auto simp: handle_request_vote_def Let_def next_positive_def)

lemma request_vote_response_repl:
  "repl_step net n (fst (handle_request_vote_response fs j resp n)) (snd (handle_request_vote_response fs j resp n))"
proof -
  let ?n = "fst (handle_request_vote_response fs j resp n)"
  let ?a = "snd (handle_request_vote_response fs j resp n)"
  have "(role ?n = Follower \<or> role ?n = role n \<and> current_term ?n = current_term n) \<and> ?a = [] \<or>
    role n = Candidate \<and> role ?n = Leader \<and> current_term ?n = current_term n \<and> ?a = replicate_to_all_peers ?n"
    (is "?stay \<or> ?won")
    by (simp add: handle_request_vote_response_def Let_def send_heartbeats_def)
  moreover have pos: "next_positive n \<Longrightarrow> next_positive ?n"
    by (auto simp: handle_request_vote_response_def Let_def next_positive_def dest: become_leader_next)
  moreover have same: "node_log ?n = node_log n" by (simp add: handle_request_vote_response_def Let_def)
  moreover have ?thesis if ?stay
    using that pos same by (intro repl_step_quiet) auto
  moreover have ?thesis if ?won
  proof -
    have "send_step ?n ?a" using that by (intro send_step_replicate [where n = ?n and A = "{}"]) auto
    then show ?thesis using that pos same by (simp add: repl_step_def log_step_def)
  qed
  ultimately show ?thesis by blast
qed

lemma append_entries_repl:
  assumes "(node_id n, NmAppendEntries c req) \<in> net"
  shows "repl_step net n (fst (handle_append_entries fs req n)) (snd (handle_append_entries fs req n))"
proof -
  let ?h = "handle_append_entries fs req n"
  have "next_positive n \<longrightarrow> next_positive (fst ?h)"
    by (auto simp: handle_append_entries_eq follow_commit_def apply_committed_entries_eq append_new_entries_def
        accept_leader_def next_positive_def Let_def split: prod.splits)
  moreover have "send_step (fst ?h) (snd ?h)"
    by (rule send_step_none) (auto simp: handle_append_entries_eq dest: follow_commit_actions)
  moreover have "log_step net n (fst ?h)"
    using assms by (cases "ae_entries req = []") (auto simp: handle_append_entries_eq log_step_def)
  ultimately show ?thesis by (auto simp: repl_step_def handle_append_entries_eq)
qed

lemma update_first_positive:
  assumes "(p, i) \<in> set (update_first q f xs)" and "\<And>p i. (p, i) \<in> set xs \<Longrightarrow> 0 < i" and "\<And>i. 0 < i \<Longrightarrow> 0 < f i"
  shows "0 < i"
  using assms by (induction q f xs rule: update_first.induct) (auto split: if_splits)

lemma note_response_positive: "next_positive n \<Longrightarrow> next_positive (n\<lparr>rn_state := note_response j resp (rn_state n)\<rparr>)"
  unfolding next_positive_def
  by (auto simp: note_response_def split: option.splits if_splits elim!: update_first_positive)

lemma append_entries_response_repl:
  "repl_step net n (fst (handle_append_entries_response fs j resp n)) (snd (handle_append_entries_response fs j resp n))"
proof (rule repl_step_quiet)
  show "SendAppendEntries c r \<notin> set (snd (handle_append_entries_response fs j resp n))" for c r
    by (auto simp: handle_append_entries_response_eq dest: maybe_advance_actions)
  show "next_positive n \<Longrightarrow> next_positive (fst (handle_append_entries_response fs j resp n))"
    using note_response_positive [of n j resp]
    by (auto simp: handle_append_entries_response_eq next_positive_def)
qed (auto simp: handle_append_entries_response_eq)

lemma propose_repl: "repl_step net n (fst (propose_actions fs cmd n)) (snd (propose_actions fs cmd n))"
proof (cases "role n = Leader")
  case True
  let ?p = "proposed fs cmd n"
  have "send_step (fst (propose_actions fs cmd n)) (snd (propose_actions fs cmd n))"
    by (rule send_step_replicate [where n = ?p and A = "set (snd (maybe_advance_commit_index ?p))"])
      (auto simp: propose_actions_def propose_eq True dest: maybe_advance_actions)
  then show ?thesis
    using True by (auto simp: propose_actions_def propose_eq repl_step_def log_step_def next_positive_def)
next
  case False
  then show ?thesis by (intro repl_step_quiet) (auto simp: propose_actions_def propose_eq)
qed

lemma restart_repl:
  assumes "recoverable fs m" and "node_log (restart fs dir m) = node_log n"
  shows "repl_step net n (restart fs dir m) []"
proof -
  have "rn_persister m \<noteq> None" using recoverable_persister [OF assms(1)] .
  then have "role (restart fs dir m) = Follower \<and> next_positive (restart fs dir m)"
    by (auto simp: restart_def with_persistence_def blank_node_def state_new_def next_positive_def Let_def
        split: option.splits sum.splits)
  then show ?thesis using assms(2) by (intro repl_step_quiet) auto
qed

lemma step_repl:
  assumes "raft_step fs dir ps i s s'" and good: "good_fs fs" and n: "node_ok fs ps i (sys_node s i)"
  obtains acts where "sys_net s' = sys_net s @ List.map_filter (action_message i) acts"
    "\<And>j. j \<noteq> i \<Longrightarrow> sys_node s' j = sys_node s j"
    "repl_step (set (sys_net s)) (sys_node s i) (sys_node s' i) acts"
  using assms(1)
proof cases
  case tick_step
  then show ?thesis using that [of "snd (tick fs (sys_node s i))"] by (simp add: run_handler_node run_handler_net tick_repl)
next
  case (deliver_step m)
  then have "(node_id (sys_node s i), m) \<in> set (sys_net s)" using n by (simp add: node_ok_def)
  then have "repl_step (set (sys_net s)) (sys_node s i) (fst (raft_dispatch fs m (sys_node s i)))
      (snd (raft_dispatch fs m (sys_node s i)))"
    by (cases m) (auto simp: raft_dispatch_def request_vote_repl request_vote_response_repl
        append_entries_response_repl intro: append_entries_repl)
  with deliver_step show ?thesis
    using that [of "snd (raft_dispatch fs m (sys_node s i))"] by (simp add: run_handler_node run_handler_net)
next
  case (propose_step cmd)
  then show ?thesis using that [of "snd (propose_actions fs cmd (sys_node s i))"] by (simp add: run_handler_node run_handler_net propose_repl)
next
  case restart_step
  have "repl_step (set (sys_net s)) (sys_node s i) (restart fs (dir i) (sys_node s i)) []"
    using n restart_recoverable(3) by (intro restart_repl) (auto simp: node_ok_def)
  with restart_step show ?thesis using that [of "[]"] by (simp add: run_handler_node run_handler_net List.map_filter_def)
next
  case (crash_step m)
  have "node_ok fs ps i (first_save fs m (sys_node s i))" by (rule first_save_ok [OF good n])
  then have "repl_step (set (sys_net s)) (sys_node s i) (restart fs (dir i) (first_save fs m (sys_node s i))) []"
    using crash_restart(2) [OF good n] by (intro restart_repl) (auto simp: node_ok_def)
  with crash_step show ?thesis using that [of "[]"] by (simp add: run_handler_node run_handler_net List.map_filter_def)
qed

subsection \<open>The invariant\<close>

definition segment_of :: "RaftLog \<Rightarrow> AppendEntriesRequest \<Rightarrow> bool" where
  "segment_of g r \<longleftrightarrow> ae_entries r = [] \<or>
     ae_prev_log_index r < length g \<and> ae_prev_log_term r = le_term (g ! ae_prev_log_index r) \<and>
     ae_entries r = take (length (ae_entries r)) (drop (ae_prev_log_index r + 1) g)"

abbreviation led :: "'j hist \<Rightarrow> u64 set" where
  "led h \<equiv> fst ` h_leaders h"

definition terms_inv :: "'j json_fs \<Rightarrow> u64 list \<Rightarrow> 'j hist \<Rightarrow> bool" where
  "terms_inv fs ps h \<longleftrightarrow> (good_fs fs \<longrightarrow> (\<forall>i \<in> set ps. next_positive (h_node h i)) \<and>
     (\<forall>t i. (t, i) \<in> h_leaders h \<longrightarrow> t \<le> current_term (h_node h i) \<and>
        (t = current_term (h_node h i) \<longrightarrow> role (h_node h i) \<noteq> Candidate)))"

definition logs_inv :: "'j json_fs \<Rightarrow> u64 list \<Rightarrow> 'j hist \<Rightarrow> bool" where
  "logs_inv fs ps h \<longleftrightarrow> (good_fs fs \<longrightarrow>
     (\<forall>i \<in> set ps. consistent (led h) (h_llog h) (node_log (h_node h i))) \<and>
     (\<forall>t \<in> led h. consistent (led h) (h_llog h) (h_llog h t)) \<and>
     (\<forall>i \<in> set ps. role (h_node h i) = Leader \<longrightarrow> h_llog h (current_term (h_node h i)) = node_log (h_node h i)) \<and>
     (\<forall>c j r. (c, NmAppendEntries j r) \<in> set (sys_net (h_sys h)) \<longrightarrow> ae_term r \<in> led h \<and> segment_of (h_llog h (ae_term r)) r))"

lemma segment_of_append: "segment_of g r \<Longrightarrow> segment_of (g @ xs) r"
proof -
  assume s: "segment_of g r"
  show ?thesis
  proof (cases "ae_entries r = []")
    case False
    with s have p: "ae_prev_log_index r < length g"
      and e: "ae_entries r = take (length (ae_entries r)) (drop (ae_prev_log_index r + 1) g)"
      by (auto simp: segment_of_def)
    have "length (ae_entries r) \<le> length (drop (ae_prev_log_index r + 1) g)"
      using arg_cong [OF e, of length] by simp
    then show ?thesis using s p by (auto simp: segment_of_def nth_append)
  qed (simp add: segment_of_def)
qed

lemma sent_segment:
  assumes "send_step n acts" and "SendAppendEntries c r \<in> set acts" and "next_positive n"
  shows "role n = Leader \<and> ae_term r = current_term n \<and> segment_of (node_log n) r"
proof -
  obtain p i where "role n = Leader" "ae_term r = current_term n" "(p, i) \<in> set (rs_next_index (rn_state n))"
    and r: "ae_prev_log_index r = i - 1" "ae_prev_log_term r = term_at (node_log n) (i - 1)"
      "ae_entries r = drop i (node_log n)"
    using assms(1,2) unfolding send_step_def by blast
  moreover have "0 < i" using assms(3) calculation(3) by (auto simp: next_positive_def)
  moreover have "segment_of (node_log n) r"
  proof (cases "i < length (node_log n)")
    case True
    then show ?thesis using r \<open>0 < i\<close> by (simp add: segment_of_def term_at_in)
  next
    case False
    then show ?thesis using r by (simp add: segment_of_def)
  qed
  ultimately show ?thesis by blast
qed

lemma hist_replE:
  assumes "hist_step fs dir ps h k" and "hist_reachable fs dir ps h" and "good_fs fs"
  obtains i s acts where
    "k = observe i h s" "raft_step fs dir ps i (h_sys h) s" "i \<in> set ps"
    "\<And>j. j \<noteq> i \<Longrightarrow> sys_node s j = h_node h j"
    "sys_net s = sys_net (h_sys h) @ List.map_filter (action_message i) acts"
    "node_ok fs ps i (h_node h i)"
    "current_term (h_node h i) \<le> current_term (sys_node s i)"
    "repl_step (set (sys_net (h_sys h))) (h_node h i) (sys_node s i) acts"
  using assms
proof (rule hist_voterE)
  fix i s acts
  assume k: "k = observe i h s" and st: "raft_step fs dir ps i (h_sys h) s" and i: "i \<in> set ps"
    and n: "node_ok fs ps i (h_node h i)" and v: "voter_step (h_node h i) (sys_node s i) acts"
  have "current_term (h_node h i) \<le> current_term (sys_node s i)" using v by (simp add: voter_step_def)
  from st assms(3) n show ?thesis
    by (rule step_repl) (rule that [OF k st i _ _ n \<open>current_term _ \<le> _\<close>], assumption+)
qed

interpretation terms: inductive_invariant
  "\<lambda>h. h = hist_init fs dir ps" "hist_step fs dir ps" "hist_reachable fs dir ps" "terms_inv fs ps"
  for fs dir ps
proof
  fix h :: "'a hist"
  show "h = hist_init fs dir ps \<Longrightarrow> terms_inv fs ps h"
    by (auto simp: terms_inv_def hist_init_def raft_init_def next_positive_def fresh_node_def
        with_persistence_def persister_new_def load_def blank_node_def state_new_def Let_def)
next
  fix h k :: "'a hist"
  assume r: "hist_reachable fs dir ps h" and inv: "terms_inv fs ps h" and st: "hist_step fs dir ps h k"
  show "terms_inv fs ps k"
    unfolding terms_inv_def
  proof (intro impI)
    assume good: "good_fs fs"
    note I = inv [unfolded terms_inv_def, rule_format, OF good]
    from st r good show "(\<forall>i \<in> set ps. next_positive (h_node k i)) \<and>
     (\<forall>t i. (t, i) \<in> h_leaders k \<longrightarrow> t \<le> current_term (h_node k i) \<and>
        (t = current_term (h_node k i) \<longrightarrow> role (h_node k i) \<noteq> Candidate))"
    proof (rule hist_replE)
      fix i s acts
      assume k: "k = observe i h s" and other: "\<And>j. j \<noteq> i \<Longrightarrow> sys_node s j = h_node h j"
        and mono: "current_term (h_node h i) \<le> current_term (sys_node s i)"
        and rp: "repl_step (set (sys_net (h_sys h))) (h_node h i) (sys_node s i) acts"
      have "next_positive (sys_node s j)" if "j \<in> set ps" for j
        using I rp other [of j] that by (cases "j = i") (auto simp: repl_step_def)
      moreover have "t \<le> current_term (sys_node s j) \<and> (t = current_term (sys_node s j) \<longrightarrow> role (sys_node s j) \<noteq> Candidate)"
        if l: "(t, j) \<in> h_leaders h" for t j
      proof (cases "j = i")
        case True
        have "t \<le> current_term (h_node h i)" "t = current_term (h_node h i) \<Longrightarrow> role (h_node h i) \<noteq> Candidate"
          using I l True by auto
        then show ?thesis using mono rp True by (auto simp: repl_step_def)
      qed (use I l other in auto)
      ultimately show ?thesis by (auto simp: k)
    qed
  qed
qed

text \<open>A node that becomes leader does so in a term that had no leader before.\<close>

lemma new_leader_fresh:
  assumes r: "hist_reachable fs dir ps h" and st: "hist_step fs dir ps h (observe i h s)" and good: "good_fs fs"
    and rp: "repl_step net (h_node h i) (sys_node s i) acts"
    and lead: "role (sys_node s i) = Leader" and old: "current_term (sys_node s i) \<in> led h"
  shows "role (h_node h i) = Leader \<and> current_term (sys_node s i) = current_term (h_node h i)"
proof -
  obtain j where j: "(current_term (sys_node s i), j) \<in> h_leaders h" using old by auto
  have "hist_reachable fs dir ps (observe i h s)" using r st by (rule hist_next)
  then have "j = i"
    using one_leader_per_term [OF _ good, of dir ps "observe i h s" "current_term (sys_node s i)" j i] j lead by simp
  then have "current_term (sys_node s i) \<le> current_term (h_node h i)"
    "current_term (sys_node s i) = current_term (h_node h i) \<Longrightarrow> role (h_node h i) \<noteq> Candidate"
    using terms.holds [OF r] good j by (auto simp: terms_inv_def)
  then show ?thesis using rp lead by (auto simp: repl_step_def)
qed

lemma leader_log_extends:
  assumes "log_step net n n'" and "role n' = Leader"
  obtains xs where "node_log n' = node_log n @ xs"
    "xs = [] \<or> (\<exists>cmd. xs = [\<lparr>le_term = current_term n', le_command = cmd\<rparr>])"
  using assms by (auto simp: log_step_def)

lemma llog_grows:
  assumes r: "hist_reachable fs dir ps h" and st: "hist_step fs dir ps h (observe i h s)" and good: "good_fs fs"
    and inv: "logs_inv fs ps h" and i: "i \<in> set ps"
    and rp: "repl_step net (h_node h i) (sys_node s i) acts" and u: "u \<in> led h"
  shows "\<exists>xs. h_llog (observe i h s) u = h_llog h u @ xs"
proof (cases "role (sys_node s i) = Leader \<and> u = current_term (sys_node s i)")
  case True
  then have "role (h_node h i) = Leader" "u = current_term (h_node h i)"
    using new_leader_fresh [OF r st good rp] u by auto
  then have "h_llog h u = node_log (h_node h i)" using inv good i by (simp add: logs_inv_def)
  moreover obtain xs where "node_log (sys_node s i) = node_log (h_node h i) @ xs"
    using rp True by (auto simp: repl_step_def elim: leader_log_extends)
  ultimately show ?thesis using True by simp
qed (auto simp: fun_upd_def)

lemma led_observe: "led (observe i h s) =
  (if role (sys_node s i) = Leader then insert (current_term (sys_node s i)) (led h) else led h)"
  by (auto simp: image_iff) (metis fst_conv observe_simps(3))+

text \<open>The log of the node that moves is still consistent.\<close>

lemma moved_log_consistent:
  assumes r: "hist_reachable fs dir ps h" and st: "hist_step fs dir ps h (observe i h s)" and good: "good_fs fs"
    and inv: "logs_inv fs ps h" and i: "i \<in> set ps" and n: "node_ok fs ps i (h_node h i)"
    and rp: "repl_step (set (sys_net (h_sys h))) (h_node h i) (sys_node s i) acts"
    and keep: "\<And>l. consistent (led h) (h_llog h) l \<Longrightarrow> consistent (led (observe i h s)) (h_llog (observe i h s)) l"
  shows "consistent (led (observe i h s)) (h_llog (observe i h s)) (node_log (sys_node s i))"
proof -
  note I = inv [unfolded logs_inv_def, rule_format, OF good]
  have old: "consistent (led h) (h_llog h) (node_log (h_node h i))" using I i by blast
  from rp consider (same) "node_log (sys_node s i) = node_log (h_node h i)"
    | (grow) cmd where "role (sys_node s i) = Leader" "current_term (sys_node s i) = current_term (h_node h i)"
        "node_log (sys_node s i) = node_log (h_node h i) @ [\<lparr>le_term = current_term (h_node h i), le_command = cmd\<rparr>]"
    | (merge) c q where "(i, NmAppendEntries c q) \<in> set (sys_net (h_sys h))" "ae_entries q \<noteq> []"
        "term_at (node_log (h_node h i)) (ae_prev_log_index q) = ae_prev_log_term q"
        "node_log (sys_node s i) = merged_log (node_log (h_node h i)) (ae_prev_log_index q) (ae_entries q)"
    using n by (auto simp: repl_step_def log_step_def node_ok_def)
  then show ?thesis
  proof cases
    case same
    then show ?thesis using keep [OF old] by simp
  next
    case grow
    have "hist_reachable fs dir ps (observe i h s)" using r st by (rule hist_next)
    then have "current_term (sys_node s i) \<noteq> 0"
      using reachable_campaign(1) [of fs dir ps "observe i h s" i] good i grow(1) by simp
    then show ?thesis
      using consistent_snoc [OF keep [OF old], of "\<lparr>le_term = current_term (h_node h i), le_command = cmd\<rparr>"] grow
      by (simp add: led_observe)
  next
    case merge
    then have t: "ae_term q \<in> led h" and sg: "segment_of (h_llog h (ae_term q)) q" using I by blast+
    then have "consistent (led h) (h_llog h) (h_llog h (ae_term q))" using I by blast
    from consistent_merge [OF old this] show ?thesis
      using merge sg keep by (auto simp: segment_of_def)
  qed
qed

lemma observed_leader_log:
  assumes rk: "hist_reachable fs dir ps (observe i h s)" and good: "good_fs fs" and inv: "logs_inv fs ps h"
    and i: "i \<in> set ps" and other: "\<And>j. j \<noteq> i \<Longrightarrow> sys_node s j = h_node h j"
    and j: "j \<in> set ps" and lead: "role (h_node (observe i h s) j) = Leader"
  shows "h_llog (observe i h s) (current_term (h_node (observe i h s) j)) = node_log (h_node (observe i h s) j)"
proof (cases "j = i")
  case True
  then show ?thesis using lead by simp
next
  case False
  then have "role (h_node h j) = Leader" using lead other by simp
  then have "h_llog h (current_term (h_node h j)) = node_log (h_node h j)" using inv good j by (simp add: logs_inv_def)
  moreover have "\<not> (role (sys_node s i) = Leader \<and> current_term (sys_node s i) = current_term (sys_node s j))"
  proof
    assume both: "role (sys_node s i) = Leader \<and> current_term (sys_node s i) = current_term (sys_node s j)"
    then have "(current_term (sys_node s j), i) \<in> h_leaders (observe i h s)" by simp
    moreover have "(current_term (sys_node s j), j) \<in> h_leaders (observe i h s)"
      using leader_in_history [OF rk good j lead] by simp
    ultimately show False using one_leader_per_term [OF rk good] False by blast
  qed
  ultimately show ?thesis using other [OF False] by auto
qed

lemma observed_segments:
  assumes rk: "hist_reachable fs dir ps (observe i h s)" and good: "good_fs fs" and inv: "logs_inv fs ps h"
    and i: "i \<in> set ps" and net: "sys_net s = sys_net (h_sys h) @ List.map_filter (action_message i) acts"
    and rp: "repl_step ms (h_node h i) (sys_node s i) acts"
    and grows: "\<And>u. u \<in> led h \<Longrightarrow> \<exists>xs. h_llog (observe i h s) u = h_llog h u @ xs"
    and m: "(c, NmAppendEntries j r) \<in> set (sys_net (h_sys (observe i h s)))"
  shows "ae_term r \<in> led (observe i h s) \<and> segment_of (h_llog (observe i h s) (ae_term r)) r"
proof -
  consider (old) "(c, NmAppendEntries j r) \<in> set (sys_net (h_sys h))" | (new) "SendAppendEntries c r \<in> set acts"
    using m unfolding observe_simps net set_net_append action_message_iff by blast
  then show ?thesis
  proof cases
    case old
    then have "ae_term r \<in> led h" "segment_of (h_llog h (ae_term r)) r"
      using inv good unfolding logs_inv_def by blast+
    then show ?thesis
      using grows [of "ae_term r"] segment_of_append by (auto simp: led_observe simp del: observe_simps(4)) 
  next
    case new
    have "next_positive (sys_node s i)" using terms.holds [OF rk] good i by (simp add: terms_inv_def)
    then show ?thesis using sent_segment [OF _ new] rp by (auto simp: repl_step_def led_observe)
  qed
qed

interpretation logs: inductive_invariant
  "\<lambda>h. h = hist_init fs dir ps" "hist_step fs dir ps" "hist_reachable fs dir ps" "logs_inv fs ps"
  for fs dir ps
proof
  fix h :: "'a hist"
  show "h = hist_init fs dir ps \<Longrightarrow> logs_inv fs ps h"
    by (simp add: logs_inv_def hist_init_def raft_init_def consistent_new)
next
  fix h k :: "'a hist"
  assume r: "hist_reachable fs dir ps h" and inv: "logs_inv fs ps h" and st: "hist_step fs dir ps h k"
  show "logs_inv fs ps k"
    unfolding logs_inv_def
  proof (intro impI)
    assume good: "good_fs fs"
    note I = inv [unfolded logs_inv_def, rule_format, OF good]
    obtain i s acts where k: "k = observe i h s" and i: "i \<in> set ps"
      and other: "\<And>j. j \<noteq> i \<Longrightarrow> sys_node s j = h_node h j"
      and net: "sys_net s = sys_net (h_sys h) @ List.map_filter (action_message i) acts"
      and n: "node_ok fs ps i (h_node h i)"
      and rp: "repl_step (set (sys_net (h_sys h))) (h_node h i) (sys_node s i) acts"
      using hist_replE [OF st r good] by blast
    note grows = llog_grows [OF r st [unfolded k] good inv i rp]
    have sub: "led h \<subseteq> led k" by (auto simp: k led_observe)
    have keep: "consistent (led k) (h_llog k) l" if "consistent (led h) (h_llog h) l" for l
      using consistent_mono [OF that sub] grows by (simp add: k)
    have moved: "consistent (led k) (h_llog k) (node_log (sys_node s i))"
      using moved_log_consistent [OF r st [unfolded k] good inv i n rp] keep by (simp add: k)
    have nodes: "consistent (led k) (h_llog k) (node_log (h_node k j))" if "j \<in> set ps" for j
      using that moved keep I other [of j] by (cases "j = i") (auto simp: k)
    have leaders: "consistent (led k) (h_llog k) (h_llog k t)" if "t \<in> led k" for t
      using that moved keep I by (cases "role (sys_node s i) = Leader \<and> t = current_term (sys_node s i)")
        (auto simp: k led_observe split: if_splits)
    have rk: "hist_reachable fs dir ps (observe i h s)" using r st k by (blast intro: hist_next)
    show "(\<forall>i \<in> set ps. consistent (led k) (h_llog k) (node_log (h_node k i))) \<and>
     (\<forall>t \<in> led k. consistent (led k) (h_llog k) (h_llog k t)) \<and>
     (\<forall>i \<in> set ps. role (h_node k i) = Leader \<longrightarrow> h_llog k (current_term (h_node k i)) = node_log (h_node k i)) \<and>
     (\<forall>c j r. (c, NmAppendEntries j r) \<in> set (sys_net (h_sys k)) \<longrightarrow> ae_term r \<in> led k \<and> segment_of (h_llog k (ae_term r)) r)"
      using nodes leaders observed_leader_log [OF rk good inv i other]
        observed_segments [OF rk good inv i net rp grows] unfolding k by blast
  qed
qed

subsection \<open>Log Matching and Leader Append-Only\<close>

lemma llog_grows_step:
  assumes "hist_reachable fs dir ps h" and "hist_step fs dir ps h k" and "good_fs fs" and "u \<in> led h"
  shows "\<exists>xs. h_llog k u = h_llog h u @ xs"
  using hist_replE [OF assms(2,1,3)] llog_grows [OF assms(1) _ assms(3) logs.holds [OF assms(1)] _ _ assms(4)] assms(2)
  by metis

lemma llog_grows_steps:
  assumes "hist_steps fs dir ps h k" and "hist_reachable fs dir ps h" and "good_fs fs" and "u \<in> led h"
  shows "hist_reachable fs dir ps k \<and> (\<exists>xs. h_llog k u = h_llog h u @ xs)"
  using assms
proof (induction rule: hist_steps.induct)
  case (hsteps_step h k l)
  then have k: "hist_reachable fs dir ps k" "\<exists>xs. h_llog k u = h_llog h u @ xs" by blast+
  have "u \<in> led k" using history_grows [OF hsteps_step.hyps(1)] hsteps_step.prems(3) by auto
  from llog_grows_step [OF k(1) hsteps_step.hyps(2) hsteps_step.prems(2) this] k(2)
  have "\<exists>xs. h_llog l u = h_llog h u @ xs" by fastforce
  then show ?case using k(1) hsteps_step.hyps(2) by (blast intro: hist_next)
qed simp

lemma consistent_later:
  assumes "hist_steps fs dir ps h k" and "hist_reachable fs dir ps h" and "good_fs fs"
    and "consistent (led h) (h_llog h) l"
  shows "consistent (led k) (h_llog k) l"
  using consistent_mono [OF assms(4)] llog_grows_steps [OF assms(1-3)] history_grows [OF assms(1)]
  by (meson image_mono)

lemma reachable_consistent:
  assumes "hist_reachable fs dir ps h" and "good_fs fs" and "i \<in> set ps"
  shows "consistent (led h) (h_llog h) (node_log (h_node h i))"
  using logs.holds [OF assms(1)] assms(2,3) by (simp add: logs_inv_def)

text \<open>
  C2. Log Matching. If two nodes, or one node at two moments of a run, have entries of the same
  term at the same index, their logs are identical from the start up to that index.
\<close>

theorem log_matching:
  assumes "good_fs fs" and "raft_reachable fs dir ps s" and "raft_steps fs dir ps s s'"
    and "i \<in> set ps" and "j \<in> set ps"
    and "k \<le> last_index (node_log (sys_node s i))" and "k \<le> last_index (node_log (sys_node s' j))"
    and "term_at (node_log (sys_node s i)) k = term_at (node_log (sys_node s' j)) k"
  shows "take (Suc k) (node_log (sys_node s i)) = take (Suc k) (node_log (sys_node s' j))"
proof -
  obtain h where h: "hist_reachable fs dir ps h" "h_sys h = s"
    using reachable_has_history [OF assms(2)] by blast
  then obtain g where g: "hist_reachable fs dir ps g" "hist_steps fs dir ps h g" "h_sys g = s'"
    using steps_have_history [OF assms(3)] by blast
  have a: "consistent (led g) (h_llog g) (node_log (sys_node s i))"
    using consistent_later [OF g(2) h(1) assms(1) reachable_consistent [OF h(1) assms(1,4)]] h(2) by simp
  have b: "consistent (led g) (h_llog g) (node_log (sys_node s' j))"
    using reachable_consistent [OF g(1) assms(1,5)] g(3) by simp
  have len: "k < length (node_log (sys_node s i))" "k < length (node_log (sys_node s' j))"
    using a b assms(6,7) by (simp_all add: consistent_def log_ok_length)
  show ?thesis
    by (rule consistent_matching [OF a b len]) (use assms(8) len in \<open>simp add: term_at_in\<close>)
qed

text \<open>
  C9. Leader Append-Only. As long as a node leads a term, it never removes or changes an entry of
  its log: at any later moment of the same leadership the log is an extension of what it was.
\<close>

theorem leader_append_only:
  assumes "good_fs fs" and "raft_reachable fs dir ps s" and "raft_steps fs dir ps s s'" and "i \<in> set ps"
    and "role (sys_node s i) = Leader" and "role (sys_node s' i) = Leader"
    and "current_term (sys_node s' i) = current_term (sys_node s i)"
  shows "\<exists>es. node_log (sys_node s' i) = node_log (sys_node s i) @ es"
proof -
  obtain h where h: "hist_reachable fs dir ps h" "h_sys h = s"
    using reachable_has_history [OF assms(2)] by blast
  then obtain g where g: "hist_reachable fs dir ps g" "hist_steps fs dir ps h g" "h_sys g = s'"
    using steps_have_history [OF assms(3)] by blast
  have "current_term (sys_node s i) \<in> led h"
    using leader_in_history [OF h(1) assms(1,4)] assms(5) h(2) by force
  then have "\<exists>es. h_llog g (current_term (sys_node s i)) = h_llog h (current_term (sys_node s i)) @ es"
    using llog_grows_steps [OF g(2) h(1) assms(1)] by blast
  moreover have "h_llog h (current_term (sys_node s i)) = node_log (sys_node s i)"
    using logs.holds [OF h(1)] assms(1,4,5) h(2) by (simp add: logs_inv_def)
  moreover have "h_llog g (current_term (sys_node s i)) = node_log (sys_node s' i)"
    using logs.holds [OF g(1)] assms(1,4,6,7) g(3) by (auto simp: logs_inv_def)
  ultimately show ?thesis by simp
qed

text \<open>A run in which the elected leader takes a command and one follower receives it.\<close>

definition replication_run :: "raft_event list" where
  "replication_run = [Ticks 2 37, Deliver 1 0, Deliver 2 2, Client 2 (Put ''k'' ''v''), Deliver 1 5]"

lemma replication_run_result:
  "case run_events memory_fs (\<lambda>_. ''data'') [1, 2, 3] replication_run (raft_init memory_fs (\<lambda>_. ''data'') [1, 2, 3]) of
     None \<Rightarrow> False
   | Some s \<Rightarrow> role (sys_node s 2) = Leader \<and> last_index (node_log (sys_node s 2)) = 1 \<and>
       last_index (node_log (sys_node s 1)) = 1 \<and>
       term_at (node_log (sys_node s 1)) 1 = term_at (node_log (sys_node s 2)) 1"
  by code_simp

theorem log_matching_witness:
  "\<exists>s. raft_reachable memory_fs (\<lambda>_. ''data'') [1, 2, 3] s \<and> last_index (node_log (sys_node s 1)) = 1 \<and>
     take (Suc 1) (node_log (sys_node s 1)) = take (Suc 1) (node_log (sys_node s 2))"
proof -
  obtain s where s: "raft_reachable memory_fs (\<lambda>_. ''data'') [1, 2, 3] s"
    "last_index (node_log (sys_node s 1)) = 1" "last_index (node_log (sys_node s 2)) = 1"
    "term_at (node_log (sys_node s 1)) 1 = term_at (node_log (sys_node s 2)) 1"
    using replication_run_result run_events_reachable by (fastforce split: option.splits)
  then show ?thesis using log_matching [OF good_memory_fs s(1) steps_refl, of 1 2 1] by auto
qed

theorem leader_append_only_witness:
  "\<exists>s s'. raft_steps memory_fs (\<lambda>_. ''data'') [1, 2, 3] s s' \<and> role (sys_node s' 2) = Leader \<and>
     s' = run_handler 2 (propose_actions memory_fs (Delete ''k'')) s \<and>
     (\<exists>es. node_log (sys_node s' 2) = node_log (sys_node s 2) @ es)"
proof -
  obtain s where s: "raft_reachable memory_fs (\<lambda>_. ''data'') [1, 2, 3] s" "role (sys_node s 2) = Leader"
    using replication_run_result run_events_reachable by (fastforce split: option.splits)
  let ?s = "run_handler 2 (propose_actions memory_fs (Delete ''k'')) s"
  have st: "raft_steps memory_fs (\<lambda>_. ''data'') [1, 2, 3] s ?s"
    by (rule steps_step [OF steps_refl propose_step]) simp
  have "role (sys_node ?s 2) = Leader" "current_term (sys_node ?s 2) = current_term (sys_node s 2)"
    using s(2) by (simp_all add: run_handler_node propose_actions_def propose_eq)
  then show ?thesis using leader_append_only [OF good_memory_fs s(1) st, of 2] s(2) st by auto
qed

end
