(* ===== verification/Raft_Commit.thy ===== *)
theory Raft_Commit
  imports Log_Matching
begin

text \<open>
  Committing and applying: \<open>maybe_advance_commit_index\<close> moves to the greatest index of the current
  term that enough \<open>match_index\<close> values cover, and a running node hands each index to the state
  machine at most once and in order. \<open>applying_handler\<close> is the contract every entry point keeps
  towards the state machine.
\<close>

subsection \<open>The commit rule\<close>

definition committable :: "RaftState \<Rightarrow> usize \<Rightarrow> bool" where
  "committable s i \<longleftrightarrow> term_at (rs_log s) i = rs_current_term s \<and> majority_count s \<le> replication_count s i"

lemma committable_commit [simp]: "committable (s\<lparr>rs_commit_index := c\<rparr>) i = committable s i"
  by (simp add: committable_def majority_count_def replication_count_def)

lemma advance_loop_eq:
  "advance_loop is s = s\<lparr>rs_commit_index := last (rs_commit_index s # filter (committable s) is)\<rparr>"
proof (induction "is" arbitrary: s)
  case (Cons i "is")
  show ?case
  proof (cases "committable s i")
    case True
    then have "advance_loop (i # is) s = advance_loop is (s\<lparr>rs_commit_index := i\<rparr>)"
      by (simp add: committable_def)
    with True show ?thesis using Cons [of "s\<lparr>rs_commit_index := i\<rparr>"] by simp
  next
    case False
    then have "advance_loop (i # is) s = advance_loop is s" by (auto simp: committable_def)
    with False show ?thesis using Cons [of s] by simp
  qed
qed simp

lemma last_filter_upt:
  "last (c # filter P [c + 1 ..< m]) = Max (insert c {i \<in> {c <..< m}. P i})"
proof (induction m)
  case (Suc m)
  show ?case
  proof (cases "c < m \<and> P m")
    case True
    then have "{i \<in> {c <..< Suc m}. P i} = insert m {i \<in> {c <..< m}. P i}" by auto
    moreover have "Max (insert m (insert c {i \<in> {c <..< m}. P i})) = m"
      using True by (intro Max_eqI) auto
    ultimately show ?thesis using True by (simp add: insert_commute)
  next
    case False
    then have "{i \<in> {c <..< Suc m}. P i} = {i \<in> {c <..< m}. P i}" using less_Suc_eq by auto
    moreover have "filter P [c + 1 ..< Suc m] = filter P [c + 1 ..< m]" using False by auto
    ultimately show ?thesis using Suc by presburger
  qed
qed simp

lemma maybe_advance_eq:
  assumes "advance_loop [rs_commit_index (rn_state n) + 1 ..< last_index (rs_log (rn_state n)) + 1] (rn_state n) =
      (rn_state n)\<lparr>rs_commit_index := c\<rparr>" and "rs_commit_index (rn_state n) \<le> c"
  shows "maybe_advance_commit_index n =
    (if c = rs_commit_index (rn_state n) then (n, [])
     else (n\<lparr>rn_state := (rn_state n)\<lparr>rs_last_applied := max (rs_last_applied (rn_state n)) c, rs_commit_index := c\<rparr>\<rparr>,
           applied_actions (rs_log (rn_state n)) (rs_last_applied (rn_state n)) c))"
  using assms by (simp add: maybe_advance_commit_index_def Let_def apply_committed_entries_eq)

text \<open>
  C10. The commit rule. \<open>maybe_advance_commit_index\<close> sets the commit index to the greatest index
  after it that holds an entry of the current term and is covered by the match index of enough
  followers, stays put if there is none, and applies exactly the entries after \<open>last_applied\<close> up
  to the new commit index.
\<close>

theorem commit_rule:
  "let s = rn_state n;
       c = Max (insert (rs_commit_index s)
             {i. rs_commit_index s < i \<and> i \<le> last_index (rs_log s) \<and> term_at (rs_log s) i = rs_current_term s \<and>
                 length (rs_peers s) div 2 < 1 + length (filter (\<lambda>e. i \<le> snd e) (rs_match_index s))})
   in maybe_advance_commit_index n =
        (if c = rs_commit_index s then (n, [])
         else (n\<lparr>rn_state := s\<lparr>rs_last_applied := max (rs_last_applied s) c, rs_commit_index := c\<rparr>\<rparr>,
               concat (map (apply_action (rs_log s)) [rs_last_applied s + 1 ..< c + 1])))"
proof -
  let ?s = "rn_state n"
  let ?C = "{i. rs_commit_index ?s < i \<and> i \<le> last_index (rs_log ?s) \<and> term_at (rs_log ?s) i = rs_current_term ?s \<and>
    length (rs_peers ?s) div 2 < 1 + length (filter (\<lambda>e. i \<le> snd e) (rs_match_index ?s))}"
  let ?c = "Max (insert (rs_commit_index ?s) ?C)"
  have C: "?C = {i \<in> {rs_commit_index ?s <..< last_index (rs_log ?s) + 1}. committable ?s i}"
    by (auto simp: committable_def majority_count_def replication_count_def)
  have adv: "advance_loop [rs_commit_index ?s + 1 ..< last_index (rs_log ?s) + 1] ?s = ?s\<lparr>rs_commit_index := ?c\<rparr>"
    unfolding advance_loop_eq C last_filter_upt ..
  have "finite ?C" unfolding C by simp
  then have "rs_commit_index ?s \<le> ?c" by simp
  from maybe_advance_eq [OF adv this] show ?thesis unfolding Let_def applied_actions_def .
qed

subsection \<open>Applying in order\<close>

fun apply_index :: "Action \<Rightarrow> usize option" where
  "apply_index (ApplyEntry i cmd) = Some i"
| "apply_index _ = None"

definition apply_indices :: "Action list \<Rightarrow> usize list" where
  "apply_indices acts = List.map_filter apply_index acts"

lemma apply_indices_simps [simp]:
  "apply_indices [] = []"
  "apply_indices (xs @ ys) = apply_indices xs @ apply_indices ys"
  by (simp_all add: apply_indices_def List.map_filter_def)

lemma apply_indices_none: "(\<And>i cmd. ApplyEntry i cmd \<notin> set acts) \<Longrightarrow> apply_indices acts = []"
proof -
  assume "\<And>i cmd. ApplyEntry i cmd \<notin> set acts"
  then have "apply_index a = None" if "a \<in> set acts" for a using that by (cases a) auto
  then show ?thesis by (auto simp: apply_indices_def List.map_filter_def filter_empty_conv)
qed

lemma apply_indices_action: "apply_indices (apply_action l i) = [] \<or> apply_indices (apply_action l i) = [i]"
  by (auto simp: apply_action_def apply_indices_def List.map_filter_def split: option.splits LogCommand.splits)

definition increasing_between :: "nat \<Rightarrow> nat \<Rightarrow> nat list \<Rightarrow> bool" where
  "increasing_between lo hi xs \<longleftrightarrow> lo \<le> hi \<and> sorted_wrt (<) xs \<and> (\<forall>x \<in> set xs. lo < x \<and> x \<le> hi)"

lemma increasing_append:
  "increasing_between a b xs \<Longrightarrow> increasing_between b c ys \<Longrightarrow> increasing_between a c (xs @ ys)"
  by (fastforce simp: increasing_between_def sorted_wrt_append)

lemma apply_indices_applied:
  "increasing_between lo (max lo hi) (apply_indices (applied_actions l lo hi))"
proof (induction hi)
  case 0
  show ?case by (simp add: applied_actions_def increasing_between_def)
next
  case (Suc hi)
  show ?case
  proof (cases "lo \<le> hi")
    case True
    then have "applied_actions l lo (Suc hi) = applied_actions l lo hi @ apply_action l (Suc hi)"
      by (simp add: applied_actions_def)
    then show ?thesis
      using Suc True apply_indices_action [of l "Suc hi"]
      by (auto simp: increasing_between_def sorted_wrt_append max_def split: if_splits)
  next
    case False
    then show ?thesis using Suc by (simp add: applied_actions_def increasing_between_def max_def)
  qed
qed

text \<open>
  The contract of a handler towards the state machine: the indices it hands out are increasing
  and lie after the old \<open>last_applied\<close> and up to the new one.
\<close>

locale applying_handler =
  fixes h :: "'j RaftNode \<Rightarrow> 'j RaftNode \<times> Action list"
  assumes applies: "increasing_between (last_applied n) (last_applied (fst (h n))) (apply_indices (snd (h n)))"
begin

lemma no_reapply: "i \<in> set (apply_indices (snd (h n))) \<Longrightarrow> last_applied n < i \<and> i \<le> last_applied (fst (h n))"
  using applies [of n] by (simp add: increasing_between_def)

lemma followed_by:
  assumes "increasing_between (last_applied (fst (h n))) c xs"
  shows "increasing_between (last_applied n) c (apply_indices (snd (h n)) @ xs)"
  using applies assms by (rule increasing_append)

end

lemma quiet_applying:
  assumes "last_applied n' = last_applied n" and "\<And>i cmd. ApplyEntry i cmd \<notin> set acts"
  shows "increasing_between (last_applied n) (last_applied n') (apply_indices acts)"
  using assms by (simp add: apply_indices_none increasing_between_def)

lemma no_apply_replicate [simp]: "ApplyEntry i cmd \<notin> set (replicate_to_all_peers n)"
  "ApplyEntry i cmd \<notin> set (send_heartbeats n)"
  by (auto simp: send_heartbeats_def dest: replicate_to_all_peersD)

lemma maybe_advance_applies:
  "increasing_between (last_applied n) (last_applied (fst (maybe_advance_commit_index n)))
     (apply_indices (snd (maybe_advance_commit_index n)))"
proof -
  obtain c where "advance_loop [commit_index n + 1 ..< last_index (node_log n) + 1] (rn_state n) =
      (rn_state n)\<lparr>rs_commit_index := c\<rparr>"
    using advance_loop_frame by blast
  then show ?thesis
    using apply_indices_applied [of "last_applied n" c "node_log n"]
    by (simp add: maybe_advance_commit_index_def Let_def apply_committed_entries_eq increasing_between_def)
qed

lemma tick_no_apply [simp]: "ApplyEntry i cmd \<notin> set (snd (tick fs n))"
  by (cases rule: tick_cases [where n = n and fs = fs])
    (auto simp: start_election_def tick_heartbeat_def Let_def)

interpretation apply_tick: applying_handler "tick fs" for fs
proof
  fix n :: "'a RaftNode"
  have "last_applied (fst (tick fs n)) = last_applied n"
    by (cases rule: tick_cases [where n = n and fs = fs]) simp_all
  then show "increasing_between (last_applied n) (last_applied (fst (tick fs n))) (apply_indices (snd (tick fs n)))"
    by (rule quiet_applying) simp
qed

lemma handle_append_entries_applies:
  "increasing_between (last_applied n) (last_applied (fst (handle_append_entries fs req n)))
     (apply_indices (snd (handle_append_entries fs req n)))"
proof -
  have [simp]: "last_applied (accept_leader fs req n) = last_applied n" by (simp add: accept_leader_def)
  have [simp]: "apply_indices [SendAppendEntriesResponse c r] = []" for c r by (rule apply_indices_none) auto
  have "increasing_between (last_applied m) (last_applied (fst (follow_commit req m))) (apply_indices (snd (follow_commit req m)))"
    for m :: "'a RaftNode"
    using apply_indices_applied
    by (auto simp: follow_commit_def apply_committed_entries_eq Let_def increasing_between_def)
  from this [of "append_new_entries fs req (accept_leader fs req n)"] show ?thesis
    by (simp add: handle_append_entries_eq increasing_between_def)
qed

interpretation apply_dispatch: applying_handler "raft_dispatch fs m" for fs m
proof
  fix n :: "'a RaftNode"
  show "increasing_between (last_applied n) (last_applied (fst (raft_dispatch fs m n)))
    (apply_indices (snd (raft_dispatch fs m n)))"
  proof (cases m)
    case (NmRequestVote j r)
    then show ?thesis
      by (intro quiet_applying) (auto simp: raft_dispatch_def handle_request_vote_def Let_def)
  next
    case (NmRequestVoteResponse j r)
    then show ?thesis
      by (intro quiet_applying) (auto simp: raft_dispatch_def handle_request_vote_response_def Let_def)
  next
    case (NmAppendEntries j r)
    then show ?thesis using handle_append_entries_applies by (simp add: raft_dispatch_def)
  next
    case (NmAppendEntriesResponse j r)
    then show ?thesis
      using maybe_advance_applies [of "n\<lparr>rn_state := note_response j r (rn_state n)\<rparr>"]
      by (simp add: raft_dispatch_def handle_append_entries_response_eq increasing_between_def)
  qed
qed

interpretation apply_propose: applying_handler "propose_actions fs cmd" for fs cmd
proof
  fix n :: "'a RaftNode"
  have "apply_indices (replicate_to_all_peers (proposed fs cmd n)) = []" by (rule apply_indices_none) simp
  then show "increasing_between (last_applied n) (last_applied (fst (propose_actions fs cmd n)))
      (apply_indices (snd (propose_actions fs cmd n)))"
    using maybe_advance_applies [of "proposed fs cmd n"]
    by (simp add: propose_actions_def propose_eq increasing_between_def)
qed

text \<open>A stretch of a node's life between two restarts: the inputs it takes and the actions it returns.\<close>

datatype node_input = InTick | InMessage NetworkMessage | InPropose LogCommand

fun node_step :: "'j json_fs \<Rightarrow> node_input \<Rightarrow> 'j RaftNode \<Rightarrow> 'j RaftNode \<times> Action list" where
  "node_step fs InTick n = tick fs n"
| "node_step fs (InMessage m) n = raft_dispatch fs m n"
| "node_step fs (InPropose cmd) n = propose_actions fs cmd n"

lemma node_step_fun: "node_step fs x =
    (case x of InTick \<Rightarrow> tick fs | InMessage m \<Rightarrow> raft_dispatch fs m | InPropose cmd \<Rightarrow> propose_actions fs cmd)"
  by (cases x) (simp_all add: fun_eq_iff)

fun node_life :: "'j json_fs \<Rightarrow> node_input list \<Rightarrow> 'j RaftNode \<Rightarrow> 'j RaftNode \<times> Action list" where
  "node_life fs [] n = (n, [])"
| "node_life fs (x # xs) n =
     (let (n, acts) = node_step fs x n; (n, rest) = node_life fs xs n in (n, acts @ rest))"

text \<open>
  C11. Applied once and in order. Whatever ticks, messages and proposals a node takes between two
  restarts, the indices of all its \<open>ApplyEntry\<close> actions are strictly increasing: no index is
  applied twice or after a later one, and all lie between the old and the new \<open>last_applied\<close>.
\<close>

theorem applied_once_in_order:
  "let (n', acts) = node_life fs inputs n
   in sorted_wrt (<) (List.map_filter apply_index acts) \<and>
      set (List.map_filter apply_index acts) \<subseteq> {last_applied n <.. last_applied n'}"
proof -
  have "increasing_between (last_applied n) (last_applied (fst (node_life fs inputs n)))
    (apply_indices (snd (node_life fs inputs n)))"
  proof (induction inputs arbitrary: n)
    case Nil
    show ?case by (simp add: increasing_between_def)
  next
    case (Cons x xs)
    from Cons [of "fst (node_step fs x n)"] show ?case
      using apply_tick.followed_by [where n = n and fs = fs] apply_dispatch.followed_by [where n = n and fs = fs]
        apply_propose.followed_by [where n = n and fs = fs]
      by (cases x) (simp_all add: Let_def case_prod_unfold)
  qed
  then show ?thesis
    by (auto simp: case_prod_unfold increasing_between_def apply_indices_def Let_def)
qed

end
