(* ===== verification/Cluster.thy ===== *)
theory Cluster
  imports Engine Router Protocol Raft_Commit
begin

text \<open>
  The cluster node of \<^verbatim>\<open>src/cluster.rs\<close>: a Raft node, a storage engine, the queue of outbound
  messages and an optional router. Client writes go through Raft; the actions Raft returns are
  processed by applying committed commands to the engine and queueing messages.

  Every application of a command is a write of the engine and may fail; \<open>io\<close> gives the outcome of
  the write for each log index. An \<^verbatim>\<open>io::Error\<close> of either part is a \<open>cluster_error\<close>.
\<close>

datatype MessagePayload =
    RequestVote RequestVoteRequest
  | VoteResponse RequestVoteResponse
  | AppendEntries AppendEntriesRequest
  | AppendResponse AppendEntriesResponse

record PeerMessage =
  pm_to :: u64
  pm_payload :: MessagePayload

record 'j ClusterNode =
  cn_raft :: "'j RaftNode"
  cn_storage :: StorageEngine
  cn_outbound_messages :: "PeerMessage list"
  cn_router :: "Router option"
  cn_shard_id :: u64
  cn_pending_commit_index :: "usize option"

subsection \<open>Construction\<close>

datatype cluster_error = StorageError io_error | RaftError persist_error

text \<open>The outcomes of the I/O calls of the two constructors, and the two kinds of file.\<close>

record 'j cluster_disk =
  cd_dir_ok :: bool
  cd_open_ok :: bool
  cd_read_ok :: bool
  cd_raft_dir_ok :: bool
  cd_text :: "string \<Rightarrow> string"
  cd_json :: "string \<Rightarrow> 'j option"

definition open_storage :: "'j cluster_disk \<Rightarrow> string \<Rightarrow> io_error + StorageEngine" where
  "open_storage d dir = engine_new (cd_dir_ok d) (cd_open_ok d) (cd_read_ok d) (cd_text d) dir"

definition cluster_new ::
  "'j json_fs \<Rightarrow> 'j cluster_disk \<Rightarrow> u64 \<Rightarrow> u64 list \<Rightarrow> string \<Rightarrow> cluster_error + 'j ClusterNode" where
  "cluster_new fs d i ps data_dir =
     (case open_storage d (data_dir @ ''/storage'') of
        Inl e \<Rightarrow> Inl (StorageError e)
      | Inr storage \<Rightarrow>
         (case with_persistence fs (cd_raft_dir_ok d) (cd_json d) i ps data_dir of
            Inl e \<Rightarrow> Inl (RaftError e)
          | Inr raft \<Rightarrow>
              Inr \<lparr>cn_raft = raft, cn_storage = storage, cn_outbound_messages = [], cn_router = None,
                   cn_shard_id = 1, cn_pending_commit_index = None\<rparr>))"

definition with_sharding ::
  "'j json_fs \<Rightarrow> 'j cluster_disk \<Rightarrow> u64 \<Rightarrow> u64 list \<Rightarrow> string \<Rightarrow> u64 \<Rightarrow> ShardConfig list \<Rightarrow>
     cluster_error + 'j ClusterNode" where
  "with_sharding fs d i ps data_dir shard_id shard_configs =
     (case open_storage d (data_dir @ ''/storage'') of
        Inl e \<Rightarrow> Inl (StorageError e)
      | Inr storage \<Rightarrow>
         (case with_persistence fs (cd_raft_dir_ok d) (cd_json d) i ps data_dir of
            Inl e \<Rightarrow> Inl (RaftError e)
          | Inr raft \<Rightarrow>
              Inr \<lparr>cn_raft = raft, cn_storage = storage, cn_outbound_messages = [],
                   cn_router = Some (router_new shard_configs 64),
                   cn_shard_id = shard_id, cn_pending_commit_index = None\<rparr>))"

subsection \<open>Processing actions\<close>

definition queue_message :: "u64 \<Rightarrow> MessagePayload \<Rightarrow> 'j ClusterNode \<Rightarrow> 'j ClusterNode" where
  "queue_message to payload n =
     n\<lparr>cn_outbound_messages := cn_outbound_messages n @ [\<lparr>pm_to = to, pm_payload = payload\<rparr>]\<rparr>"

text \<open>A failed write is only reported on standard error.\<close>

definition apply_command :: "wal_io \<Rightarrow> LogCommand \<Rightarrow> StorageEngine \<Rightarrow> StorageEngine" where
  "apply_command io command e =
     (case command of
        Put key val \<Rightarrow> snd (engine_put io key val e)
      | Delete key \<Rightarrow> snd (engine_delete io key e)
      | Noop \<Rightarrow> e)"

definition process_action :: "(usize \<Rightarrow> wal_io) \<Rightarrow> Action \<Rightarrow> 'j ClusterNode \<Rightarrow> 'j ClusterNode" where
  "process_action io action n =
     (case action of
        ApplyEntry index command \<Rightarrow> n\<lparr>cn_storage := apply_command (io index) command (cn_storage n)\<rparr>
      | SendRequestVote to request \<Rightarrow> queue_message to (RequestVote request) n
      | SendRequestVoteResponse to response \<Rightarrow> queue_message to (VoteResponse response) n
      | SendAppendEntries to request \<Rightarrow> queue_message to (AppendEntries request) n
      | SendAppendEntriesResponse to response \<Rightarrow> queue_message to (AppendResponse response) n)"

definition process_actions :: "(usize \<Rightarrow> wal_io) \<Rightarrow> Action list \<Rightarrow> 'j ClusterNode \<Rightarrow> 'j ClusterNode" where
  "process_actions io actions n = fold (process_action io) actions n"

definition take_outbound_messages :: "'j ClusterNode \<Rightarrow> PeerMessage list \<times> 'j ClusterNode" where
  "take_outbound_messages n = (cn_outbound_messages n, n\<lparr>cn_outbound_messages := []\<rparr>)"

definition cluster_tick :: "'j json_fs \<Rightarrow> (usize \<Rightarrow> wal_io) \<Rightarrow> 'j ClusterNode \<Rightarrow> 'j ClusterNode" where
  "cluster_tick fs io n =
     (let (raft, actions) = tick fs (cn_raft n) in process_actions io actions (n\<lparr>cn_raft := raft\<rparr>))"

subsection \<open>Client commands\<close>

text \<open>The check at the head of each keyed command: the error, if the key is another shard's.\<close>

definition shard_check :: "string \<Rightarrow> 'j ClusterNode \<Rightarrow> Response option" where
  "shard_check key n =
     (case cn_router n of
        None \<Rightarrow> None
      | Some router \<Rightarrow>
          if \<not> key_belongs_to_shard router key (cn_shard_id n)
          then
            let target_shard = (case get_shard_id router key of None \<Rightarrow> 0 | Some s \<Rightarrow> s)
            in Some (Error (''MOVED - key belongs to shard '' @ show_nat (unat target_shard)))
          else None)"

definition not_leader :: Response where
  "not_leader = Error ''NOTLEADER - this node is not the leader''"

text \<open>The common part of \<^verbatim>\<open>Set\<close> and \<^verbatim>\<open>Del\<close>: propose, process, remember the index.\<close>

definition client_write ::
  "'j json_fs \<Rightarrow> (usize \<Rightarrow> wal_io) \<Rightarrow> LogCommand \<Rightarrow> Response \<Rightarrow> 'j ClusterNode \<Rightarrow> 'j ClusterNode \<times> Response" where
  "client_write fs io command ok n =
     (if rs_role (rn_state (cn_raft n)) \<noteq> Leader then (n, not_leader)
      else
        case propose fs command (cn_raft n) of
          (raft, Some actions) \<Rightarrow>
            let n = process_actions io actions (n\<lparr>cn_raft := raft\<rparr>)
            in (n\<lparr>cn_pending_commit_index := Some (last_index (rs_log (rn_state (cn_raft n))))\<rparr>, ok)
        | (raft, None) \<Rightarrow> (n\<lparr>cn_raft := raft\<rparr>, Error ''failed to propose''))"

definition handle_client_command ::
  "'j json_fs \<Rightarrow> (usize \<Rightarrow> wal_io) \<Rightarrow> Command \<Rightarrow> 'j ClusterNode \<Rightarrow> 'j ClusterNode \<times> Response" where
  "handle_client_command fs io command n =
     (let n = n\<lparr>cn_pending_commit_index := None\<rparr>
      in case command of
           Get key \<Rightarrow>
             (case shard_check key n of
                Some moved \<Rightarrow> (n, moved)
              | None \<Rightarrow>
                 (case engine_get (cn_storage n) key of
                    Some val \<Rightarrow> (n, BulkString val)
                  | None \<Rightarrow> (n, Null)))
         | Set key val \<Rightarrow>
             (case shard_check key n of
                Some moved \<Rightarrow> (n, moved)
              | None \<Rightarrow> client_write fs io (Put key val) (SimpleString ''OK'') n)
         | Del key \<Rightarrow>
             (case shard_check key n of
                Some moved \<Rightarrow> (n, moved)
              | None \<Rightarrow> client_write fs io (Delete key) (Integer 1) n)
         | Ping \<Rightarrow> (n, SimpleString ''PONG'')
         | Unknown name \<Rightarrow> (n, Error (''unknown command '' @ [CHR 0x27] @ name @ [CHR 0x27])))"

end
