(* ===== verification/Cluster_Spec.thy ===== *)
theory Cluster_Spec
  imports Cluster
begin

text \<open>
  What a cluster node promises to its clients and its peers. \<open>process_actions_eq\<close> takes the action
  loop apart: committed commands go to the engine in order, everything else into the queue. From
  it follow: refused commands change nothing; an accepted write is at the index the server waits
  for; a single-node cluster is the specification's key-value map (stated through the locale
  \<open>kv_service\<close>); and applying the whole log again over a recovered store is harmless.
\<close>

subsection \<open>The action loop\<close>

fun action_op :: "Action \<Rightarrow> kv_op option" where
  "action_op (ApplyEntry i cmd) = command_op cmd"
| "action_op _ = None"

fun action_payload :: "Action \<Rightarrow> PeerMessage option" where
  "action_payload (SendRequestVote to q) = Some \<lparr>pm_to = to, pm_payload = RequestVote q\<rparr>"
| "action_payload (SendRequestVoteResponse to q) = Some \<lparr>pm_to = to, pm_payload = VoteResponse q\<rparr>"
| "action_payload (SendAppendEntries to q) = Some \<lparr>pm_to = to, pm_payload = AppendEntries q\<rparr>"
| "action_payload (SendAppendEntriesResponse to q) = Some \<lparr>pm_to = to, pm_payload = AppendResponse q\<rparr>"
| "action_payload (ApplyEntry i cmd) = None"

definition action_store :: "(usize \<Rightarrow> wal_io) \<Rightarrow> Action \<Rightarrow> StorageEngine \<Rightarrow> StorageEngine" where
  "action_store io a e = (case a of ApplyEntry i cmd \<Rightarrow> apply_command (io i) cmd e | _ \<Rightarrow> e)"

lemma map_filter_simps [simp]:
  "List.map_filter f [] = []"
  "List.map_filter f (x # xs) = (case f x of None \<Rightarrow> List.map_filter f xs | Some y \<Rightarrow> y # List.map_filter f xs)"
  "List.map_filter f (xs @ ys) = List.map_filter f xs @ List.map_filter f ys"
  by (simp_all add: List.map_filter_def split: option.splits)

lemma process_action_eq:
  "process_action io a n =
     n\<lparr>cn_storage := action_store io a (cn_storage n),
       cn_outbound_messages := cn_outbound_messages n @ List.map_filter action_payload [a]\<rparr>"
  by (cases a) (simp_all add: process_action_def queue_message_def action_store_def)

lemma process_actions_eq:
  "process_actions io acts n =
     n\<lparr>cn_storage := fold (action_store io) acts (cn_storage n),
       cn_outbound_messages := cn_outbound_messages n @ List.map_filter action_payload acts\<rparr>"
  unfolding process_actions_def
  by (induction acts arbitrary: n) (simp_all add: process_action_eq split: option.splits)

definition io_fine :: "(usize \<Rightarrow> wal_io) \<Rightarrow> bool" where
  "io_fine io \<longleftrightarrow> (\<forall>i. io i = Io_ok)"

lemma action_store_ok:
  "io_fine io \<Longrightarrow> action_store io a e = engine_run (case_option [] (\<lambda>x. [x]) (action_op a)) e"
  by (cases a; auto simp: action_store_def apply_command_def engine_run_def engine_exec_def io_fine_def
      engine_put_ok_def engine_delete_ok_def split: LogCommand.splits)

lemma fold_action_store_ok:
  "io_fine io \<Longrightarrow> fold (action_store io) acts e = engine_run (List.map_filter action_op acts) e"
  by (induction acts arbitrary: e) (auto simp: action_store_ok engine_run_def split: option.splits)

lemma engine_run_get: "engine_inv e \<Longrightarrow> engine_get (engine_run ops e) = kv_run ops (engine_get e) \<and> engine_inv (engine_run ops e)"
  using engine.run_refines [of e ops] by (simp add: engine_run_eq)

lemma applied_actions_ops:
  assumes "hi < length l"
  shows "List.map_filter action_op (applied_actions l lo hi) = log_ops (take (hi - lo) (drop (lo + 1) l))"
  using assms
proof (induction hi)
  case (Suc hi)
  show ?case
  proof (cases "lo \<le> hi")
    case True
    have "List.map_filter action_op (apply_action l (Suc hi)) = log_ops [l ! Suc hi]"
      using Suc.prems by (auto simp: apply_action_def log_get_def split: LogCommand.splits)
    moreover have "take (Suc hi - lo) (drop (lo + 1) l) = take (hi - lo) (drop (lo + 1) l) @ [l ! Suc hi]"
      using True Suc.prems by (simp add: Suc_diff_le take_Suc_conv_app_nth)
    moreover have "applied_actions l lo (Suc hi) = applied_actions l lo hi @ apply_action l (Suc hi)"
      using True by (simp add: applied_actions_def)
    ultimately show ?thesis using Suc by simp
  qed (simp add: applied_actions_def)
qed (simp add: applied_actions_def)

lemma shard_check_pending [simp]: "shard_check k (n\<lparr>cn_pending_commit_index := p\<rparr>) = shard_check k n"
  by (cases "cn_router n") (simp_all add: shard_check_def)

text \<open>A node of a cluster of one on an empty disk, after its election.\<close>

definition blank_disk :: "'j cluster_disk" where
  "blank_disk = \<lparr>cd_dir_ok = True, cd_open_ok = True, cd_read_ok = True, cd_raft_dir_ok = True,
     cd_text = \<lambda>_. [], cd_json = \<lambda>_. None\<rparr>"

definition lone_leader :: "PersistentState ClusterNode" where
  "lone_leader =
     (case cluster_new memory_fs blank_disk 1 [1] ''data'' of
        Inr n \<Rightarrow> n\<lparr>cn_raft := fst (start_election memory_fs (cn_raft n))\<rparr>)"

lemma blank_cluster:
  obtains n e where "cluster_new fs blank_disk i ps dir = Inr n" "cn_raft n = fresh_node fs dir ps i"
    "cn_router n = None" "cn_storage n = e" "engine_new True True True (\<lambda>_. []) (dir @ ''/storage'') = Inr e"
  using engine_new_total [of "\<lambda>_. []" "dir @ ''/storage''"]
  by (auto simp: cluster_new_def open_storage_def blank_disk_def fresh_node_def with_persistence_def Let_def)

lemma lone_leader_props:
  "role (cn_raft lone_leader) = Leader" "node_log (cn_raft lone_leader) = log_new"
  "peers (cn_raft lone_leader) = [1]" "node_id (cn_raft lone_leader) = 1"
  "rs_match_index (rn_state (cn_raft lone_leader)) = []" "cn_router lone_leader = None"
  "commit_index (cn_raft lone_leader) = 0" "last_applied (cn_raft lone_leader) = 0"
  "engine_inv (cn_storage lone_leader)" "engine_get (cn_storage lone_leader) = Map.empty"
  "engine_durable (cn_storage lone_leader)"
proof -
  obtain n e where n: "cluster_new memory_fs blank_disk 1 [1] ''data'' = Inr n"
      "cn_raft n = fresh_node memory_fs ''data'' [1] 1" "cn_router n = None" "cn_storage n = e"
    and e: "engine_new True True True (\<lambda>_. []) (''data'' @ ''/storage'') = Inr e"
    by (rule blank_cluster)
  have l: "lone_leader = n\<lparr>cn_raft := fst (start_election memory_fs (cn_raft n))\<rparr>"
    by (simp add: lone_leader_def n(1))
  have m: "majority_count (rn_state (fresh_node memory_fs ''data'' [1] 1)) = 1" by (simp add: majority_count_def)
  show "role (cn_raft lone_leader) = Leader" "node_log (cn_raft lone_leader) = log_new"
    "peers (cn_raft lone_leader) = [1]" "node_id (cn_raft lone_leader) = 1" "cn_router lone_leader = None"
    by (simp_all add: l n m)
  show "rs_match_index (rn_state (cn_raft lone_leader)) = []"
    "commit_index (cn_raft lone_leader) = 0" "last_applied (cn_raft lone_leader) = 0"
    by (simp_all add: l n start_election_def m become_leader_def Let_def)
      (simp_all add: fresh_node_def with_persistence_def persister_new_def load_def Let_def)
  show "engine_inv (cn_storage lone_leader)" "engine_get (cn_storage lone_leader) = Map.empty"
    using engine_new_ok [OF e] by (simp_all add: l n engine_inv_def recovered_def replay_text_def)
  show "engine_durable (cn_storage lone_leader)"
    using engine_new_durable [OF e] by (simp add: l n aligned_def)
qed

subsection \<open>Refused commands\<close>

lemma client_write_eq:
  "client_write fs io cmd ok n =
     (if role (cn_raft n) \<noteq> Leader then (n, not_leader)
      else ((process_actions io (snd (propose_actions fs cmd (cn_raft n))) (n\<lparr>cn_raft := fst (propose_actions fs cmd (cn_raft n))\<rparr>))
              \<lparr>cn_pending_commit_index := Some (length (node_log (cn_raft n)))\<rparr>, ok))"
  by (simp add: client_write_def propose_actions_def propose_eq process_actions_eq last_index_def Let_def)

text \<open>
  C18. A refused command changes nothing. Whenever the answer to a client command is an error (the
  key is another shard's, the node is not the leader, the command is unknown), the Raft state, the
  store and the outbound queue are what they were and the server has nothing to wait for.
\<close>

theorem refused_command_changes_nothing:
  assumes "snd (handle_client_command fs io cmd n) = Error msg"
  shows "fst (handle_client_command fs io cmd n) = n\<lparr>cn_pending_commit_index := None\<rparr>"
  using assms
  by (auto simp: handle_client_command_def client_write_eq Let_def split: Command.splits option.splits if_splits)

theorem refused_command_changes_nothing_witness:
  "\<exists>n :: PersistentState ClusterNode.
     cluster_new memory_fs blank_disk 1 [1, 2, 3] ''data'' = Inr n \<and>
     snd (handle_client_command memory_fs (\<lambda>_. Io_ok) (Set ''k'' ''v'') n) = not_leader \<and>
     fst (handle_client_command memory_fs (\<lambda>_. Io_ok) (Set ''k'' ''v'') n) = n\<lparr>cn_pending_commit_index := None\<rparr>"
proof -
  obtain n :: "PersistentState ClusterNode" where n: "cluster_new memory_fs blank_disk 1 [1, 2, 3] ''data'' = Inr n"
      "cn_raft n = fresh_node memory_fs ''data'' [1, 2, 3] 1" "cn_router n = None"
    by (rule blank_cluster)
  then have r: "snd (handle_client_command memory_fs (\<lambda>_. Io_ok) (Set ''k'' ''v'') n) = not_leader"
    by (simp add: handle_client_command_def shard_check_def client_write_eq Let_def)
  then show ?thesis
    using n(1) refused_command_changes_nothing [of memory_fs "\<lambda>_. Io_ok" "Set ''k'' ''v''" n] by (auto simp: not_leader_def)
qed

text \<open>
  An accepted write is where the server looks for it. A leader that owns the key answers a
  \<open>Set\<close> or \<open>Del\<close> by appending exactly one entry, of its term and with that command, and the index
  it hands to the server to wait for is the index of that entry.
\<close>

theorem accepted_write_is_pending:
  assumes "role (cn_raft n) = Leader" and "log_ok (node_log (cn_raft n))"
    and "cmd = Set k v \<and> c = Put k v \<or> cmd = Del k \<and> c = Delete k" and "shard_check k n = None"
  shows "let n' = fst (handle_client_command fs io cmd n)
    in node_log (cn_raft n') = node_log (cn_raft n) @ [\<lparr>le_term = current_term (cn_raft n), le_command = c\<rparr>] \<and>
       cn_pending_commit_index n' = Some (last_index (node_log (cn_raft n'))) \<and>
       log_get (node_log (cn_raft n')) (last_index (node_log (cn_raft n'))) =
         Some \<lparr>le_term = current_term (cn_raft n), le_command = c\<rparr>"
proof -
  have "\<exists>ok. handle_client_command fs io cmd n = client_write fs io c ok (n\<lparr>cn_pending_commit_index := None\<rparr>)"
    using assms(3,4) by (auto simp: handle_client_command_def Let_def)
  then show ?thesis
    using assms(1) by (auto simp: client_write_eq process_actions_eq propose_actions_def propose_eq log_get_def
        last_index_def Let_def)
qed

theorem accepted_write_is_pending_witness:
  "role (cn_raft lone_leader) = Leader \<and>
   cn_pending_commit_index (fst (handle_client_command memory_fs (\<lambda>_. Io_ok) (Del ''k'') lone_leader)) = Some 1"
  using accepted_write_is_pending [of lone_leader "Del ''k''" "''k''" "[]" "Delete ''k''" memory_fs "\<lambda>_. Io_ok"]
  by (simp add: lone_leader_props shard_check_def Let_def last_index_def log_new_def log_ok_def)

subsection \<open>The specification of the service\<close>

text \<open>What a client may expect of each command, over the specification's map.\<close>

fun spec_command :: "Command \<Rightarrow> kv \<Rightarrow> kv \<times> Response" where
  "spec_command (Get k) m = (m, case m k of Some v \<Rightarrow> BulkString v | None \<Rightarrow> Null)"
| "spec_command (Set k v) m = (m(k \<mapsto> v), SimpleString ''OK'')"
| "spec_command (Del k) m = (m(k := None), Integer 1)"
| "spec_command Ping m = (m, SimpleString ''PONG'')"
| "spec_command (Unknown name) m = (m, Error (''unknown command '' @ [CHR 0x27] @ name @ [CHR 0x27]))"

fun run_commands :: "(Command \<Rightarrow> 's \<Rightarrow> 's \<times> Response) \<Rightarrow> Command list \<Rightarrow> 's \<Rightarrow> 's \<times> Response list" where
  "run_commands h [] s = (s, [])"
| "run_commands h (c # cs) s = (let (s, r) = h c s; (s, rs) = run_commands h cs s in (s, r # rs))"

locale kv_service =
  fixes ok :: "'s \<Rightarrow> bool" and handle :: "Command \<Rightarrow> 's \<Rightarrow> 's \<times> Response" and view :: "'s \<Rightarrow> kv"
  assumes keeps_ok: "ok s \<Longrightarrow> ok (fst (handle c s))"
    and refines: "ok s \<Longrightarrow> spec_command c (view s) = (view (fst (handle c s)), snd (handle c s))"
begin

lemma session_refines:
  "ok s \<Longrightarrow> ok (fst (run_commands handle cs s)) \<and>
     run_commands spec_command cs (view s) = (view (fst (run_commands handle cs s)), snd (run_commands handle cs s))"
proof (induction cs arbitrary: s)
  case (Cons c cs)
  from Cons.IH [OF keeps_ok [OF Cons.prems, of c]] refines [OF Cons.prems, of c] show ?case
    by (simp add: Let_def case_prod_unfold)
qed simp

end

text \<open>
  A cluster of one node in its normal state: leader, everything committed and applied, nothing to
  replicate.
\<close>

definition single_ok :: "'j ClusterNode \<Rightarrow> bool" where
  "single_ok n \<longleftrightarrow> (let s = rn_state (cn_raft n) in
     rs_role s = Leader \<and> rs_peers s = [rs_id s] \<and> rs_match_index s = [] \<and> log_ok (rs_log s) \<and>
     rs_commit_index s = last_index (rs_log s) \<and> rs_last_applied s = last_index (rs_log s)) \<and>
     engine_inv (cn_storage n) \<and> cn_router n = None"

lemma single_propose:
  assumes "role n = Leader" and "peers n = [node_id n]" and "rs_match_index (rn_state n) = []" and "log_ok (node_log n)"
    and "commit_index n = last_index (node_log n)" and "last_applied n = last_index (node_log n)"
  shows "fst (propose_actions fs cmd n) = (proposed fs cmd n)\<lparr>rn_state := (rn_state (proposed fs cmd n))
      \<lparr>rs_last_applied := length (node_log n), rs_commit_index := length (node_log n)\<rparr>\<rparr>"
    and "snd (propose_actions fs cmd n) =
      apply_action (node_log n @ [\<lparr>le_term = current_term n, le_command = cmd\<rparr>]) (length (node_log n))"
    and "List.map_filter action_op (snd (propose_actions fs cmd n)) = log_ops [\<lparr>le_term = current_term n, le_command = cmd\<rparr>]"
proof -
  let ?p = "proposed fs cmd n"
  let ?e = "\<lparr>le_term = current_term n, le_command = cmd\<rparr>"
  have len: "length (node_log n) = Suc (last_index (node_log n))" using assms(4) by (rule log_ok_length)
  have "committable (rn_state ?p) (length (node_log n))"
    using assms(2) by (simp add: committable_def term_at_in nth_append majority_count_def replication_count_def)
  moreover have "last_index (node_log ?p) = length (node_log n)" by (simp add: last_index_def)
  then have "[commit_index ?p + 1 ..< last_index (node_log ?p) + 1] = [length (node_log n)]"
    using assms(5) len by simp
  ultimately have "advance_loop [commit_index ?p + 1 ..< last_index (node_log ?p) + 1] (rn_state ?p) =
      (rn_state ?p)\<lparr>rs_commit_index := length (node_log n)\<rparr>"
    by (simp only: advance_loop_eq filter.simps if_True last.simps list.simps) simp
  from maybe_advance_eq [OF this] have adv: "maybe_advance_commit_index ?p =
      (?p\<lparr>rn_state := (rn_state ?p)\<lparr>rs_last_applied := length (node_log n), rs_commit_index := length (node_log n)\<rparr>\<rparr>,
       applied_actions (node_log n @ [?e]) (last_index (node_log n)) (length (node_log n)))"
    using assms(5,6) len by simp
  have applied_one: "applied_actions (node_log n @ [?e]) (last_index (node_log n)) (length (node_log n)) =
      apply_action (node_log n @ [?e]) (length (node_log n))"
    by (simp add: applied_actions_def len)
  have "replicate_to_all_peers ?p = []" using assms(2) by (simp add: replicate_to_all_peers_def)
  then show "fst (propose_actions fs cmd n) = ?p\<lparr>rn_state := (rn_state ?p)
      \<lparr>rs_last_applied := length (node_log n), rs_commit_index := length (node_log n)\<rparr>\<rparr>"
    and "snd (propose_actions fs cmd n) = apply_action (node_log n @ [?e]) (length (node_log n))"
    and "List.map_filter action_op (snd (propose_actions fs cmd n)) = log_ops [?e]"
    using assms(1) adv len applied_one applied_actions_ops [of "length (node_log n)" "node_log n @ [?e]" "last_index (node_log n)"]
    by (simp_all add: propose_actions_def propose_eq)
qed

lemma single_write:
  assumes "single_ok n" and "io_fine io"
  shows "single_ok (fst (client_write fs io cmd ok n)) \<and> snd (client_write fs io cmd ok n) = ok \<and>
    engine_get (cn_storage (fst (client_write fs io cmd ok n))) =
      kv_run (log_ops [\<lparr>le_term = current_term (cn_raft n), le_command = cmd\<rparr>]) (engine_get (cn_storage n)) \<and>
    cn_pending_commit_index (fst (client_write fs io cmd ok n)) = Some (commit_index (cn_raft (fst (client_write fs io cmd ok n))))"
proof -
  let ?r = "cn_raft n"
  have s: "role ?r = Leader" "peers ?r = [node_id ?r]" "rs_match_index (rn_state ?r) = []" "log_ok (node_log ?r)"
    "commit_index ?r = last_index (node_log ?r)" "last_applied ?r = last_index (node_log ?r)"
    "engine_inv (cn_storage n)" "cn_router n = None"
    using assms(1) by (simp_all add: single_ok_def Let_def)
  show ?thesis
    using s single_propose [OF s(1-6), of fs cmd] engine_run_get [OF s(7)]
    by (simp add: client_write_eq process_actions_eq fold_action_store_ok [OF assms(2)] single_ok_def Let_def last_index_def
        del: log_ops_simps)
qed

interpretation single_node: kv_service single_ok "handle_client_command fs (\<lambda>_. Io_ok)" "\<lambda>n. engine_get (cn_storage n)"
  for fs
proof -
  have fine: "io_fine (\<lambda>_. Io_ok)" by (simp add: io_fine_def)
  show "kv_service single_ok (handle_client_command fs (\<lambda>_. Io_ok)) (\<lambda>n. engine_get (cn_storage n))"
  proof
    fix n :: "'a ClusterNode" and c
    assume ok: "single_ok n"
    then have ok': "single_ok (n\<lparr>cn_pending_commit_index := None\<rparr>)" by (simp add: single_ok_def)
    have nc: "shard_check k n = None" for k
      using ok by (simp add: shard_check_def single_ok_def)
    show "single_ok (fst (handle_client_command fs (\<lambda>_. Io_ok) c n))"
      using single_write [OF ok' fine] ok'
      by (cases c) (auto simp: handle_client_command_def nc Let_def split: option.splits)
    show "spec_command c (engine_get (cn_storage n)) =
       (engine_get (cn_storage (fst (handle_client_command fs (\<lambda>_. Io_ok) c n))), snd (handle_client_command fs (\<lambda>_. Io_ok) c n))"
      using single_write [OF ok' fine, of fs]
      by (cases c) (simp_all add: handle_client_command_def nc Let_def split: option.splits)
  qed
qed

lemma single_pending:
  assumes "single_ok n"
  shows "cn_pending_commit_index (fst (handle_client_command fs (\<lambda>_. Io_ok) c n)) \<in>
    {None, Some (commit_index (cn_raft (fst (handle_client_command fs (\<lambda>_. Io_ok) c n))))}"
proof -
  have "io_fine (\<lambda>_. Io_ok)" and "single_ok (n\<lparr>cn_pending_commit_index := None\<rparr>)"
    using assms by (simp_all add: io_fine_def single_ok_def)
  note w = single_write [OF this(2,1), of fs]
  have "shard_check k n = None" for k using assms by (simp add: shard_check_def single_ok_def)
  then show ?thesis
    using w by (cases c) (simp_all add: handle_client_command_def Let_def split: option.splits)
qed

text \<open>
  A single-node cluster is the specification. From a state in which the one node leads and has
  applied its log, any sequence of client commands is answered as the key-value map would answer
  it, and the store shows that map afterwards.
\<close>

theorem single_node_refines_spec:
  assumes "single_ok n"
  shows "run_commands spec_command cmds (engine_get (cn_storage n)) =
    (engine_get (cn_storage (fst (run_commands (handle_client_command fs (\<lambda>_. Io_ok)) cmds n))),
     snd (run_commands (handle_client_command fs (\<lambda>_. Io_ok)) cmds n))"
  using single_node.session_refines [OF assms] by blast

lemma lone_leader_single_ok: "single_ok lone_leader"
  by (simp add: single_ok_def lone_leader_props Let_def last_index_def log_new_def log_ok_def)

theorem single_node_refines_spec_witness:
  "snd (run_commands (handle_client_command memory_fs (\<lambda>_. Io_ok))
     [Set ''a'' ''1'', Get ''a'', Del ''a'', Get ''a''] lone_leader) =
   [SimpleString ''OK'', BulkString ''1'', Integer 1, Null]"
  using single_node_refines_spec [OF lone_leader_single_ok, of "[Set ''a'' ''1'', Get ''a'', Del ''a'', Get ''a'']" memory_fs]
  by (simp add: lone_leader_props)

subsection \<open>Writes that fail after they were committed\<close>

text \<open>
  C39. A write the store refused is still acknowledged. On a leader of one node, if the log file
  write that applies a \<open>Set\<close> fails, the client is answered \<open>OK\<close>, the index the server waits for is
  already committed and applied, and the store does not have the value; since the index will not be
  applied again before a restart, it stays that way.
\<close>

theorem failed_apply_is_acknowledged:
  assumes "single_ok n" and "\<And>i. io i \<noteq> Io_ok"
  shows "let (n', r) = handle_client_command fs io (Set k v) n
    in r = SimpleString ''OK'' \<and> cn_pending_commit_index n' = Some (commit_index (cn_raft n')) \<and>
       last_applied (cn_raft n') = commit_index (cn_raft n') \<and>
       engine_get (cn_storage n') = engine_get (cn_storage n)"
proof -
  let ?m = "n\<lparr>cn_pending_commit_index := None\<rparr>"
  let ?r = "cn_raft n"
  have s: "role ?r = Leader" "peers ?r = [node_id ?r]" "rs_match_index (rn_state ?r) = []" "log_ok (node_log ?r)"
    "commit_index ?r = last_index (node_log ?r)" "last_applied ?r = last_index (node_log ?r)" "cn_router n = None"
    using assms(1) by (simp_all add: single_ok_def Let_def)
  have "engine_get (snd (engine_put (io i) k v e)) = engine_get e" for i e
    using engine_write_get [of "io i" "KPut k v" e] assms(2) [of i] by (simp add: engine_write_def)
  then have "engine_get (fold (action_store io) (snd (propose_actions fs (Put k v) ?r)) e) = engine_get e" for e
    using single_propose(2) [OF s(1-6), of fs "Put k v"]
    by (simp add: apply_action_def log_get_def action_store_def apply_command_def)
  moreover have "handle_client_command fs io (Set k v) n = client_write fs io (Put k v) (SimpleString ''OK'') ?m"
    using s(7) by (simp add: handle_client_command_def shard_check_def Let_def)
  ultimately show ?thesis
    using s single_propose(1) [OF s(1-6), of fs "Put k v"]
    by (simp add: client_write_eq process_actions_eq)
qed

theorem failed_apply_is_acknowledged_witness:
  "engine_get (cn_storage (fst (handle_client_command memory_fs (\<lambda>_. Sync_err) (Set ''k'' ''v'') lone_leader))) = Map.empty \<and>
   snd (handle_client_command memory_fs (\<lambda>_. Sync_err) (Set ''k'' ''v'') lone_leader) = SimpleString ''OK''"
  using failed_apply_is_acknowledged [OF lone_leader_single_ok, of "\<lambda>_. Sync_err" memory_fs "''k''" "''v''"]
  by (auto simp: lone_leader_props Let_def case_prod_unfold)

subsection \<open>Applying the log again after a restart\<close>

text \<open>
  C14. Applying the log again is harmless. A node that had applied the first \<open>k\<close> entries of its log to
  a durable store, crashes, recovers the store from its own log file, and then commits up to \<open>j\<close>,
  applies the entries from the first one on to a store that already has some of them; the store
  ends as the first \<open>j\<close> entries applied once to an empty map.
\<close>

theorem reapplying_log_is_harmless:
  assumes "engine_durable e" and "engine_get e = kv_run (log_ops (take k (drop 1 l))) Map.empty"
    and "k \<le> j" and "j < length l" and "node_log (cn_raft n) = l" and "last_applied (cn_raft n) = 0"
    and "cn_storage n = engine_recover e c"
  shows "engine_get (cn_storage (process_actions (\<lambda>_. Io_ok) (snd (apply_committed_entries j (cn_raft n))) n)) =
    kv_run (log_ops (take j (drop 1 l))) Map.empty"
proof -
  have "engine_durable (engine_recover e c)" and get: "engine_get (engine_recover e c) = engine_get e"
    using assms(1) by (simp_all add: engine.durable_recover engine.get_recover)
  then have inv: "engine_inv (cn_storage n)" using assms(7) by (simp add: engine.durable_inv)
  obtain ys where "take j (drop 1 l) = take k (drop 1 l) @ ys"
    using assms(3) by (metis le_iff_add take_add)
  then have "kv_run (log_ops (take j (drop 1 l))) (kv_run (log_ops (take k (drop 1 l))) Map.empty) =
      kv_run (log_ops (take j (drop 1 l))) Map.empty"
    by (intro kv_run_absorb) auto
  then show ?thesis
    using engine_run_get [OF inv] applied_actions_ops [OF assms(4), of 0] assms(2,5-7) get
    by (simp add: process_actions_eq fold_action_store_ok io_fine_def apply_committed_entries_eq)
qed

theorem reapplying_log_is_harmless_witness:
  "\<exists>n :: PersistentState ClusterNode.
     node_log (cn_raft n) = log_new @ [\<lparr>le_term = 1, le_command = Put ''k'' ''v''\<rparr>, \<lparr>le_term = 1, le_command = Put ''a'' ''b''\<rparr>] \<and>
     engine_get (cn_storage n) ''k'' = Some ''v'' \<and>
     engine_get (cn_storage (process_actions (\<lambda>_. Io_ok) (snd (apply_committed_entries 2 (cn_raft n))) n)) =
       [''k'' \<mapsto> ''v'', ''a'' \<mapsto> ''b'']"
proof -
  let ?l = "log_new @ [\<lparr>le_term = 1, le_command = Put ''k'' ''v''\<rparr>, \<lparr>le_term = 1, le_command = Put ''a'' ''b''\<rparr>]"
  let ?e = "engine_put_ok ''k'' ''v'' (cn_storage lone_leader)"
  let ?n = "lone_leader\<lparr>cn_raft := (cn_raft lone_leader)\<lparr>rn_state := (rn_state (cn_raft lone_leader))\<lparr>rs_log := ?l\<rparr>\<rparr>,
    cn_storage := engine_recover ?e 0\<rparr>"
  have "storable (KPut ''k'' ''v'')" by (simp add: storable_def op_entry_def wal_safe_def text_safe_def)
  then have d: "engine_durable ?e" using engine.durable_put lone_leader_props(11) by blast
  have get: "engine_get ?e = [''k'' \<mapsto> ''v'']" by (simp add: engine_put_ok_simps lone_leader_props)
  have "engine_get (cn_storage (process_actions (\<lambda>_. Io_ok) (snd (apply_committed_entries 2 (cn_raft ?n))) ?n)) =
      kv_run (log_ops (take 2 (drop 1 ?l))) Map.empty"
    by (rule reapplying_log_is_harmless [OF d, where k = 1 and l = ?l and c = 0])
      (simp_all add: get lone_leader_props log_new_def)
  then show ?thesis
    using get engine.get_recover [OF d, of 0] by (intro exI [of _ ?n]) (simp add: log_new_def)
qed

end
