(* ===== verification/Wire_Codec.thy ===== *)
theory Wire_Codec
  imports Raft_System Rust_Text "HOL-Library.Monad_Syntax"
begin

text \<open>
  An encoding of peer messages as one line of text: the fields as decimal numbers, strings and lists
  preceded by their length, and its decoder. It stands in for JSON where a property about the
  transport is applied to a concrete codec: \<open>text_dec_enc\<close> shows that what is assumed of serde is
  possible for every message at once.
\<close>

subsection \<open>Numbers as text\<close>

definition text_number :: "nat \<Rightarrow> string" where
  "text_number n = show_nat n @ [CHR '','']"

definition read_number :: "string \<Rightarrow> nat" where
  "read_number s = foldl (\<lambda>a c. 10 * a + (of_char c - 48)) 0 s"

lemma read_number_show [simp]: "read_number (show_nat n) = n"
  by (induction n rule: show_nat.induct) (subst show_nat.simps, auto simp: read_number_def)

text \<open>The numbers of a line: the pieces before each comma.\<close>

definition read_numbers :: "string \<Rightarrow> nat list" where
  "read_numbers s = map read_number (butlast (split_on CHR '','' s))"

lemma read_text_numbers: "read_numbers (concat (map text_number ns)) = ns"
proof -
  have "split_on CHR '','' (concat (map text_number ns)) = map show_nat ns @ [[]]"
    using show_nat_no_ctrl [of "CHR '',''"] by (induction ns) (simp_all add: text_number_def)
  then show ?thesis by (simp add: read_numbers_def comp_def)
qed

subsection \<open>Values as lists of numbers\<close>

text \<open>A reader takes a value off the front of a list of numbers.\<close>

type_synonym 'a reader = "nat list \<Rightarrow> ('a \<times> nat list) option"

definition reads :: "('a \<Rightarrow> nat list) \<Rightarrow> 'a reader \<Rightarrow> bool" where
  "reads code rd \<longleftrightarrow> (\<forall>x r. rd (code x @ r) = Some (x, r))"

definition code_word :: "u64 \<Rightarrow> nat list" where "code_word w = [unat w]"
definition code_nat :: "nat \<Rightarrow> nat list" where "code_nat n = [n]"
definition code_bool :: "bool \<Rightarrow> nat list" where "code_bool b = [if b then 1 else 0]"
definition code_char :: "char \<Rightarrow> nat list" where "code_char c = [of_char c]"
definition code_option :: "nat option \<Rightarrow> nat list" where
  "code_option x = (case x of None \<Rightarrow> [0] | Some n \<Rightarrow> [1, n])"

definition read_with :: "(nat \<Rightarrow> 'a) \<Rightarrow> 'a reader" where
  "read_with f ns = (case ns of [] \<Rightarrow> None | n # r \<Rightarrow> Some (f n, r))"

definition read_word :: "u64 reader" where "read_word = read_with of_nat"
definition read_nat :: "nat reader" where "read_nat = read_with (\<lambda>n. n)"
definition read_bool :: "bool reader" where "read_bool = read_with (\<lambda>n. n = 1)"
definition read_char :: "char reader" where "read_char = read_with char_of"

definition read_option :: "nat option reader" where
  "read_option ns =
     do { (some, r) \<leftarrow> read_bool ns;
          if some then do { (n, r) \<leftarrow> read_nat r; Some (Some n, r) } else Some (None, r) }"

fun read_elems :: "'a reader \<Rightarrow> nat \<Rightarrow> 'a list reader" where
  "read_elems rd 0 r = Some ([], r)"
| "read_elems rd (Suc k) r = do { (x, r) \<leftarrow> rd r; (xs, r) \<leftarrow> read_elems rd k r; Some (x # xs, r) }"

definition code_list :: "('a \<Rightarrow> nat list) \<Rightarrow> 'a list \<Rightarrow> nat list" where
  "code_list f xs = length xs # concat (map f xs)"

definition read_list :: "'a reader \<Rightarrow> 'a list reader" where
  "read_list rd ns = do { (k, r) \<leftarrow> read_nat ns; read_elems rd k r }"

lemma reads_basic [simp]:
  "read_word (code_word w @ r) = Some (w, r)" "read_nat (code_nat n @ r) = Some (n, r)"
  "read_bool (code_bool b @ r) = Some (b, r)" "read_char (code_char c @ r) = Some (c, r)"
  "read_option (code_option x @ r) = Some (x, r)"
  by (auto simp: read_word_def read_nat_def read_bool_def read_char_def read_option_def read_with_def
      code_word_def code_nat_def code_bool_def code_char_def code_option_def split: option.splits)

lemma reads_list: assumes "reads code rd" shows "reads (code_list code) (read_list rd)"
proof -
  have "read_elems rd (length xs) (concat (map code xs) @ r) = Some (xs, r)" for xs r
    using assms by (induction xs) (simp_all add: reads_def)
  then show ?thesis by (simp add: reads_def read_list_def code_list_def read_nat_def read_with_def)
qed

subsection \<open>Messages\<close>

definition code_string :: "string \<Rightarrow> nat list" where "code_string = code_list code_char"
definition read_string :: "string reader" where "read_string = read_list read_char"

definition code_command :: "LogCommand \<Rightarrow> nat list" where
  "code_command c = (case c of Put k v \<Rightarrow> 0 # code_string k @ code_string v | Delete k \<Rightarrow> 1 # code_string k | Noop \<Rightarrow> [2])"

definition read_command :: "LogCommand reader" where
  "read_command ns =
     do { (t, r) \<leftarrow> read_nat ns;
          if t = 0 then do { (k, r) \<leftarrow> read_string r; (v, r) \<leftarrow> read_string r; Some (Put k v, r) }
          else if t = 1 then do { (k, r) \<leftarrow> read_string r; Some (Delete k, r) }
          else Some (Noop, r) }"

definition code_entry :: "LogEntry \<Rightarrow> nat list" where
  "code_entry e = code_word (le_term e) @ code_command (le_command e)"

definition read_entry :: "LogEntry reader" where
  "read_entry ns =
     do { (t, r) \<leftarrow> read_word ns; (c, r) \<leftarrow> read_command r; Some (\<lparr>le_term = t, le_command = c\<rparr>, r) }"

definition code_message :: "NetworkMessage \<Rightarrow> nat list" where
  "code_message m =
     (case m of
        NmRequestVote i q \<Rightarrow> 0 # code_word i @ code_word (rv_term q) @ code_word (rv_candidate_id q) @
          code_nat (rv_last_log_index q) @ code_word (rv_last_log_term q)
      | NmRequestVoteResponse i q \<Rightarrow> 1 # code_word i @ code_word (rvr_term q) @ code_bool (rvr_vote_granted q)
      | NmAppendEntries i q \<Rightarrow> 2 # code_word i @ code_word (ae_term q) @ code_word (ae_leader_id q) @
          code_nat (ae_prev_log_index q) @ code_word (ae_prev_log_term q) @ code_list code_entry (ae_entries q) @
          code_nat (ae_leader_commit q)
      | NmAppendEntriesResponse i q \<Rightarrow> 3 # code_word i @ code_word (aer_term q) @ code_bool (aer_success q) @
          code_option (aer_match_index q))"

definition read_message :: "NetworkMessage reader" where
  "read_message ns =
     do { (t, r) \<leftarrow> read_nat ns; (i, r) \<leftarrow> read_word r; (trm, r) \<leftarrow> read_word r;
          if t = 0 then
            do { (c, r) \<leftarrow> read_word r; (li, r) \<leftarrow> read_nat r; (lt, r) \<leftarrow> read_word r;
                 Some (NmRequestVote i \<lparr>rv_term = trm, rv_candidate_id = c, rv_last_log_index = li, rv_last_log_term = lt\<rparr>, r) }
          else if t = 1 then
            do { (g, r) \<leftarrow> read_bool r; Some (NmRequestVoteResponse i \<lparr>rvr_term = trm, rvr_vote_granted = g\<rparr>, r) }
          else if t = 2 then
            do { (l, r) \<leftarrow> read_word r; (pi, r) \<leftarrow> read_nat r; (pt, r) \<leftarrow> read_word r;
                 (es, r) \<leftarrow> read_list read_entry r; (lc, r) \<leftarrow> read_nat r;
                 Some (NmAppendEntries i \<lparr>ae_term = trm, ae_leader_id = l, ae_prev_log_index = pi, ae_prev_log_term = pt,
                   ae_entries = es, ae_leader_commit = lc\<rparr>, r) }
          else
            do { (ok, r) \<leftarrow> read_bool r; (mi, r) \<leftarrow> read_option r;
                 Some (NmAppendEntriesResponse i \<lparr>aer_term = trm, aer_success = ok, aer_match_index = mi\<rparr>, r) } }"

lemma reads_string [simp]: "read_string (code_string s @ r) = Some (s, r)"
  using reads_list [of code_char read_char] by (simp add: reads_def read_string_def code_string_def)

lemma read_tag [simp]: "read_nat (n # r) = Some (n, r)"
  by (simp add: read_nat_def read_with_def)

lemma reads_entry: "reads code_entry read_entry"
proof -
  have "read_command (code_command c @ r) = Some (c, r)" for c r
    by (cases c) (simp_all add: read_command_def code_command_def)
  then show ?thesis by (simp add: reads_def read_entry_def code_entry_def)
qed

lemma reads_entries [simp]: "read_list read_entry (code_list code_entry es @ r) = Some (es, r)"
  using reads_list [OF reads_entry] by (simp add: reads_def)

lemma reads_message: "reads code_message read_message"
  unfolding reads_def
proof (intro allI)
  fix m r show "read_message (code_message m @ r) = Some (m, r)"
    by (cases m) (simp_all add: read_message_def code_message_def)
qed

definition text_enc :: "NetworkMessage \<Rightarrow> string option" where
  "text_enc m = Some (concat (map text_number (code_message m)))"

definition text_dec :: "string \<Rightarrow> NetworkMessage option" where
  "text_dec j = (case read_message (read_numbers j) of Some (m, []) \<Rightarrow> Some m | _ \<Rightarrow> None)"

lemma text_dec_enc: "text_enc m = Some j \<Longrightarrow> text_dec j = Some m"
  using reads_message [unfolded reads_def, rule_format, of m "[]"]
  by (auto simp: text_enc_def text_dec_def read_text_numbers)

lemma text_enc_line: "text_enc m = Some j \<Longrightarrow> j \<noteq> [] \<and> LF \<notin> set j \<and> CR \<notin> set j"
proof -
  assume j: "text_enc m = Some j"
  have "code_message m \<noteq> []" by (cases m) (simp_all add: code_message_def)
  moreover have "LF \<notin> set (text_number n) \<and> CR \<notin> set (text_number n) \<and> text_number n \<noteq> []" for n
    by (simp add: text_number_def)
  ultimately show ?thesis using j by (cases "code_message m") (auto simp: text_enc_def)
qed

end
