(* ===== verification/Transport.thy ===== *)
theory Transport
  imports Cluster_Spec Wire_Codec
begin

text \<open>
  The peer transport of \<^verbatim>\<open>src/transport.rs\<close>: the address book, sending the queued messages, and the
  listener that feeds received lines to the node (\<open>None\<close> is a line that could not be read). A message travels as one line of JSON; the two
  serde calls are the parameters \<open>enc\<close> and \<open>dec\<close>, and \<open>good_codec\<close> names what is relied on: what
  was encoded can be decoded, and an encoding is a non-empty text without line breaks (compact
  JSON escapes them). \<open>env\<close> is the process environment.

  What \<open>send_messages\<close> returns are the connections it attempts, one per message: the address and the
  bytes written. Whether a connection succeeds is up to the network, so a system may deliver any of
  them or none.
\<close>

record NodeConfig =
  nc_id :: u64
  nc_client_port :: u16
  nc_peer_port :: u16

record PeerTransport =
  pt_node_id :: u64
  pt_peer_addresses :: "u64 \<rightharpoonup> string"

subsection \<open>Construction\<close>

definition peer_host :: "(string \<Rightarrow> string option) \<Rightarrow> u64 \<Rightarrow> string" where
  "peer_host env i =
     (case env (''PEER_HOST_'' @ show_nat (unat i)) of None \<Rightarrow> ''127.0.0.1'' | Some host \<Rightarrow> host)"

definition peer_address :: "(string \<Rightarrow> string option) \<Rightarrow> NodeConfig \<Rightarrow> string" where
  "peer_address env config = peer_host env (nc_id config) @ '':'' @ show_nat (unat (nc_peer_port config))"

definition transport_new :: "(string \<Rightarrow> string option) \<Rightarrow> u64 \<Rightarrow> NodeConfig list \<Rightarrow> PeerTransport" where
  "transport_new env nid all_nodes =
     \<lparr>pt_node_id = nid,
      pt_peer_addresses =
        fold (\<lambda>config m. if nc_id config \<noteq> nid then m(nc_id config \<mapsto> peer_address env config) else m)
          all_nodes Map.empty\<rparr>"

definition from_addresses :: "u64 \<Rightarrow> (u64 \<rightharpoonup> string) \<Rightarrow> PeerTransport" where
  "from_addresses nid peer_addresses = \<lparr>pt_node_id = nid, pt_peer_addresses = peer_addresses\<rparr>"

subsection \<open>Sending\<close>

definition network_message :: "u64 \<Rightarrow> MessagePayload \<Rightarrow> NetworkMessage" where
  "network_message nid payload =
     (case payload of
        RequestVote req \<Rightarrow> NmRequestVote nid req
      | VoteResponse resp \<Rightarrow> NmRequestVoteResponse nid resp
      | AppendEntries req \<Rightarrow> NmAppendEntries nid req
      | AppendResponse resp \<Rightarrow> NmAppendEntriesResponse nid resp)"

definition send_message ::
  "(NetworkMessage \<Rightarrow> string option) \<Rightarrow> PeerTransport \<Rightarrow> PeerMessage \<Rightarrow> (string \<times> string) option" where
  "send_message enc t msg =
     (case pt_peer_addresses t (pm_to msg) of
        None \<Rightarrow> None
      | Some addr \<Rightarrow>
         (case enc (network_message (pt_node_id t) (pm_payload msg)) of
            None \<Rightarrow> None
          | Some json \<Rightarrow> Some (addr, json @ [LF])))"

definition send_messages ::
  "(NetworkMessage \<Rightarrow> string option) \<Rightarrow> PeerTransport \<Rightarrow> PeerMessage list \<Rightarrow> (string \<times> string) list" where
  "send_messages enc t messages = List.map_filter (send_message enc t) messages"

subsection \<open>Receiving\<close>

definition dispatch_message ::
  "'j json_fs \<Rightarrow> (usize \<Rightarrow> wal_io) \<Rightarrow> NetworkMessage \<Rightarrow> 'j ClusterNode \<Rightarrow> 'j ClusterNode" where
  "dispatch_message fs io msg n =
     (let (raft, actions) = raft_dispatch fs msg (cn_raft n)
      in process_actions io actions (n\<lparr>cn_raft := raft\<rparr>))"

text \<open>The body of the listener's loop on one line, and the loop over the lines of a connection.\<close>

definition listen_line ::
  "'j json_fs \<Rightarrow> (usize \<Rightarrow> wal_io) \<Rightarrow> (NetworkMessage \<Rightarrow> string option) \<Rightarrow> (string \<Rightarrow> NetworkMessage option) \<Rightarrow>
     PeerTransport \<Rightarrow> string \<Rightarrow> 'j ClusterNode \<Rightarrow> 'j ClusterNode \<times> (string \<times> string) list" where
  "listen_line fs io enc dec t line n =
     (if line = [] then (n, [])
      else case dec line of
        None \<Rightarrow> (n, [])
      | Some msg \<Rightarrow>
          let (outbound, n) = take_outbound_messages (dispatch_message fs io msg n)
          in (n, if outbound \<noteq> [] then send_messages enc t outbound else []))"

fun listen_lines ::
  "'j json_fs \<Rightarrow> (usize \<Rightarrow> wal_io) \<Rightarrow> (NetworkMessage \<Rightarrow> string option) \<Rightarrow> (string \<Rightarrow> NetworkMessage option) \<Rightarrow>
     PeerTransport \<Rightarrow> string option list \<Rightarrow> 'j ClusterNode \<Rightarrow> 'j ClusterNode \<times> (string \<times> string) list" where
  "listen_lines fs io enc dec t [] n = (n, [])"
| "listen_lines fs io enc dec t (None # lines) n = (n, [])"
| "listen_lines fs io enc dec t (Some line # lines) n =
     (let (n, sent) = listen_line fs io enc dec t line n;
          (n, rest) = listen_lines fs io enc dec t lines n
      in (n, sent @ rest))"

text \<open>A connection that carries the text and is then closed.\<close>

definition listen_stream ::
  "'j json_fs \<Rightarrow> (usize \<Rightarrow> wal_io) \<Rightarrow> (NetworkMessage \<Rightarrow> string option) \<Rightarrow> (string \<Rightarrow> NetworkMessage option) \<Rightarrow>
     PeerTransport \<Rightarrow> string \<Rightarrow> 'j ClusterNode \<Rightarrow> 'j ClusterNode \<times> (string \<times> string) list" where
  "listen_stream fs io enc dec t text n = listen_lines fs io enc dec t (map Some (str_lines text)) n"

text \<open>The listener's thread over its incoming connections (\<open>None\<close>: one that could not be accepted).\<close>

fun listen_incoming ::
  "'j json_fs \<Rightarrow> (usize \<Rightarrow> wal_io) \<Rightarrow> (NetworkMessage \<Rightarrow> string option) \<Rightarrow> (string \<Rightarrow> NetworkMessage option) \<Rightarrow>
     PeerTransport \<Rightarrow> string option list option list \<Rightarrow> 'j ClusterNode \<Rightarrow> 'j ClusterNode \<times> (string \<times> string) list" where
  "listen_incoming fs io enc dec t [] n = (n, [])"
| "listen_incoming fs io enc dec t (None # incoming) n = listen_incoming fs io enc dec t incoming n"
| "listen_incoming fs io enc dec t (Some lines # incoming) n =
     (let (n, sent) = listen_lines fs io enc dec t lines n;
          (n, rest) = listen_incoming fs io enc dec t incoming n
      in (n, sent @ rest))"

definition start_listener ::
  "'j json_fs \<Rightarrow> (usize \<Rightarrow> wal_io) \<Rightarrow> (NetworkMessage \<Rightarrow> string option) \<Rightarrow> (string \<Rightarrow> NetworkMessage option) \<Rightarrow>
     (string \<Rightarrow> string option) \<Rightarrow> u64 \<Rightarrow> NodeConfig list \<Rightarrow> bool \<Rightarrow> string option list option list \<Rightarrow> 'j ClusterNode \<Rightarrow>
     ('j ClusterNode \<times> (string \<times> string) list) option" where
  "start_listener fs io enc dec env nid all_nodes bind_ok incoming n =
     (if \<not> bind_ok then None
      else Some (listen_incoming fs io enc dec (transport_new env nid all_nodes) incoming n))"

subsection \<open>Properties\<close>

definition good_codec :: "(NetworkMessage \<Rightarrow> string option) \<Rightarrow> (string \<Rightarrow> NetworkMessage option) \<Rightarrow> bool" where
  "good_codec enc dec \<longleftrightarrow>
     (\<forall>m j. enc m = Some j \<longrightarrow> dec j = Some m \<and> j \<noteq> [] \<and> LF \<notin> set j \<and> CR \<notin> set j)"

lemma good_codecD:
  assumes "good_codec enc dec" and "enc m = Some j"
  shows "dec j = Some m \<and> j \<noteq> [] \<and> LF \<notin> set j \<and> CR \<notin> set j"
  using assms by (simp add: good_codec_def)

lemma lines_of_message: "LF \<notin> set j \<Longrightarrow> CR \<notin> set j \<Longrightarrow> str_lines (j @ [LF]) = [j]"
  using str_lines_line [of j "[]"] by simp

lemma network_message_payload:
  "action_payload a = Some p \<Longrightarrow> action_message i a = Some (pm_to p, network_message i (pm_payload p))"
  by (cases a) (auto simp: action_message_def network_message_def)

text \<open>The transport the tick thread builds from the server's addresses is the server's.\<close>

lemma from_addresses_transport: "from_addresses i (pt_peer_addresses (transport_new env i cs)) = transport_new env i cs"
  by (simp add: from_addresses_def transport_new_def)

lemma address_book:
  "pt_peer_addresses (transport_new env i (cs @ [c])) =
     (if nc_id c \<noteq> i then (pt_peer_addresses (transport_new env i cs))(nc_id c \<mapsto> peer_address env c)
      else pt_peer_addresses (transport_new env i cs))"
  by (simp add: transport_new_def)

lemma transport_new_addresses:
  "pt_peer_addresses (transport_new env i cs) j = Some a \<Longrightarrow>
     j \<noteq> i \<and> (\<exists>c \<in> set cs. nc_id c = j \<and> a = peer_address env c)"
proof (induction cs rule: rev_induct)
  case Nil
  then show ?case by (simp add: transport_new_def)
next
  case (snoc c cs)
  then show ?case by (auto simp: address_book split: if_splits)
qed

lemma transport_new_knows:
  assumes "c \<in> set cs" and "nc_id c \<noteq> i"
  shows "pt_peer_addresses (transport_new env i cs) (nc_id c) \<noteq> None"
  using assms
proof (induction cs rule: rev_induct)
  case (snoc d cs)
  then show ?case by (auto simp: address_book)
qed simp

text \<open>
  C15. A message that is sent and arrives is handled as it was meant. A queued message for a node
  in the configuration is written to that node's address; the listener there, given those bytes,
  runs exactly the handler for that message, with this node as the sender, and nothing else.
\<close>

theorem sent_message_is_dispatched:
  assumes "good_codec enc dec" and "c \<in> set cs" and "nc_id c \<noteq> i" and "pm_to msg = nc_id c"
    and "distinct (map nc_id cs)" and "enc (network_message i (pm_payload msg)) = Some j"
  shows "\<exists>text. send_messages enc (transport_new env i cs) [msg] = [(peer_address env c, text)] \<and>
    fst (listen_stream fs io enc dec t text n) =
      snd (take_outbound_messages (dispatch_message fs io (network_message i (pm_payload msg)) n))"
proof -
  obtain a where a: "pt_peer_addresses (transport_new env i cs) (nc_id c) = Some a"
    using transport_new_knows [OF assms(2,3)] by blast
  then obtain c' where "c' \<in> set cs" "nc_id c' = nc_id c" "a = peer_address env c'"
    using transport_new_addresses [OF a] by auto
  then have addr: "a = peer_address env c" using assms(2,5) by (auto simp: distinct_map inj_on_def)
  note j = good_codecD [OF assms(1,6)]
  have "send_messages enc (transport_new env i cs) [msg] = [(peer_address env c, j @ [LF])]"
    using a addr assms(4,6) by (simp add: send_messages_def send_message_def transport_new_def)
  moreover have "fst (listen_stream fs io enc dec t (j @ [LF]) n) =
      snd (take_outbound_messages (dispatch_message fs io (network_message i (pm_payload msg)) n))"
    using j by (simp add: listen_stream_def lines_of_message listen_line_def take_outbound_messages_def Let_def)
  ultimately show ?thesis by blast
qed

lemma good_text_codec: "good_codec text_enc text_dec"
  using text_dec_enc text_enc_line by (simp add: good_codec_def)

theorem sent_message_is_dispatched_witness:
  "\<exists>text. send_messages text_enc (transport_new (\<lambda>_. None) 1 [\<lparr>nc_id = 2, nc_client_port = 6382, nc_peer_port = 7002\<rparr>])
       [\<lparr>pm_to = 2, pm_payload = VoteResponse \<lparr>rvr_term = 1, rvr_vote_granted = True\<rparr>\<rparr>] =
     [(peer_address (\<lambda>_. None) \<lparr>nc_id = 2, nc_client_port = 6382, nc_peer_port = 7002\<rparr>, text)]"
proof -
  obtain j where "text_enc (network_message 1 (VoteResponse \<lparr>rvr_term = 1, rvr_vote_granted = True\<rparr>)) = Some j"
    by (simp add: text_enc_def)
  then show ?thesis
    using sent_message_is_dispatched [OF good_text_codec,
        of "\<lparr>nc_id = 2, nc_client_port = 6382, nc_peer_port = 7002\<rparr>" "[\<lparr>nc_id = 2, nc_client_port = 6382, nc_peer_port = 7002\<rparr>]" 1
          "\<lparr>pm_to = 2, pm_payload = VoteResponse \<lparr>rvr_term = 1, rvr_vote_granted = True\<rparr>\<rparr>" j
          "\<lambda>_. None" memory_fs "\<lambda>_. Io_ok" "transport_new (\<lambda>_. None) 2 []" lone_leader]
    by auto
qed

end
