(* ===== verification/Server.thy ===== *)
theory Server
  imports Transport
begin

text \<open>
  The client server of \<^verbatim>\<open>src/network/server.rs\<close>: construction, the tick thread's body, the session
  loop \<^verbatim>\<open>handle_client\<close> with its own reader of requests, and \<^verbatim>\<open>await_commit\<close>.

  The node is shared with the tick and listener threads under a mutex. The client thread takes the
  lock again and again; \<open>ce_others\<close> says what the other threads did to the node before its
  \<open>k\<close>-th acquisition, \<open>ce_clock\<close> the time in microseconds it reads after that one, and \<open>ce_write_ok\<close>
  whether its \<open>k\<close>-th write to the client succeeds. A connection is the list of what its reads yield:
  a line, an error, or nothing ever (the client stays connected and sends no more; reads have no
  timeout); the end of the list is the end of the stream. A session that never returns is \<open>None\<close>.
  \<^verbatim>\<open>await_commit\<close> polls until a deadline; it is a partial function, and that it returns is a theorem.
\<close>

record 'j Server =
  sv_node :: "'j ClusterNode"
  sv_addr :: string
  sv_transport :: PeerTransport
  sv_peer_port :: u16
  sv_node_id :: u64
  sv_all_nodes :: "NodeConfig list"

datatype server_error = StartError cluster_error | Panic string | PeerBindError | ClientBindError

definition server_new ::
  "'j json_fs \<Rightarrow> 'j cluster_disk \<Rightarrow> (string \<Rightarrow> string option) \<Rightarrow> u64 \<Rightarrow> u64 list \<Rightarrow> string \<Rightarrow> string \<Rightarrow>
     NodeConfig list \<Rightarrow> server_error + 'j Server" where
  "server_new fs d env nid ps client_addr data_dir all_nodes =
     (case cluster_new fs d nid ps data_dir of
        Inl e \<Rightarrow> Inl (StartError e)
      | Inr cluster_node \<Rightarrow>
         (case map_option nc_peer_port (List.find (\<lambda>c. nc_id c = nid) all_nodes) of
            None \<Rightarrow> Inl (Panic ''Node ID not found in config'')
          | Some peer_port \<Rightarrow>
              Inr \<lparr>sv_node = cluster_node, sv_addr = client_addr, sv_transport = transport_new env nid all_nodes,
                   sv_peer_port = peer_port, sv_node_id = nid, sv_all_nodes = all_nodes\<rparr>))"

text \<open>One round of the tick thread: the node it leaves and the connections it attempts.\<close>

definition tick_round ::
  "'j json_fs \<Rightarrow> (usize \<Rightarrow> wal_io) \<Rightarrow> (NetworkMessage \<Rightarrow> string option) \<Rightarrow> PeerTransport \<Rightarrow>
     'j ClusterNode \<Rightarrow> 'j ClusterNode \<times> (string \<times> string) list" where
  "tick_round fs io enc t n =
     (let (messages, n) = take_outbound_messages (cluster_tick fs io n)
      in (n, if messages \<noteq> [] then send_messages enc t messages else []))"

subsection \<open>Reading requests\<close>

datatype client_read = Line string | ReadError | Silence

datatype arguments = Arguments "string list" | Malformed | Stuck

fun read_client_args :: "nat \<Rightarrow> client_read list \<Rightarrow> arguments \<times> client_read list" where
  "read_client_args num_args lines =
     (if num_args = 0 then (Arguments [], lines)
      else case lines of
        [] \<Rightarrow> (Malformed, [])
      | ReadError # rest \<Rightarrow> (Malformed, rest)
      | Silence # rest \<Rightarrow> (Stuck, rest)
      | Line len_line # rest \<Rightarrow>
          if \<not> starts_with CHR ''$'' len_line then (Malformed, rest)
          else case rest of
            [] \<Rightarrow> (Malformed, [])
          | ReadError # rest \<Rightarrow> (Malformed, rest)
          | Silence # rest \<Rightarrow> (Stuck, rest)
          | Line data # rest \<Rightarrow>
              (case read_client_args (num_args - 1) rest of
                 (Arguments args, rest) \<Rightarrow> (Arguments (data # args), rest)
               | (failed, rest) \<Rightarrow> (failed, rest)))"

declare read_client_args.simps [simp del]

definition server_command :: "string list \<Rightarrow> Command" where
  "server_command args =
     (let command_name = to_uppercase (args ! 0)
      in if command_name = ''GET'' \<and> length args = 2 then Get (args ! 1)
         else if command_name = ''SET'' \<and> length args = 3 then Set (args ! 1) (args ! 2)
         else if command_name = ''DEL'' \<and> length args = 2 then Del (args ! 1)
         else if command_name = ''PING'' then Ping
         else Unknown command_name)"

text \<open>
  What the head of the session loop finds: the end, a client that sends nothing more, a malformed
  request, or a command.
\<close>

datatype request = Closed | Waiting | Refused string | Run Command

definition next_request :: "client_read list \<Rightarrow> request \<times> client_read list" where
  "next_request lines =
     (case lines of
        [] \<Rightarrow> (Closed, [])
      | ReadError # rest \<Rightarrow> (Closed, rest)
      | Silence # rest \<Rightarrow> (Waiting, rest)
      | Line first_line # rest \<Rightarrow>
          if \<not> starts_with CHR ''*'' first_line then (Refused ''invalid protocol'', rest)
          else case parse_usize (drop 1 first_line) of
            None \<Rightarrow> (Refused ''invalid argument count'', rest)
          | Some num_args \<Rightarrow>
              (case read_client_args num_args rest of
                 (Malformed, rest) \<Rightarrow> (Refused ''protocol parse error'', rest)
               | (Stuck, rest) \<Rightarrow> (Waiting, rest)
               | (Arguments args, rest) \<Rightarrow>
                   if args = [] then (Refused ''protocol parse error'', rest)
                   else (Run (server_command args), rest)))"

subsection \<open>Waiting for the commit\<close>

record 'j client_env =
  ce_fs :: "'j json_fs"
  ce_io :: "nat \<Rightarrow> usize \<Rightarrow> wal_io"
  ce_others :: "nat \<Rightarrow> 'j ClusterNode \<Rightarrow> 'j ClusterNode"
  ce_clock :: "nat \<Rightarrow> nat"
  ce_enc :: "NetworkMessage \<Rightarrow> string option"
  ce_write_ok :: "nat \<Rightarrow> bool"

definition commit_timeout :: Response where
  "commit_timeout = Error ''TIMEOUT - entry appended but not committed by a majority''"

text \<open>The \<^verbatim>\<open>loop\<close> of \<^verbatim>\<open>await_commit\<close>; \<open>k\<close> counts the acquisitions of the lock.\<close>

partial_function (option) await_loop ::
  "'j client_env \<Rightarrow> nat \<Rightarrow> usize \<Rightarrow> Response \<Rightarrow> nat \<Rightarrow> 'j ClusterNode \<Rightarrow> ('j ClusterNode \<times> nat \<times> Response) option" where
  "await_loop env deadline index ok k n =
     (let n = ce_others env k n
      in if rs_commit_index (rn_state (cn_raft n)) \<ge> index then Some (n, Suc k, ok)
         else if ce_clock env k \<ge> deadline then Some (n, Suc k, commit_timeout)
         else await_loop env deadline index ok (Suc k) n)"

definition await_commit ::
  "'j client_env \<Rightarrow> usize \<Rightarrow> Response \<Rightarrow> nat \<Rightarrow> 'j ClusterNode \<Rightarrow> ('j ClusterNode \<times> nat \<times> Response) option" where
  "await_commit env index ok k n = await_loop env (ce_clock env k + 3000000) index ok (Suc k) n"

subsection \<open>Sessions\<close>

record 'j session =
  ss_node :: "'j ClusterNode"
  ss_locks :: nat
  ss_sent :: "(string \<times> string) list"
  ss_writes :: nat
  ss_out :: "string list"

definition serve_command ::
  "'j client_env \<Rightarrow> PeerTransport \<Rightarrow> Command \<Rightarrow> 'j session \<Rightarrow> ('j session \<times> Response) option" where
  "serve_command env t command s =
     (let k = ss_locks s;
          n = ce_others env k (ss_node s);
          (n, resp) = handle_client_command (ce_fs env) (ce_io env k) command n;
          pending = cn_pending_commit_index n;
          (messages, n) = take_outbound_messages n;
          sent = ss_sent s @ (if messages \<noteq> [] then send_messages (ce_enc env) t messages else [])
      in case pending of
           Some idx \<Rightarrow>
             (case await_commit env idx resp k n of
                None \<Rightarrow> None
              | Some (n, k, resp) \<Rightarrow> Some (s\<lparr>ss_node := n, ss_locks := k, ss_sent := sent\<rparr>, resp))
         | None \<Rightarrow> Some (s\<lparr>ss_node := n, ss_locks := Suc k, ss_sent := sent\<rparr>, resp))"

text \<open>\<^verbatim>\<open>write_all\<close> of a serialised response: whether it succeeded, and the session after it.\<close>

definition write_response :: "'j client_env \<Rightarrow> Response \<Rightarrow> 'j session \<Rightarrow> bool \<times> 'j session" where
  "write_response env resp s =
     (let ok = ce_write_ok env (ss_writes s)
      in (ok, s\<lparr>ss_writes := Suc (ss_writes s), ss_out := (if ok then ss_out s @ [serialize resp] else ss_out s)\<rparr>))"

lemma read_client_args_length: "read_client_args num_args ls = (r, rest) \<Longrightarrow> length rest \<le> length ls"
  by (induction num_args ls arbitrary: r rest rule: read_client_args.induct)
    (subst (asm) (2) read_client_args.simps, fastforce split: if_splits list.splits client_read.splits arguments.splits prod.splits)

lemma next_request_length: "next_request ls = (r, rest) \<Longrightarrow> r \<noteq> Closed \<Longrightarrow> length rest < length ls"
  by (auto simp: next_request_def less_Suc_eq_le dest: read_client_args_length
      split: list.splits client_read.splits arguments.splits option.splits if_splits prod.splits)

function client_loop ::
  "'j client_env \<Rightarrow> PeerTransport \<Rightarrow> client_read list \<Rightarrow> 'j session \<Rightarrow> 'j session option" where
  "client_loop env t lines s =
     (case next_request lines of
        (Closed, rest) \<Rightarrow> Some s
      | (Waiting, rest) \<Rightarrow> None
      | (Refused msg, rest) \<Rightarrow> client_loop env t rest (snd (write_response env (Error msg) s))
      | (Run command, rest) \<Rightarrow>
         (case serve_command env t command s of
            None \<Rightarrow> None
          | Some (s, response) \<Rightarrow>
              let (ok, s) = write_response env response s
              in if ok then client_loop env t rest s else Some s))"
  by pat_completeness auto

termination
  by (relation "measure (\<lambda>(env, t, lines, s). length lines)") (auto dest: next_request_length [OF sym])

declare client_loop.simps [simp del]

definition handle_client ::
  "'j client_env \<Rightarrow> PeerTransport \<Rightarrow> bool \<Rightarrow> client_read list \<Rightarrow> 'j session \<Rightarrow> 'j session option" where
  "handle_client env t clone_ok lines s = (if \<not> clone_ok then Some s else client_loop env t lines s)"

subsection \<open>Running the server\<close>

text \<open>
  The accept loop: connections are served one after the other on the accepting thread. An incoming
  connection that could not be accepted is \<open>None\<close>; an accepted one is whether its socket could be
  cloned and its lines.
\<close>

fun accept_loop ::
  "'j client_env \<Rightarrow> PeerTransport \<Rightarrow> (bool \<times> client_read list) option list \<Rightarrow> 'j session \<Rightarrow> 'j session option" where
  "accept_loop env t [] s = Some s"
| "accept_loop env t (None # incoming) s = accept_loop env t incoming s"
| "accept_loop env t (Some (clone_ok, lines) # incoming) s =
     (case handle_client env t clone_ok lines s of
        None \<Rightarrow> None
      | Some s \<Rightarrow> accept_loop env t incoming s)"

text \<open>
  \<^verbatim>\<open>run\<close>: the metrics server, which only reads the node and whose failure is only reported, the peer
  listener, the tick thread, the accept loop. What the threads do to the node is \<open>ce_others\<close>.
\<close>

definition server_run ::
  "'j client_env \<Rightarrow> bool \<Rightarrow> bool \<Rightarrow> (bool \<times> client_read list) option list \<Rightarrow> 'j Server \<Rightarrow>
     server_error + 'j session option" where
  "server_run env peer_bind_ok client_bind_ok incoming sv =
     (if \<not> peer_bind_ok then Inl PeerBindError
      else if \<not> client_bind_ok then Inl ClientBindError
      else Inr (accept_loop env (sv_transport sv) incoming
                  \<lparr>ss_node = sv_node sv, ss_locks = 0, ss_sent = [], ss_writes = 0, ss_out = []\<rparr>))"

subsection \<open>The two readers of requests agree\<close>

lemma read_client_args_Line:
  "case read_args m ls of
     Some (args, rest) \<Rightarrow> read_client_args m (map Line ls) = (Arguments args, map Line rest)
   | None \<Rightarrow> fst (read_client_args m (map Line ls)) = Malformed"
proof (induction m ls rule: read_args.induct)
  case (1 m ls)
  show ?case
  proof (cases "m = 0 \<or> length ls < 2 \<or> \<not> starts_with CHR ''$'' (hd ls)")
    case True
    then show ?thesis
      by (subst read_args.simps, subst (1 2) read_client_args.simps) (auto split: list.splits)
  next
    case False
    then obtain a d rest where ls: "ls = a # d # rest" "starts_with CHR ''$'' a" and m: "m \<noteq> 0"
      by (cases ls; cases "tl ls") auto
    have "read_client_args m (map Line ls) = (case read_client_args (m - 1) (map Line rest) of
        (Arguments args, rest) \<Rightarrow> (Arguments (d # args), rest) | (failed, rest) \<Rightarrow> (failed, rest))"
      using ls m by (subst read_client_args.simps) simp
    moreover have "read_args m ls = (case read_args (m - 1) rest of None \<Rightarrow> None | Some (args, rest) \<Rightarrow> Some (d # args, rest))"
      using ls m by (subst read_args.simps) simp
    ultimately show ?thesis using 1 [OF m ls(1) refl] ls(2)
      by (cases "read_args (m - 1) rest") (auto split: prod.splits arguments.splits)
  qed
qed

lemma server_command_agrees:
  "args \<noteq> [] \<Longrightarrow> command_of_args args = Some c \<longleftrightarrow>
     server_command args = c \<and> c \<notin> {Unknown ''GET'', Unknown ''SET'', Unknown ''DEL''}"
  by (auto simp: command_of_args_def server_command_def Let_def)

end
