(* ===== verification/Raft_Defects.thy ===== *)
theory Raft_Defects
  imports Raft_Commit
begin

text \<open>
  Where replication falls short of Raft. A follower answers an AppendEntries with the end of its own
  log, whether or not those entries came from the leader, and the leader believes it. From that
  follow a commit that no other node holds, two nodes that apply different commands at the same
  index, and a follower whose log is never repaired. The runs are executable schedules of
  \<^theory_text>\<open>Raft_System\<close>, evaluated step by step.
\<close>

subsection \<open>Where the commit rule fails\<close>

text \<open>
  The run: node 2 leads term 1 and appends \<open>b\<close>, which reaches nobody. Node 1 is elected in term 2
  by node 3, and its first heartbeat (nothing to append, previous index 0) is accepted by node 2,
  which reports the end of its own log, index 1. Node 1 records that as replicated, so its next
  command, \<open>c\<close>, commits at index 1 the moment it is proposed.
\<close>

definition phantom_run :: "raft_event list" where
  "phantom_run =
     [Ticks 2 37, Deliver 1 0, Deliver 2 2, Client 2 (Put ''k'' ''b''),
      Ticks 1 59, Deliver 3 8, Deliver 1 9, Deliver 2 10, Deliver 1 12, Client 1 (Put ''k'' ''c'')]"

text \<open>Then node 2 is elected in term 3 by node 3, repairs node 3's log, and commits \<open>b\<close> at index 1.\<close>

definition divergent_run :: "raft_event list" where
  "divergent_run = phantom_run @
     [Ticks 2 57, Deliver 3 16, Deliver 2 17, Deliver 3 19, Deliver 2 20,
      Client 2 (Put ''k'' ''d''), Deliver 3 22, Deliver 2 23]"

lemma phantom_run_result:
  "case run_events memory_fs (\<lambda>_. ''data'') [1, 2, 3] phantom_run (raft_init memory_fs (\<lambda>_. ''data'') [1, 2, 3]) of
     None \<Rightarrow> False
   | Some s \<Rightarrow> role (sys_node s 1) = Leader \<and> commit_index (sys_node s 1) = 1 \<and>
       List.find (\<lambda>e. fst e = 2) (rs_next_index (rn_state (sys_node s 1))) = Some (2, 2) \<and>
       current_term (sys_node s 1) = 2 \<and> current_term (sys_node s 2) = 2 \<and> node_id (sys_node s 2) = 2 \<and>
       node_log (sys_node s 1) = log_new @ [\<lparr>le_term = 2, le_command = Put ''k'' ''c''\<rparr>] \<and>
       node_log (sys_node s 2) = log_new @ [\<lparr>le_term = 1, le_command = Put ''k'' ''b''\<rparr>] \<and>
       node_log (sys_node s 3) = log_new"
  by code_simp

lemma divergent_run_result:
  "case run_events memory_fs (\<lambda>_. ''data'') [1, 2, 3] divergent_run (raft_init memory_fs (\<lambda>_. ''data'') [1, 2, 3]) of
     None \<Rightarrow> False
   | Some s \<Rightarrow> last_applied (sys_node s 1) = 1 \<and> last_applied (sys_node s 2) = 2 \<and>
       commit_index (sys_node s 1) = 1 \<and> commit_index (sys_node s 2) = 2 \<and>
       log_get (node_log (sys_node s 1)) 1 = Some \<lparr>le_term = 2, le_command = Put ''k'' ''c''\<rparr> \<and>
       log_get (node_log (sys_node s 2)) 1 = Some \<lparr>le_term = 1, le_command = Put ''k'' ''b''\<rparr>"
  by code_simp

text \<open>
  A leader can commit an entry that no other node holds: in a reachable state of a group of
  three, node 1 is leader and has committed index 1, and neither of the others has its entry there.
\<close>

theorem commit_without_replication:
  "\<exists>s. raft_reachable memory_fs (\<lambda>_. ''data'') [1, 2, 3] s \<and> role (sys_node s 1) = Leader \<and>
     commit_index (sys_node s 1) = 1 \<and> log_get (node_log (sys_node s 1)) 1 \<noteq> None \<and>
     log_get (node_log (sys_node s 2)) 1 \<noteq> log_get (node_log (sys_node s 1)) 1 \<and>
     log_get (node_log (sys_node s 3)) 1 \<noteq> log_get (node_log (sys_node s 1)) 1"
proof -
  obtain s where s: "raft_reachable memory_fs (\<lambda>_. ''data'') [1, 2, 3] s" "role (sys_node s 1) = Leader"
      "commit_index (sys_node s 1) = 1"
      "node_log (sys_node s 1) = log_new @ [\<lparr>le_term = 2, le_command = Put ''k'' ''c''\<rparr>]"
      "node_log (sys_node s 2) = log_new @ [\<lparr>le_term = 1, le_command = Put ''k'' ''b''\<rparr>]"
      "node_log (sys_node s 3) = log_new"
    using phantom_run_result run_events_reachable by (fastforce split: option.splits)
  then show ?thesis by (intro exI [of _ s]) (simp add: log_get_def log_new_def)
qed

text \<open>
  State machine safety does not hold: in a reachable state of a group of three, nodes 1 and 2
  have both committed and applied index 1, with different commands.
\<close>

theorem nodes_apply_different_commands:
  "\<exists>s c d. raft_reachable memory_fs (\<lambda>_. ''data'') [1, 2, 3] s \<and>
     1 \<le> commit_index (sys_node s 1) \<and> 1 \<le> last_applied (sys_node s 1) \<and>
     1 \<le> commit_index (sys_node s 2) \<and> 1 \<le> last_applied (sys_node s 2) \<and>
     map_option le_command (log_get (node_log (sys_node s 1)) 1) = Some c \<and>
     map_option le_command (log_get (node_log (sys_node s 2)) 1) = Some d \<and> c \<noteq> d"
proof -
  obtain s where "raft_reachable memory_fs (\<lambda>_. ''data'') [1, 2, 3] s" "last_applied (sys_node s 1) = 1"
      "last_applied (sys_node s 2) = 2" "commit_index (sys_node s 1) = 1" "commit_index (sys_node s 2) = 2"
      "log_get (node_log (sys_node s 1)) 1 = Some \<lparr>le_term = 2, le_command = Put ''k'' ''c''\<rparr>"
      "log_get (node_log (sys_node s 2)) 1 = Some \<lparr>le_term = 1, le_command = Put ''k'' ''b''\<rparr>"
    using divergent_run_result run_events_reachable by (fastforce split: option.splits)
  then show ?thesis by (intro exI [of _ s]) simp
qed

subsection \<open>A log that is never repaired\<close>

text \<open>
  One exchange between a leader and a follower: the leader replicates, the follower handles the
  request, the leader handles the answer. No message is lost or delayed.
\<close>

definition exchange :: "'j json_fs \<Rightarrow> 'j RaftNode \<times> 'j RaftNode \<Rightarrow> 'j RaftNode \<times> 'j RaftNode" where
  "exchange fs nf =
     (case nf of (n, f) \<Rightarrow>
       (case replicate_to_peer n (node_id f) of
          Some (SendAppendEntries _ req) \<Rightarrow>
            (case handle_append_entries fs req f of (f', acts) \<Rightarrow>
               (case last acts of
                  SendAppendEntriesResponse _ resp \<Rightarrow>
                    (fst (handle_append_entries_response fs (node_id f) resp n), f')
                | _ \<Rightarrow> (n, f')))
        | _ \<Rightarrow> (n, f)))"

definition stuck :: "'j RaftNode \<times> 'j RaftNode \<Rightarrow> bool" where
  "stuck nf \<longleftrightarrow> (case nf of (n, f) \<Rightarrow> role n = Leader \<and> current_term f \<le> current_term n \<and>
     List.find (\<lambda>e. fst e = node_id f) (rs_next_index (rn_state n)) = Some (node_id f, last_index (node_log f) + 1) \<and>
     term_at (node_log n) (last_index (node_log f)) \<noteq> term_at (node_log f) (last_index (node_log f)))"

lemma update_first_same:
  "List.find (\<lambda>e. fst e = p) xs = Some (p, v) \<Longrightarrow> update_first p (\<lambda>_. v) xs = xs"
  by (induction xs) (auto split: if_splits)

lemma exchange_stuck:
  assumes "stuck (n, f)"
  shows "stuck (exchange fs (n, f)) \<and> fst (exchange fs (n, f)) = n \<and>
    node_log (snd (exchange fs (n, f))) = node_log f"
proof -
  let ?i = "last_index (node_log f)"
  let ?req = "\<lparr>ae_term = current_term n, ae_leader_id = node_id n, ae_prev_log_index = ?i,
    ae_prev_log_term = term_at (node_log n) ?i, ae_entries = drop (Suc ?i) (node_log n), ae_leader_commit = commit_index n\<rparr>"
  let ?resp = "\<lparr>aer_term = current_term n, aer_success = False, aer_match_index = Some ?i\<rparr>"
  have s: "role n = Leader" "current_term f \<le> current_term n"
    "List.find (\<lambda>e. fst e = node_id f) (rs_next_index (rn_state n)) = Some (node_id f, ?i + 1)"
    "term_at (node_log n) ?i \<noteq> term_at (node_log f) ?i"
    using assms by (auto simp: stuck_def)
  have sent: "replicate_to_peer n (node_id f) = Some (SendAppendEntries (node_id f) ?req)"
    using s(3) by (simp add: replicate_to_peer_def Let_def)
  have refused: "handle_append_entries fs ?req f =
      (accept_leader fs ?req f, [SendAppendEntriesResponse (node_id n) ?resp])"
    using s(2,4) by (auto simp: handle_append_entries_eq)
  have "note_response (node_id f) ?resp (rn_state n) = rn_state n"
    using update_first_same [OF s(3)] by (simp add: note_response_def)
  then have "fst (handle_append_entries_response fs (node_id f) ?resp n) = n"
    using s(1) by (simp add: handle_append_entries_response_eq)
  then have "exchange fs (n, f) = (n, accept_leader fs ?req f)"
    unfolding exchange_def by (simp add: sent refused)
  then show ?thesis using s by (simp add: stuck_def)
qed

text \<open>
  C36. The hint in a rejection can defeat its purpose. Suppose the leader's next index for a follower
  is one past the end of the follower's log and the entry there is of another term. The follower
  refuses and names the end of its log, the leader jumps to one past it, where it already was; so
  after any number of exchanges, none lost, the follower's log is what it was and so is the leader.
\<close>

theorem log_repair_stuck:
  assumes "role n = Leader" and "current_term f \<le> current_term n"
    and "List.find (\<lambda>e. fst e = node_id f) (rs_next_index (rn_state n)) = Some (node_id f, last_index (node_log f) + 1)"
    and "term_at (node_log n) (last_index (node_log f)) \<noteq> term_at (node_log f) (last_index (node_log f))"
  shows "fst ((exchange fs ^^ rounds) (n, f)) = n \<and> node_log (snd ((exchange fs ^^ rounds) (n, f))) = node_log f"
proof -
  have "stuck ((exchange fs ^^ rounds) (n, f)) \<and> fst ((exchange fs ^^ rounds) (n, f)) = n \<and>
    node_log (snd ((exchange fs ^^ rounds) (n, f))) = node_log f"
  proof (induction rounds)
    case 0
    show ?case using assms by (simp add: stuck_def)
  next
    case (Suc k)
    obtain m g where k: "(exchange fs ^^ k) (n, f) = (m, g)" by fastforce
    with Suc have "stuck (n, g)" "m = n" "node_log g = node_log f" by auto
    then show ?case using exchange_stuck [of n g fs] k by simp
  qed
  then show ?thesis by blast
qed

theorem log_repair_stuck_witness:
  "\<exists>s. raft_reachable memory_fs (\<lambda>_. ''data'') [1, 2, 3] s \<and>
     node_log (snd ((exchange memory_fs ^^ 1000) (sys_node s 1, sys_node s 2))) =
       log_new @ [\<lparr>le_term = 1, le_command = Put ''k'' ''b''\<rparr>]"
proof -
  obtain s where s: "raft_reachable memory_fs (\<lambda>_. ''data'') [1, 2, 3] s" "role (sys_node s 1) = Leader"
      "List.find (\<lambda>e. fst e = 2) (rs_next_index (rn_state (sys_node s 1))) = Some (2, 2)"
      "current_term (sys_node s 1) = 2" "current_term (sys_node s 2) = 2" "node_id (sys_node s 2) = 2"
      "node_log (sys_node s 1) = log_new @ [\<lparr>le_term = 2, le_command = Put ''k'' ''c''\<rparr>]"
      "node_log (sys_node s 2) = log_new @ [\<lparr>le_term = 1, le_command = Put ''k'' ''b''\<rparr>]"
    using phantom_run_result run_events_reachable by (fastforce split: option.splits)
  have "last_index (node_log (sys_node s 2)) = 1" by (simp add: s(8) last_index_def log_new_def)
  then show ?thesis
    using log_repair_stuck [of "sys_node s 1" "sys_node s 2" 1000 memory_fs] s
    by (intro exI [of _ s]) (simp add: term_at_def log_get_def log_new_def)
qed

end
