(* ===== verification/Server_Spec.thy ===== *)
theory Server_Spec
  imports Server Raft_Defects
begin

text \<open>
  What the client server promises. Its reader of requests agrees with \<^verbatim>\<open>Command::parse\<close> wherever that
  accepts; a wait for a commit ends, with the exact answer; clients are served, whatever the other
  threads do to the node, until one of them falls silent; a session with a single-node cluster answers the bytes of the
  specification; and an acknowledgement says less than it seems to, since \<^verbatim>\<open>await_commit\<close> looks at the
  commit index only and not at the entry that was committed.
\<close>

subsection \<open>Requests\<close>

text \<open>
  C19. The server's own reader and \<open>Command::parse\<close> accept the same requests with the same meaning,
  except that the server answers a known command with a wrong number of arguments as an unknown
  command where \<open>parse\<close> fails.
\<close>

theorem request_readers_agree:
  "parse input = Some c \<longleftrightarrow>
     fst (next_request (map Line (str_lines input))) = Run c \<and>
     c \<notin> {Unknown ''GET'', Unknown ''SET'', Unknown ''DEL''}"
proof (cases "str_lines input")
  case Nil
  then show ?thesis by (simp add: parse_def next_request_def)
next
  case (Cons l ls)
  show ?thesis
  proof (cases "starts_with CHR ''*'' l \<and> parse_usize (drop 1 l) \<noteq> None")
    case True
    then obtain m where m: "parse_usize (drop 1 l) = Some m" by blast
    show ?thesis
    proof (cases "read_args m ls")
      case None
      then show ?thesis
        using Cons m read_client_args_Line [of m ls]
        by (cases "read_client_args m (map Line ls)") (simp add: parse_def next_request_def)
    next
      case (Some ar)
      then obtain args rest where ar: "read_args m ls = Some (args, rest)" by (cases ar) simp
      then have rc: "read_client_args m (map Line ls) = (Arguments args, map Line rest)"
        using read_client_args_Line [of m ls] by simp
      show ?thesis
      proof (cases "args = []")
        case True
        then show ?thesis using Cons m ar rc by (simp add: parse_def next_request_def command_of_args_def)
      next
        case False
        then show ?thesis
          using True Cons m ar rc server_command_agrees [OF False, of c] by (simp add: parse_def next_request_def)
      qed
    qed
  qed (auto simp: Cons parse_def next_request_def split: option.splits)
qed

lemma next_request_encoded:
  assumes "args \<noteq> []" and "list_all one_line args" and "length args < 2 ^ 64"
  shows "next_request (map Line (str_lines (resp_encode args @ s))) = (Run (server_command args), map Line (str_lines s))"
proof -
  let ?bulks = "concat (map (\<lambda>a. [CHR ''$'' # show_nat (length a), a]) args)"
  have "read_client_args (length args) (map Line (?bulks @ str_lines s)) = (Arguments args, map Line (str_lines s))"
    using read_client_args_Line [of "length args" "?bulks @ str_lines s"] read_bulk_lines [of args "str_lines s"] by simp
  then show ?thesis
    using assms(1) lines_of_request [OF assms(2), of s] parse_show_usize [OF assms(3)]
    by (simp add: next_request_def starts_with_def)
qed

subsection \<open>Waiting\<close>

text \<open>The node as the \<open>j\<close>-th poll of a wait finds it.\<close>

primrec polled :: "'j client_env \<Rightarrow> nat \<Rightarrow> 'j ClusterNode \<Rightarrow> nat \<Rightarrow> 'j ClusterNode" where
  "polled env k n 0 = ce_others env k n"
| "polled env k n (Suc j) = ce_others env (k + Suc j) (polled env k n j)"

lemma polled_shift: "polled env k n (Suc j) = polled env (Suc k) (ce_others env k n) j"
  by (induction j) simp_all

definition poll_ends :: "'j client_env \<Rightarrow> nat \<Rightarrow> usize \<Rightarrow> nat \<Rightarrow> 'j ClusterNode \<Rightarrow> nat \<Rightarrow> bool" where
  "poll_ends env deadline index k n j \<longleftrightarrow>
     index \<le> commit_index (cn_raft (polled env k n j)) \<or> deadline \<le> ce_clock env (k + j)"

lemma await_loop_outcome:
  assumes "poll_ends env deadline index k n j" and "\<And>i. i < j \<Longrightarrow> \<not> poll_ends env deadline index k n i"
  shows "await_loop env deadline index ok k n = Some (polled env k n j, Suc (k + j),
    if index \<le> commit_index (cn_raft (polled env k n j)) then ok else commit_timeout)"
  using assms
proof (induction j arbitrary: k n)
  case 0
  then show ?case by (subst await_loop.simps) (auto simp: poll_ends_def Let_def)
next
  case (Suc j)
  have shift: "poll_ends env deadline index k n (Suc i) \<longleftrightarrow>
      poll_ends env deadline index (Suc k) (ce_others env k n) i" for i
    by (simp add: poll_ends_def polled_shift del: polled.simps)
  have "\<not> poll_ends env deadline index k n 0" using Suc.prems(2) [of 0] by simp
  then have "await_loop env deadline index ok k n = await_loop env deadline index ok (Suc k) (ce_others env k n)"
    by (subst await_loop.simps) (auto simp: poll_ends_def Let_def)
  also have "\<dots> = Some (polled env (Suc k) (ce_others env k n) j, Suc (Suc k + j),
      if index \<le> commit_index (cn_raft (polled env (Suc k) (ce_others env k n) j)) then ok else commit_timeout)"
    using Suc.prems shift by (intro Suc.IH) auto
  finally show ?case by (simp add: polled_shift del: polled.simps)
qed

lemma await_loop_ends:
  assumes "poll_ends env deadline index k n b"
  shows "\<exists>j \<le> b. poll_ends env deadline index k n j \<and> (\<forall>i < j. \<not> poll_ends env deadline index k n i) \<and>
    await_loop env deadline index ok k n = Some (polled env k n j, Suc (k + j),
      if index \<le> commit_index (cn_raft (polled env k n j)) then ok else commit_timeout)"
proof -
  let ?j = "LEAST j. poll_ends env deadline index k n j"
  have "poll_ends env deadline index k n ?j" using assms by (rule LeastI)
  moreover have "\<not> poll_ends env deadline index k n i" if "i < ?j" for i using that by (rule not_less_Least)
  moreover have "?j \<le> b" using assms by (rule Least_le)
  ultimately show ?thesis using await_loop_outcome [of env deadline index k n ?j ok] by blast
qed

text \<open>
  C16. A wait ends and says what it saw. If the clock does not run backwards and every sleep between
  polls takes its 200 microseconds, \<open>await_commit\<close> returns after at most 15001 polls; the answer is
  the one it was given exactly if the last poll found the index committed, and no earlier poll had
  found it committed or the three seconds over.
\<close>

theorem await_commit_outcome:
  assumes "ce_clock env k \<le> ce_clock env (Suc k)"
    and "\<And>j. ce_clock env (Suc k + j) + 200 \<le> ce_clock env (Suc k + Suc j)"
  shows "\<exists>j \<le> 15000.
    await_commit env index ok k n = Some (polled env (Suc k) n j, Suc (Suc k + j),
      if index \<le> commit_index (cn_raft (polled env (Suc k) n j)) then ok else commit_timeout) \<and>
    (index \<le> commit_index (cn_raft (polled env (Suc k) n j)) \<or> ce_clock env k + 3000000 \<le> ce_clock env (Suc k + j)) \<and>
    (\<forall>i < j. commit_index (cn_raft (polled env (Suc k) n i)) < index \<and> ce_clock env (Suc k + i) < ce_clock env k + 3000000)"
proof -
  have run: "ce_clock env (Suc k) + 200 * j \<le> ce_clock env (Suc k + j)" for j
  proof (induction j)
    case (Suc j)
    then show ?case using assms(2) [of j] by simp
  qed simp
  have "poll_ends env (ce_clock env k + 3000000) index (Suc k) n 15000"
    using run [of 15000] assms(1) by (simp add: poll_ends_def)
  from await_loop_ends [OF this, of ok] show ?thesis
    by (auto simp: await_commit_def poll_ends_def not_le)
qed

text \<open>A clock for concrete runs: 200 microseconds between readings.\<close>

definition steady_env :: "(nat \<Rightarrow> PersistentState ClusterNode \<Rightarrow> PersistentState ClusterNode) \<Rightarrow> PersistentState client_env" where
  "steady_env others =
     \<lparr>ce_fs = memory_fs, ce_io = \<lambda>_ _. Io_ok, ce_others = others, ce_clock = \<lambda>k. 200 * k,
      ce_enc = text_enc, ce_write_ok = \<lambda>_. True\<rparr>"

lemma steady_env_simps [simp]:
  "ce_fs (steady_env f) = memory_fs" "ce_io (steady_env f) = (\<lambda>_ _. Io_ok)" "ce_others (steady_env f) = f"
  "ce_clock (steady_env f) k = 200 * k" "ce_enc (steady_env f) = text_enc" "ce_write_ok (steady_env f) k"
  by (simp_all add: steady_env_def)

lemma polled_still: "polled (steady_env (\<lambda>_ n. n)) k n j = n"
  by (induction j) simp_all

theorem await_commit_outcome_witness:
  "\<exists>n' k'. await_commit (steady_env (\<lambda>_ n. n)) 1 (SimpleString ''OK'') 0 lone_leader = Some (n', k', commit_timeout)"
  using await_commit_outcome [of "steady_env (\<lambda>_ n. n)" 0 1 "SimpleString ''OK''" lone_leader]
  by (auto simp: polled_still lone_leader_props)

text \<open>Time passes: whatever the moment, some later reading of the clock is after it.\<close>

definition time_passes :: "'j client_env \<Rightarrow> bool" where
  "time_passes env \<longleftrightarrow> (\<forall>t k. \<exists>j. t \<le> ce_clock env (k + j))"

lemma serve_command_ends:
  assumes "time_passes env"
  shows "serve_command env t c s \<noteq> None"
proof -
  have ends: "await_commit env index r k n \<noteq> None" for index r k n
  proof -
    obtain j where "ce_clock env k + 3000000 \<le> ce_clock env (Suc k + j)"
      using assms unfolding time_passes_def by blast
    then have "poll_ends env (ce_clock env k + 3000000) index (Suc k) n j" by (simp add: poll_ends_def)
    from await_loop_ends [OF this, of r] show ?thesis by (auto simp: await_commit_def)
  qed
  show ?thesis
    by (simp add: serve_command_def Let_def case_prod_unfold ends split: option.splits del: not_None_eq)
qed

text \<open>What a reader consumes holds no silence, unless it is stuck there.\<close>

lemma read_client_args_rest:
  "read_client_args m ls = (a, rest) \<Longrightarrow>
     set rest \<subseteq> set ls \<and> (if a = Stuck then Silence \<in> set ls else Silence \<in> set ls \<longleftrightarrow> Silence \<in> set rest)"
proof (induction m ls arbitrary: a rest rule: read_client_args.induct)
  case (1 m ls)
  show ?case
  proof (cases "\<exists>x d rest'. m \<noteq> 0 \<and> ls = Line x # Line d # rest' \<and> starts_with CHR ''$'' x")
    case True
    then obtain x d rest' where ls: "m \<noteq> 0" "ls = Line x # Line d # rest'" "starts_with CHR ''$'' x" by blast
    obtain b r where b: "read_client_args (m - 1) rest' = (b, r)" by fastforce
    have "a = (case b of Arguments args \<Rightarrow> Arguments (d # args) | _ \<Rightarrow> b) \<and> rest = r"
      using "1.prems" ls b by (subst (asm) read_client_args.simps) (auto split: arguments.splits)
    then show ?thesis using "1.IH" [OF ls(1,2) refl _ refl refl b] ls by (auto split: arguments.splits)
  next
    case False
    then show ?thesis
      using "1.prems" by (subst (asm) read_client_args.simps) (auto split: if_splits list.splits client_read.splits)
  qed
qed

lemma next_request_rest:
  assumes "next_request ls = (r, rest)"
  shows "set rest \<subseteq> set ls" and "r = Closed \<Longrightarrow> ReadError \<notin> set ls \<Longrightarrow> ls = []" and "r = Waiting \<Longrightarrow> Silence \<in> set ls"
    and "r \<noteq> Closed \<Longrightarrow> r \<noteq> Waiting \<Longrightarrow> Silence \<in> set ls \<longleftrightarrow> Silence \<in> set rest"
  using assms
  by (auto simp: next_request_def split: list.splits client_read.splits if_splits option.splits prod.splits arguments.splits
      dest: read_client_args_rest)

lemma client_loop_returns:
  assumes "time_passes env" and "\<And>k. ce_write_ok env k" and "ReadError \<notin> set lines"
  shows "client_loop env t lines s \<noteq> None \<longleftrightarrow> Silence \<notin> set lines"
  using assms
proof (induction env t lines s rule: client_loop.induct)
  case (1 env t lines s)
  obtain r rest where nx: "next_request lines = (r, rest)" by fastforce
  note rest = next_request_rest [OF nx]
  have none: "ReadError \<notin> set rest" using rest(1) "1.prems"(3) by blast
  show ?case
  proof (cases r)
    case Closed
    then show ?thesis using nx rest(2) "1.prems"(3) by (subst client_loop.simps) simp
  next
    case Waiting
    then show ?thesis using nx rest(3) by (subst client_loop.simps) simp
  next
    case (Refused msg)
    then show ?thesis
      using nx rest(4) "1.IH"(1) [OF nx [symmetric] Refused "1.prems"(1,2) none] by (subst client_loop.simps) simp
  next
    case (Run c)
    obtain s' resp where sv: "serve_command env t c s = Some (s', resp)" using serve_command_ends [OF "1.prems"(1)] by fastforce
    obtain s'' where w: "write_response env resp s' = (True, s'')" using "1.prems"(2) by (simp add: write_response_def)
    have "client_loop env t rest s'' \<noteq> None \<longleftrightarrow> Silence \<notin> set rest"
      using "1.IH"(2) [OF nx [symmetric] Run sv refl refl w [symmetric] TrueI "1.prems"(1,2) none] by simp
    then show ?thesis using nx rest(4) Run sv w by (subst client_loop.simps) simp
  qed
qed


lemma steady_time_passes: "time_passes (steady_env f)"
proof -
  have "t \<le> 200 * (k + t)" for t k :: nat by simp
  then show ?thesis unfolding time_passes_def by (metis steady_env_simps(4))
qed


subsection \<open>Sessions with a single-node cluster\<close>

text \<open>
  What the other threads of a single-node cluster may do: keep it in its normal state, and its
  store and commit index as they are or further. A round of the tick thread is an example.
\<close>

definition quiet :: "'j client_env \<Rightarrow> bool" where
  "quiet env \<longleftrightarrow> (\<forall>k n. single_ok n \<longrightarrow>
     single_ok (ce_others env k n) \<and> engine_get (cn_storage (ce_others env k n)) = engine_get (cn_storage n) \<and>
     commit_index (cn_raft n) \<le> commit_index (cn_raft (ce_others env k n)))"

lemma tick_round_quiet:
  assumes "single_ok n"
  shows "single_ok (fst (tick_round fs io enc t n)) \<and>
    engine_get (cn_storage (fst (tick_round fs io enc t n))) = engine_get (cn_storage n) \<and>
    commit_index (cn_raft n) \<le> commit_index (cn_raft (fst (tick_round fs io enc t n)))"
proof -
  have s: "role (cn_raft n) = Leader" "peers (cn_raft n) = [node_id (cn_raft n)]"
    using assms by (simp_all add: single_ok_def Let_def)
  have "snd (tick_heartbeat (cn_raft n)) = []"
    using s(2) by (simp add: tick_heartbeat_def send_heartbeats_def replicate_to_all_peers_def Let_def)
  moreover have "tick fs (cn_raft n) = tick_heartbeat (cn_raft n)" using s(1) by (simp add: tick_def)
  ultimately show ?thesis
    using assms
    by (simp add: tick_round_def cluster_tick_def take_outbound_messages_def process_actions_eq single_ok_def
        Let_def case_prod_unfold)
qed

lemma serve_single:
  assumes "single_ok (ss_node s)" and "quiet env" and "ce_io env = (\<lambda>_ _. Io_ok)"
  shows "\<exists>s'. serve_command env t c s = Some (s', snd (spec_command c (engine_get (cn_storage (ss_node s))))) \<and>
    single_ok (ss_node s') \<and> engine_get (cn_storage (ss_node s')) = fst (spec_command c (engine_get (cn_storage (ss_node s)))) \<and>
    ss_out s' = ss_out s \<and> ss_writes s' = ss_writes s"
proof -
  let ?n = "ce_others env (ss_locks s) (ss_node s)"
  let ?h = "handle_client_command (ce_fs env) (\<lambda>_. Io_ok) c ?n"
  let ?m = "snd (take_outbound_messages (fst ?h))"
  have n: "single_ok ?n" "engine_get (cn_storage ?n) = engine_get (cn_storage (ss_node s))"
    using assms(1,2) by (simp_all add: quiet_def)
  have h: "single_ok (fst ?h)" by (rule single_node.keeps_ok [OF n(1)])
  have spec: "spec_command c (engine_get (cn_storage (ss_node s))) = (engine_get (cn_storage (fst ?h)), snd ?h)"
    using single_node.refines [OF n(1), of c "ce_fs env"] n(2) by simp
  have m: "single_ok ?m" "engine_get (cn_storage ?m) = engine_get (cn_storage (fst ?h))" "cn_raft ?m = cn_raft (fst ?h)"
    using h by (simp_all add: take_outbound_messages_def single_ok_def)
  show ?thesis
  proof (cases "cn_pending_commit_index (fst ?h)")
    case None
    then show ?thesis using m spec assms(3) by (simp add: serve_command_def Let_def case_prod_unfold)
  next
    case (Some idx)
    then have idx: "idx = commit_index (cn_raft (fst ?h))" using single_pending [OF n(1), of "ce_fs env" c] by simp
    let ?o = "ce_others env (Suc (ss_locks s)) ?m"
    have o: "single_ok ?o" "engine_get (cn_storage ?o) = engine_get (cn_storage ?m)" "idx \<le> commit_index (cn_raft ?o)"
      using assms(2) m idx unfolding quiet_def by metis+
    have "await_commit env idx (snd ?h) (ss_locks s) ?m = Some (?o, Suc (Suc (ss_locks s)), snd ?h)"
      unfolding await_commit_def using o(3) by (subst await_loop.simps) (simp add: Let_def)
    then show ?thesis
      using Some o m spec assms(3) by (simp add: serve_command_def Let_def case_prod_unfold)
  qed
qed

text \<open>
  C5. A client of a single-node cluster talks to the specification. Whatever requests it encodes and
  sends over one connection, as long as none of their arguments contains a line feed, the bytes it
  gets back are the serialised answers of the key-value map to those commands, in order, one for
  each request, with the tick thread running in between.
\<close>

theorem session_refines_spec:
  assumes "single_ok (ss_node s)" and "quiet env" and "ce_io env = (\<lambda>_ _. Io_ok)" and "\<And>k. ce_write_ok env k"
    and "\<And>args. args \<in> set requests \<Longrightarrow> args \<noteq> [] \<and> length args < 2 ^ 64 \<and> (\<forall>a \<in> set args. LF \<notin> set a)"
  shows "\<exists>s'. handle_client env t True (map Line (str_lines (concat (map resp_encode requests)))) s = Some s' \<and>
    ss_out s' = ss_out s @ map serialize
      (snd (run_commands spec_command (map server_command requests) (engine_get (cn_storage (ss_node s)))))"
  using assms
proof (induction requests arbitrary: s)
  case Nil
  then show ?case by (simp add: handle_client_def client_loop.simps next_request_def)
next
  case (Cons args requests)
  let ?c = "server_command args"
  let ?text = "concat (map resp_encode requests)"
  have "list_all one_line args" using Cons.prems(5) [of args] by (simp add: list_all_iff one_line_def)
  then have req: "next_request (map Line (str_lines (resp_encode args @ ?text))) = (Run ?c, map Line (str_lines ?text))"
    using Cons.prems(5) [of args] by (intro next_request_encoded) auto
  obtain s1 where s1: "serve_command env t ?c s = Some (s1, snd (spec_command ?c (engine_get (cn_storage (ss_node s)))))"
    "single_ok (ss_node s1)" "engine_get (cn_storage (ss_node s1)) = fst (spec_command ?c (engine_get (cn_storage (ss_node s))))"
    "ss_out s1 = ss_out s" using serve_single [OF Cons.prems(1-3), of t ?c] by blast
  let ?w = "write_response env (snd (spec_command ?c (engine_get (cn_storage (ss_node s))))) s1"
  have w: "fst ?w" "ss_node (snd ?w) = ss_node s1"
    "ss_out (snd ?w) = ss_out s @ [serialize (snd (spec_command ?c (engine_get (cn_storage (ss_node s)))))]"
    using Cons.prems(4) s1(4) by (simp_all add: write_response_def Let_def)
  have "handle_client env t True (map Line (str_lines (concat (map resp_encode (args # requests))))) s =
      handle_client env t True (map Line (str_lines ?text)) (snd ?w)"
    using req s1(1) w(1) by (simp add: handle_client_def client_loop.simps [of env t _ s] case_prod_unfold Let_def)
  moreover have "\<exists>s'. handle_client env t True (map Line (str_lines ?text)) (snd ?w) = Some s' \<and>
      ss_out s' = ss_out (snd ?w) @ map serialize
        (snd (run_commands spec_command (map server_command requests) (engine_get (cn_storage (ss_node (snd ?w))))))"
    using Cons.prems(2-4) Cons.prems(5) [OF list.set_intros(2)] s1(2) w(2) by (intro Cons.IH) simp_all
  ultimately show ?case
    using s1(3) w(2,3) by (simp add: Let_def case_prod_unfold)
qed

theorem session_refines_spec_witness:
  "\<exists>s'. handle_client (steady_env (\<lambda>k n. fst (tick_round memory_fs (\<lambda>_. Io_ok) text_enc (transport_new (\<lambda>_. None) 1 []) n)))
       (transport_new (\<lambda>_. None) 1 []) True
       (map Line (str_lines (concat (map resp_encode [[''SET'', ''a'', ''1''], [''get'', ''a'']]))))
       \<lparr>ss_node = lone_leader, ss_locks = 0, ss_sent = [], ss_writes = 0, ss_out = []\<rparr> = Some s' \<and>
     ss_out s' = [''+OK'' @ crlf, ''$1'' @ crlf @ ''1'' @ crlf]"
proof -
  let ?t = "transport_new (\<lambda>_. None) 1 []"
  let ?env = "steady_env (\<lambda>k n. fst (tick_round memory_fs (\<lambda>_. Io_ok) text_enc ?t n))"
  let ?s = "\<lparr>ss_node = lone_leader, ss_locks = 0, ss_sent = [], ss_writes = 0, ss_out = []\<rparr>"
  let ?requests = "[[''SET'', ''a'', ''1''], [''get'', ''a'']]"
  have cmds: "map server_command ?requests = [Set ''a'' ''1'', Get ''a'']" by code_simp
  have "show_nat (Suc 0) = ''1''" by code_simp
  then have "map serialize (snd (run_commands spec_command (map server_command ?requests)
      (engine_get (cn_storage (ss_node ?s))))) = [''+OK'' @ crlf, ''$1'' @ crlf @ ''1'' @ crlf]"
    unfolding cmds by (simp add: lone_leader_props serialize_def)
  moreover have "quiet ?env" by (simp add: quiet_def tick_round_quiet)
  then have "\<exists>s'. handle_client ?env ?t True (map Line (str_lines (concat (map resp_encode ?requests)))) ?s = Some s' \<and>
    ss_out s' = ss_out ?s @ map serialize
      (snd (run_commands spec_command (map server_command ?requests) (engine_get (cn_storage (ss_node ?s)))))"
    by (intro session_refines_spec) (auto simp: lone_leader_single_ok)
  ultimately show ?thesis by simp
qed

subsection \<open>What an acknowledgement says\<close>

text \<open>
  The run: node 2 leads term 1 and appends \<open>b\<close> at index 1, which reaches nobody; its server waits for
  index 1. Node 1 is elected in term 2, appends \<open>c\<close> at index 1 and replicates it to node 2, where it
  replaces \<open>b\<close>; the next heartbeat moves the commit index of node 2 to 1.
\<close>

definition accepting_run :: "raft_event list" where
  "accepting_run = [Ticks 2 37, Deliver 1 0, Deliver 2 2, Client 2 (Put ''k'' ''b'')]"

definition overtaking_run :: "raft_event list" where
  "overtaking_run = [Ticks 1 59, Deliver 3 8, Deliver 1 9, Client 1 (Put ''k'' ''c''),
     Deliver 2 12, Deliver 1 14, Ticks 1 1, Deliver 2 15]"

lemma overtaking_run_result:
  "case run_events memory_fs (\<lambda>_. ''data'') [1, 2, 3] accepting_run (raft_init memory_fs (\<lambda>_. ''data'') [1, 2, 3]) of
     None \<Rightarrow> False
   | Some s \<Rightarrow> role (sys_node s 2) = Leader \<and>
       node_log (sys_node s 2) = log_new @ [\<lparr>le_term = 1, le_command = Put ''k'' ''b''\<rparr>] \<and>
       (case run_events memory_fs (\<lambda>_. ''data'') [1, 2, 3] overtaking_run s of
          None \<Rightarrow> False
        | Some s' \<Rightarrow> commit_index (sys_node s' 2) = 1 \<and>
            node_log (sys_node s' 1) = log_new @ [\<lparr>le_term = 2, le_command = Put ''k'' ''c''\<rparr>] \<and>
            node_log (sys_node s' 2) = log_new @ [\<lparr>le_term = 2, le_command = Put ''k'' ''c''\<rparr>] \<and>
            node_log (sys_node s' 3) = log_new)"
  by code_simp

text \<open>
  C35. An acknowledged write can be lost. In a run of three nodes, a leader accepts a \<open>Put\<close> at the end
  of its log and its server waits for that index; a poll then finds the index committed, so the
  client is answered \<open>OK\<close>, although the entry committed there is another one and no log of the
  group holds the accepted one.
\<close>

theorem acknowledged_write_lost:
  "\<exists>s s'. raft_reachable memory_fs (\<lambda>_. ''data'') [1, 2, 3] s \<and> raft_steps memory_fs (\<lambda>_. ''data'') [1, 2, 3] s s' \<and>
     role (sys_node s 2) = Leader \<and>
     last (node_log (sys_node s 2)) = \<lparr>le_term = 1, le_command = Put ''k'' ''b''\<rparr> \<and>
     (\<forall>n k. \<exists>n' k'.
       await_commit (steady_env (\<lambda>_ m. m\<lparr>cn_raft := sys_node s' 2\<rparr>)) (last_index (node_log (sys_node s 2)))
         (SimpleString ''OK'') k (n\<lparr>cn_raft := sys_node s 2\<rparr>) = Some (n', k', SimpleString ''OK'')) \<and>
     \<lparr>le_term = 1, le_command = Put ''k'' ''b''\<rparr> \<notin> set (node_log (sys_node s' 1)) \<union> set (node_log (sys_node s' 2)) \<union> set (node_log (sys_node s' 3))"
proof -
  obtain s s' where run: "run_events memory_fs (\<lambda>_. ''data'') [1, 2, 3] accepting_run (raft_init memory_fs (\<lambda>_. ''data'') [1, 2, 3]) = Some s"
      "run_events memory_fs (\<lambda>_. ''data'') [1, 2, 3] overtaking_run s = Some s'"
    and s: "role (sys_node s 2) = Leader" "node_log (sys_node s 2) = log_new @ [\<lparr>le_term = 1, le_command = Put ''k'' ''b''\<rparr>]"
    and s': "commit_index (sys_node s' 2) = 1"
      "node_log (sys_node s' 1) = log_new @ [\<lparr>le_term = 2, le_command = Put ''k'' ''c''\<rparr>]"
      "node_log (sys_node s' 2) = log_new @ [\<lparr>le_term = 2, le_command = Put ''k'' ''c''\<rparr>]"
      "node_log (sys_node s' 3) = log_new"
    using overtaking_run_result by (auto split: option.splits)
  have "await_commit (steady_env (\<lambda>_ m. m\<lparr>cn_raft := sys_node s' 2\<rparr>)) 1 r k n =
      Some (n\<lparr>cn_raft := sys_node s' 2\<rparr>, Suc (Suc k), r)" for r k n
    unfolding await_commit_def using s'(1) by (subst await_loop.simps) (simp add: Let_def)
  moreover have "last_index (node_log (sys_node s 2)) = 1" using s(2) by (simp add: last_index_def log_new_def)
  moreover have "raft_steps memory_fs (\<lambda>_. ''data'') [1, 2, 3] s s'" by (rule run_events_sound [OF run(2) steps_refl])
  ultimately show ?thesis
    using run_events_reachable [OF run(1)] s s'
    by (intro exI [of _ s] exI [of _ s']) (simp add: log_new_def sentinel_def)
qed

end
