(* ===== verification/Raft_Behaviour.thy ===== *)
theory Raft_Behaviour
  imports Raft_Commit
begin

text \<open>
  Properties of a single node that hold whatever the others do: the range of the randomised
  timeout, the exact tick at which an election starts, the rhythm of heartbeats, the rule by
  which a vote is granted, and what a node makes of a damaged state file.
\<close>

subsection \<open>Timers\<close>

lemma timeout_in_range:
  "30 \<le> (x :: u64) mod 30 + 30 \<and> x mod 30 + 30 < 60"
proof -
  have "unat (x mod 30) < 30" by (simp add: unat_mod)
  then have "unat (x mod 30 + 30) = unat (x mod 30) + 30" by (subst unat_add_lem [THEN iffD1]) simp_all
  with \<open>unat (x mod 30) < 30\<close> show ?thesis by (simp add: word_le_nat_alt word_less_nat_alt)
qed

text \<open>
  C22. The randomised election timeout lies between \<open>ELECTION_TIMEOUT_MIN\<close> and
  \<open>ELECTION_TIMEOUT_MAX\<close> (exclusive), whatever the seed, wrap-around of the generator included,
  and the countdown starts at the chosen duration.
\<close>

theorem election_timeout_range:
  "ELECTION_TIMEOUT_MIN \<le> rn_election_timeout (reset_election_timeout n) \<and>
   rn_election_timeout (reset_election_timeout n) < ELECTION_TIMEOUT_MAX \<and>
   rn_election_timeout_duration (reset_election_timeout n) = rn_election_timeout (reset_election_timeout n)"
  using timeout_in_range
  by (simp add: reset_election_timeout_def ELECTION_TIMEOUT_MIN_def ELECTION_TIMEOUT_MAX_def Let_def)

lemma node_life_append:
  "node_life fs (xs @ ys) n =
     (let (n, a) = node_life fs xs n; (n, b) = node_life fs ys n in (n, a @ b))"
  by (induction xs arbitrary: n) (simp_all add: Let_def case_prod_unfold)

lemma unat_minus_of_nat:
  assumes "j \<le> unat (x :: u64)"
  shows "unat (x - of_nat j) = unat x - j"
proof -
  have "unat x < 2 ^ LENGTH(64)" by (rule unsigned_less)
  then have "j < 2 ^ 64" using assms by simp
  then have "unat (of_nat j :: u64) = j" by (simp add: unat_of_nat)
  then show ?thesis using assms by (simp add: unat_sub word_le_nat_alt)
qed

lemma countdown:
  assumes "role n \<noteq> Leader" and "k < unat (rn_election_timeout n)"
  shows "node_life fs (replicate k InTick) n = (n\<lparr>rn_election_timeout := rn_election_timeout n - of_nat k\<rparr>, [])"
  using assms(2)
proof (induction k)
  case (Suc k)
  let ?m = "n\<lparr>rn_election_timeout := rn_election_timeout n - of_nat k\<rparr>"
  have eq: "unat (rn_election_timeout n - of_nat j) = unat (rn_election_timeout n) - j"
    if "j \<le> unat (rn_election_timeout n)" for j
    using that by (rule unat_minus_of_nat)
  have pos: "0 < rn_election_timeout n - of_nat k" "0 < rn_election_timeout n - of_nat k - 1"
    using eq [of k] eq [of "Suc k"] Suc.prems by (simp_all add: word_less_nat_alt diff_diff_add add.commute [of 1])
  then have "tick fs ?m = (?m\<lparr>rn_election_timeout := rn_election_timeout n - of_nat k - 1\<rparr>, [])"
    using assms(1) by (cases "role n") (simp_all add: tick_def tick_election_def Let_def)
  then show ?case
    using Suc by (simp add: replicate_append_same [symmetric] node_life_append diff_diff_add Let_def)
qed simp

lemma election_after_countdown:
  assumes "role n \<noteq> Leader" and "0 < rn_election_timeout n"
  shows "node_life fs (replicate (unat (rn_election_timeout n)) InTick) n =
    start_election fs (n\<lparr>rn_election_timeout := 0\<rparr>)"
proof -
  let ?t = "unat (rn_election_timeout n)"
  let ?m = "n\<lparr>rn_election_timeout := rn_election_timeout n - of_nat (?t - 1)\<rparr>"
  have t: "0 < ?t" using assms(2) by (simp add: word_less_nat_alt)
  then have "node_life fs (replicate (?t - 1) InTick) n = (?m, [])"
    using countdown [OF assms(1), of "?t - 1" fs] by simp
  moreover have "rn_election_timeout n - of_nat (?t - 1) = 1"
    using t by (simp add: of_nat_diff)
  then have "tick fs ?m = start_election fs (n\<lparr>rn_election_timeout := 0\<rparr>)"
    using assms(1) by (cases "role n") (simp_all add: tick_def tick_election_def Let_def)
  moreover have "replicate ?t InTick = replicate (?t - 1) InTick @ [InTick]"
    using t by (metis Suc_diff_1 replicate_Suc replicate_append_same)
  ultimately show ?thesis by (simp add: node_life_append Let_def case_prod_unfold)
qed

text \<open>
  C21. Elections start on time. A follower or candidate whose countdown stands at \<open>t > 0\<close> and that
  hears nothing does nothing for \<open>t - 1\<close> ticks and starts an election at tick \<open>t\<close>.
\<close>

theorem election_starts_on_time:
  assumes "role n \<noteq> Leader" and "0 < rn_election_timeout n"
  shows "node_life fs (replicate (unat (rn_election_timeout n)) InTick) n =
    start_election fs (n\<lparr>rn_election_timeout := 0\<rparr>)"
  using assms by (rule election_after_countdown)

theorem election_starts_on_time_witness:
  "node_life memory_fs (replicate (unat (rn_election_timeout (fresh_node memory_fs ''data'' [1, 2, 3] 1))) InTick)
     (fresh_node memory_fs ''data'' [1, 2, 3] 1) =
   start_election memory_fs ((fresh_node memory_fs ''data'' [1, 2, 3] 1)\<lparr>rn_election_timeout := 0\<rparr>)"
  by (rule election_starts_on_time) (simp, code_simp)

text \<open>
  Heartbeats keep their rhythm. Whatever the phase of its timer, a leader sends exactly one
  round of heartbeats in any three consecutive ticks, and is then in the same state as before.
\<close>

theorem heartbeat_every_interval:
  assumes "role n = Leader" and "rn_heartbeat_timeout n \<in> {1, 2, 3}"
  shows "node_life fs (replicate (unat HEARTBEAT_INTERVAL) InTick) n = (n, replicate_to_all_peers n)"
proof -
  have "replicate_to_peer (n\<lparr>rn_heartbeat_timeout := h\<rparr>) = replicate_to_peer n" for h
    by (simp add: fun_eq_iff replicate_to_peer_def Let_def)
  then have [simp]: "replicate_to_all_peers (n\<lparr>rn_heartbeat_timeout := h\<rparr>) = replicate_to_all_peers n" for h
    by (simp add: replicate_to_all_peers_def)
  have keep: "rn_heartbeat_timeout n = h \<Longrightarrow> n\<lparr>rn_heartbeat_timeout := h\<rparr> = n" for h by simp
  have "unat HEARTBEAT_INTERVAL = 3" by (simp add: HEARTBEAT_INTERVAL_def)
  then have "replicate (unat HEARTBEAT_INTERVAL) InTick = [InTick, InTick, InTick]"
    by (simp add: numeral_3_eq_3)
  then show ?thesis
    using assms keep unfolding HEARTBEAT_INTERVAL_def
    by (auto simp: HEARTBEAT_INTERVAL_def tick_def tick_heartbeat_def send_heartbeats_def Let_def)
qed

theorem heartbeat_every_interval_witness:
  "node_life memory_fs (replicate (unat HEARTBEAT_INTERVAL) InTick)
     (fst (tick memory_fs (fst (start_election memory_fs (fresh_node memory_fs ''data'' [1] 1))))) =
   (fst (tick memory_fs (fst (start_election memory_fs (fresh_node memory_fs ''data'' [1] 1)))),
    replicate_to_all_peers (fst (tick memory_fs (fst (start_election memory_fs (fresh_node memory_fs ''data'' [1] 1))))))"
  by (rule heartbeat_every_interval) (code_simp, code_simp)

subsection \<open>Granting a vote\<close>

text \<open>
  C20. The voting rule, on every branch: a request is answered once, to the candidate, in the
  voter's term after the request; the vote is granted exactly if the request is not of an older
  term, the voter has not voted for another candidate in that term, and the candidate's last entry
  is at least as good as the voter's, terms compared first and indices second.
\<close>

theorem voting_rule:
  "snd (handle_request_vote fs req n) =
     [SendRequestVoteResponse (rv_candidate_id req)
        \<lparr>rvr_term = max (current_term n) (rv_term req),
         rvr_vote_granted =
           (current_term n \<le> rv_term req \<and>
            (current_term n < rv_term req \<or> voted_for n \<in> {None, Some (rv_candidate_id req)}) \<and>
            ((last_term (node_log n), last_index (node_log n)), rv_last_log_term req, rv_last_log_index req)
              \<in> {((t, i), t', i'). t < t' \<or> t = t' \<and> i \<le> i'})\<rparr>]"
proof (cases "rv_term req < current_term n")
  case True
  then show ?thesis by (auto simp: handle_request_vote_def max_def)
next
  case False
  then show ?thesis
    by (auto simp: handle_request_vote_def Let_def candidate_up_to_date_def max_def not_less split: option.splits)
qed

subsection \<open>A damaged state file\<close>

text \<open>
  C40. A state file that cannot be read or parsed is treated like no file at all: the node starts,
  without an error, at term 0 with no vote and an empty log, whatever it had promised before.
\<close>

theorem damaged_state_file_forgets:
  assumes "load fs (persister_new disk (state_path data_dir i)) = Inl e"
  shows "\<exists>n. with_persistence fs True disk i ps data_dir = Inr n \<and>
    current_term n = 0 \<and> voted_for n = None \<and> node_log n = log_new"
  using assms by (auto simp: with_persistence_def Let_def)

theorem damaged_state_file_forgets_witness:
  "\<exists>n. with_persistence (memory_fs\<lparr>from_json := \<lambda>_. None\<rparr>) True
      (\<lambda>_. Some \<lparr>ps_current_term = 7, ps_voted_for = Some 2, ps_log = log_new\<rparr>) 1 [1, 2, 3] ''data'' = Inr n \<and>
    current_term n = 0 \<and> voted_for n = None \<and> node_log n = log_new"
  by (rule damaged_state_file_forgets) (simp add: load_def persister_new_def memory_fs_def)

end
