(* ===== verification/Metrics.thy ===== *)
theory Metrics
  imports Cluster_Spec
begin

text \<open>
  The metrics endpoint of \<^verbatim>\<open>src/metrics.rs\<close>: the page in Prometheus' text format, the HTTP response
  around it, and the server loop, as a function of the nodes its connections find. Texts are ASCII,
  so \<^verbatim>\<open>body.len()\<close> is the number of characters. \<open>http_body\<close> is what an HTTP client makes of a
  response: the headers up to the empty line, then as many bytes as \<^verbatim>\<open>Content-Length\<close> says.
\<close>

abbreviation DQ :: char where "DQ \<equiv> CHR 0x22"

definition role_num :: "NodeRole \<Rightarrow> nat" where
  "role_num r = (case r of Follower \<Rightarrow> 0 | Candidate \<Rightarrow> 1 | Leader \<Rightarrow> 2)"

definition role_str :: "NodeRole \<Rightarrow> string" where
  "role_str r = (case r of Follower \<Rightarrow> ''follower'' | Candidate \<Rightarrow> ''candidate'' | Leader \<Rightarrow> ''leader'')"

text \<open>The label part of a sample: \<^verbatim>\<open>{node="..."}\<close> and a blank.\<close>

definition node_label :: "u64 \<Rightarrow> string" where
  "node_label nid = ''{node='' @ [DQ] @ show_nat (unat nid) @ [DQ] @ ''} ''"

definition role_label :: "u64 \<Rightarrow> NodeRole \<Rightarrow> string" where
  "role_label nid r =
     ''{node='' @ [DQ] @ show_nat (unat nid) @ [DQ] @ '',role='' @ [DQ] @ role_str r @ [DQ] @ ''} ''"

definition generate_metrics :: "'j ClusterNode \<Rightarrow> u64 \<Rightarrow> string" where
  "generate_metrics n nid =
     (let state = rn_state (cn_raft n)
      in ''# HELP raftkv_current_term The current Raft term'' @ [LF] @
         ''# TYPE raftkv_current_term gauge'' @ [LF] @
         (''raftkv_current_term'' @ node_label nid @ show_nat (unat (rs_current_term state))) @ [LF] @
         ''# HELP raftkv_role Current role (0=follower, 1=candidate, 2=leader)'' @ [LF] @
         ''# TYPE raftkv_role gauge'' @ [LF] @
         (''raftkv_role'' @ role_label nid (rs_role state) @ show_nat (role_num (rs_role state))) @ [LF] @
         ''# HELP raftkv_commit_index The highest committed log index'' @ [LF] @
         ''# TYPE raftkv_commit_index gauge'' @ [LF] @
         (''raftkv_commit_index'' @ node_label nid @ show_nat (rs_commit_index state)) @ [LF] @
         ''# HELP raftkv_last_applied The highest applied log index'' @ [LF] @
         ''# TYPE raftkv_last_applied gauge'' @ [LF] @
         (''raftkv_last_applied'' @ node_label nid @ show_nat (rs_last_applied state)) @ [LF] @
         ''# HELP raftkv_log_length Number of entries in the Raft log'' @ [LF] @
         ''# TYPE raftkv_log_length gauge'' @ [LF] @
         (''raftkv_log_length'' @ node_label nid @ show_nat (last_index (rs_log state))) @ [LF] @
         ''# HELP raftkv_is_leader Whether this node is the leader (1=yes, 0=no)'' @ [LF] @
         ''# TYPE raftkv_is_leader gauge'' @ [LF] @
         (''raftkv_is_leader'' @ node_label nid @ show_nat (if rs_role state = Leader then 1 else 0)) @ [LF] @
         (case rs_leader_id state of
            None \<Rightarrow> []
          | Some leader_id \<Rightarrow>
              ''# HELP raftkv_known_leader The node ID of the known leader'' @ [LF] @
              ''# TYPE raftkv_known_leader gauge'' @ [LF] @
              (''raftkv_known_leader'' @ node_label nid @ show_nat (unat leader_id)) @ [LF]))"

definition metrics_port :: "u64 \<Rightarrow> u16" where
  "metrics_port nid = 9100 + ucast nid"

definition http_response :: "string \<Rightarrow> string" where
  "http_response body =
     ''HTTP/1.1 200 OK'' @ crlf @ ''Content-Type: text/plain; charset=utf-8'' @ crlf @
     ''Content-Length: '' @ show_nat (length body) @ crlf @ crlf @ body"

text \<open>
  The server: whether the port could be bound, and for each incoming connection the node it finds,
  or \<open>None\<close> if it could not be accepted. The request is read but not looked at.
\<close>

definition start_metrics_server :: "bool \<Rightarrow> u64 \<Rightarrow> 'j ClusterNode option list \<Rightarrow> string list" where
  "start_metrics_server bind_ok nid incoming =
     (if \<not> bind_ok then []
      else List.map_filter (map_option (\<lambda>n. http_response (generate_metrics n nid))) incoming)"

subsection \<open>What a scraper reads off the page\<close>

definition metric :: "string \<Rightarrow> string \<Rightarrow> string \<Rightarrow> nat \<Rightarrow> string list" where
  "metric name help label v =
     [''# HELP raftkv_'' @ name @ help, ''# TYPE raftkv_'' @ name @ '' gauge'', ''raftkv_'' @ name @ label @ show_nat v]"

definition page_lines :: "'j ClusterNode \<Rightarrow> u64 \<Rightarrow> string list" where
  "page_lines n nid =
     metric ''current_term'' '' The current Raft term'' (node_label nid) (unat (current_term (cn_raft n))) @
     metric ''role'' '' Current role (0=follower, 1=candidate, 2=leader)'' (role_label nid (role (cn_raft n))) (role_num (role (cn_raft n))) @
     metric ''commit_index'' '' The highest committed log index'' (node_label nid) (commit_index (cn_raft n)) @
     metric ''last_applied'' '' The highest applied log index'' (node_label nid) (last_applied (cn_raft n)) @
     metric ''log_length'' '' Number of entries in the Raft log'' (node_label nid) (last_index (node_log (cn_raft n))) @
     metric ''is_leader'' '' Whether this node is the leader (1=yes, 0=no)'' (node_label nid) (if role (cn_raft n) = Leader then 1 else 0) @
     (case rs_leader_id (rn_state (cn_raft n)) of None \<Rightarrow> []
      | Some leader \<Rightarrow> metric ''known_leader'' '' The node ID of the known leader'' (node_label nid) (unat leader))"

definition unlines :: "string list \<Rightarrow> string" where
  "unlines ls = concat (map (\<lambda>l. l @ [LF]) ls)"

lemma page_unlines: "generate_metrics n nid = unlines (page_lines n nid)"
  by (cases "rs_leader_id (rn_state (cn_raft n))")
    (simp_all add: generate_metrics_def page_lines_def unlines_def metric_def Let_def)

lemma lines_unlines: "list_all (\<lambda>l. LF \<notin> set l \<and> CR \<notin> set l) ls \<Longrightarrow> str_lines (unlines ls) = ls"
  using str_lines_line by (induction ls) (simp_all add: unlines_def)

lemma label_no_ctrl [simp]:
  "LF \<notin> set (node_label nid)" "CR \<notin> set (node_label nid)" "LF \<notin> set (role_label nid r)" "CR \<notin> set (role_label nid r)"
  by (auto simp: node_label_def role_label_def role_str_def split: NodeRole.splits)

lemma page_lines_plain: "list_all (\<lambda>l. LF \<notin> set l \<and> CR \<notin> set l) (page_lines n nid)"
  by (simp add: page_lines_def metric_def split: option.splits)

lemma page_lines_of: "str_lines (generate_metrics n nid) = page_lines n nid"
  by (simp add: page_unlines lines_unlines page_lines_plain)

text \<open>
  A scraper: the value of the sample of a metric that is labelled with a node. The value is what
  follows the last blank of the line.
\<close>

fun strip_prefix :: "string \<Rightarrow> string \<Rightarrow> string option" where
  "strip_prefix [] l = Some l"
| "strip_prefix (p # ps) [] = None"
| "strip_prefix (p # ps) (c # cs) = (if p = c then strip_prefix ps cs else None)"

definition scrape :: "string \<Rightarrow> u64 \<Rightarrow> string \<Rightarrow> string option" where
  "scrape page nid name =
     (case List.map_filter (strip_prefix (name @ ''{node='' @ [DQ] @ show_nat (unat nid) @ [DQ])) (str_lines page) of
        [] \<Rightarrow> None
      | rest # _ \<Rightarrow> Some (last (split_on CHR '' '' rest)))"

lemma strip_prefix_same [simp]: "strip_prefix (a @ b) (a @ c) = strip_prefix b c"
  by (induction a) auto

lemma show_nat_no_blank [simp]: "CHR '' '' \<notin> set (show_nat n)"
  by (simp add: show_nat_no_ctrl)

lemmas page_simps = page_lines_of page_lines_def metric_def node_label_def role_label_def List.map_filter_def

text \<open>
  C32. A scraper reads off the page of a node, for each metric, exactly the node's value: its term,
  its role (0 follower, 1 candidate, 2 leader, with the role's name as a label), its commit index, its
  applied index, the last index of its log, whether it leads (1 or 0), and the known leader, for
  which there is a sample exactly if one is known.
\<close>

theorem scraped_metrics:
  "scrape (generate_metrics n i) i ''raftkv_current_term'' = Some (show_nat (unat (rs_current_term (rn_state (cn_raft n))))) \<and>
   scrape (generate_metrics n i) i ''raftkv_role'' =
     Some (case rs_role (rn_state (cn_raft n)) of Follower \<Rightarrow> show_nat 0 | Candidate \<Rightarrow> show_nat 1 | Leader \<Rightarrow> show_nat 2) \<and>
   (''raftkv_role{node='' @ [DQ] @ show_nat (unat i) @ [DQ] @ '',role='' @ [DQ] @
      (case rs_role (rn_state (cn_raft n)) of
         Follower \<Rightarrow> ''follower'' @ [DQ] @ ''} '' @ show_nat 0
       | Candidate \<Rightarrow> ''candidate'' @ [DQ] @ ''} '' @ show_nat 1
       | Leader \<Rightarrow> ''leader'' @ [DQ] @ ''} '' @ show_nat 2)) \<in> set (str_lines (generate_metrics n i)) \<and>
   scrape (generate_metrics n i) i ''raftkv_commit_index'' = Some (show_nat (rs_commit_index (rn_state (cn_raft n)))) \<and>
   scrape (generate_metrics n i) i ''raftkv_last_applied'' = Some (show_nat (rs_last_applied (rn_state (cn_raft n)))) \<and>
   scrape (generate_metrics n i) i ''raftkv_log_length'' = Some (show_nat (last_index (rs_log (rn_state (cn_raft n))))) \<and>
   scrape (generate_metrics n i) i ''raftkv_is_leader'' =
     Some (show_nat (if rs_role (rn_state (cn_raft n)) = Leader then 1 else 0)) \<and>
   scrape (generate_metrics n i) i ''raftkv_known_leader'' = map_option (\<lambda>l. show_nat (unat l)) (rs_leader_id (rn_state (cn_raft n)))"
  by (intro conjI; cases "rs_leader_id (rn_state (cn_raft n))"; cases "role (cn_raft n)")
    (simp_all add: scrape_def page_simps role_num_def role_str_def)

subsection \<open>The response as an HTTP client reads it\<close>

fun split_header :: "string \<Rightarrow> (string \<times> string) option" where
  "split_header [] = None"
| "split_header (a # r) =
     (if take 4 (a # r) = crlf @ crlf then Some ([], drop 4 (a # r))
      else map_option (\<lambda>(h, b). (a # h, b)) (split_header r))"

definition http_body :: "string \<Rightarrow> string option" where
  "http_body r =
     (case split_header r of
        None \<Rightarrow> None
      | Some (headers, rest) \<Rightarrow>
         (case List.find (\<lambda>l. take 16 l = ''Content-Length: '') (str_lines headers) of
            None \<Rightarrow> None
          | Some l \<Rightarrow>
             (case parse_usize (drop 16 l) of
                Some k \<Rightarrow> if k = length rest then Some rest else None
              | None \<Rightarrow> None)))"

lemma split_header_plain:
  "CR \<notin> set a \<Longrightarrow> split_header (a @ s) = map_option (\<lambda>(h, b). (a @ h, b)) (split_header s)"
  by (induction a) (auto simp: option.map_comp comp_def case_prod_unfold option.map_ident split: if_splits)

text \<open>
  A scrape is well-formed HTTP: whatever the page, a client that reads the headers up to the empty
  line and then takes the announced number of bytes gets exactly the page, and nothing is left over.
\<close>

theorem response_carries_page:
  assumes "length body < 2 ^ 64"
  shows "http_body (http_response body) = Some body"
proof -
  let ?h = "''HTTP/1.1 200 OK'' @ CR # LF # ''Content-Type: text/plain; charset=utf-8'' @ CR # LF #
    ''Content-Length: '' @ show_nat (length body)"
  have "split_header (http_response body) = Some (?h, body)"
    unfolding http_response_def
    by (simp add: split_header_plain)
  moreover have "str_lines ?h = [''HTTP/1.1 200 OK'', ''Content-Type: text/plain; charset=utf-8'', ''Content-Length: '' @ show_nat (length body)]"
    using str_lines_crlf [of "''HTTP/1.1 200 OK''"] str_lines_crlf [of "''Content-Type: text/plain; charset=utf-8''"]
    by (simp add: str_lines_def)
  ultimately show ?thesis using parse_show_usize [OF assms] by (simp add: http_body_def)
qed

theorem response_carries_page_witness:
  "http_body (http_response ''raftkv_role 2'') = Some ''raftkv_role 2''"
  by (rule response_carries_page) simp

end
