(* ===== verification/Startup.thy ===== *)
theory Startup
  imports Server_Spec Raft_Behaviour Metrics
begin

text \<open>
  The \<^verbatim>\<open>main\<close> function of \<^verbatim>\<open>src/main.rs\<close>: the built-in configuration of three nodes, the command line, the
  choice of peers and addresses, and the start of the server. \<open>env\<close> is the process environment and
  \<open>args\<close> the command line with the program's name first. A panic and an exit with status 1 are
  values of \<open>main_error\<close>. The theorems say which command lines are accepted and with what
  configuration, and that a node started alone on an empty disk is soon ready for clients.
\<close>

datatype main_error = Panicked string | Exit1 server_error

definition all_nodes :: "NodeConfig list" where
  "all_nodes =
     [\<lparr>nc_id = 1, nc_client_port = 6381, nc_peer_port = 7001\<rparr>,
      \<lparr>nc_id = 2, nc_client_port = 6382, nc_peer_port = 7002\<rparr>,
      \<lparr>nc_id = 3, nc_client_port = 6383, nc_peer_port = 7003\<rparr>]"

definition docker_nodes :: "NodeConfig list" where
  "docker_nodes =
     [\<lparr>nc_id = 1, nc_client_port = 6381, nc_peer_port = 7001\<rparr>,
      \<lparr>nc_id = 2, nc_client_port = 6382, nc_peer_port = 7002\<rparr>,
      \<lparr>nc_id = 3, nc_client_port = 6383, nc_peer_port = 7003\<rparr>]"

definition parse_u64 :: "string \<Rightarrow> u64 option" where
  "parse_u64 s = map_option of_nat (parse_usize s)"

definition main_node_id :: "string list \<Rightarrow> main_error + u64" where
  "main_node_id args =
     (if length args > 1
      then (case parse_u64 (args ! 1) of
              None \<Rightarrow> Inl (Panicked ''Node ID must be a number (1, 2, or 3)'')
            | Some nid \<Rightarrow> Inr nid)
      else Inr 1)"

record main_config =
  mc_node_id :: u64
  mc_peers :: "u64 list"
  mc_client_addr :: string
  mc_data_dir :: string

definition main_setup :: "(string \<Rightarrow> string option) \<Rightarrow> string list \<Rightarrow> main_error + main_config" where
  "main_setup env args =
     (let host = (case env ''RAFTKV_HOST'' of None \<Rightarrow> ''127.0.0.1'' | Some h \<Rightarrow> h);
          all_peer_ids = map nc_id all_nodes
      in case main_node_id args of
           Inl e \<Rightarrow> Inl e
         | Inr nid \<Rightarrow>
            (case List.find (\<lambda>c. nc_id c = nid) all_nodes of
               None \<Rightarrow> Inl (Panicked ''Invalid node ID'')
             | Some node_config \<Rightarrow>
                 Inr \<lparr>mc_node_id = nid,
                      mc_peers = (if length args > 1 then all_peer_ids else [1]),
                      mc_client_addr = host @ '':'' @ show_nat (unat (nc_client_port node_config)),
                      mc_data_dir = ''/tmp/raftkv-node-'' @ show_nat (unat nid)\<rparr>))"

definition main_server ::
  "'j json_fs \<Rightarrow> 'j cluster_disk \<Rightarrow> (string \<Rightarrow> string option) \<Rightarrow> string list \<Rightarrow> main_error + 'j Server" where
  "main_server fs d env args =
     (case main_setup env args of
        Inl e \<Rightarrow> Inl e
      | Inr c \<Rightarrow>
         (case server_new fs d env (mc_node_id c) (mc_peers c) (mc_client_addr c) (mc_data_dir c) docker_nodes of
            Inl (Panic msg) \<Rightarrow> Inl (Panicked msg)
          | Inl e \<Rightarrow> Inl (Exit1 e)
          | Inr sv \<Rightarrow> Inr sv))"

definition raftkv_main ::
  "'j client_env \<Rightarrow> 'j cluster_disk \<Rightarrow> (string \<Rightarrow> string option) \<Rightarrow> string list \<Rightarrow> bool \<Rightarrow> bool \<Rightarrow>
     (bool \<times> client_read list) option list \<Rightarrow> main_error + 'j session option" where
  "raftkv_main ce d env args peer_bind_ok client_bind_ok incoming =
     (case main_server (ce_fs ce) d env args of
        Inl e \<Rightarrow> Inl e
      | Inr sv \<Rightarrow>
         (case server_run ce peer_bind_ok client_bind_ok incoming sv of
            Inl e \<Rightarrow> Inl (Exit1 e)
          | Inr s \<Rightarrow> Inr s))"

subsection \<open>Configuration\<close>

lemma find_node:
  "List.find (\<lambda>c. nc_id c = nid) all_nodes = None \<longleftrightarrow> nid \<notin> {1, 2, 3}"
  "List.find (\<lambda>c. nc_id c = nid) all_nodes = Some c \<longleftrightarrow> c \<in> set all_nodes \<and> nc_id c = nid"
  by (auto simp: all_nodes_def)

lemma docker_address_book:
  "pt_node_id (transport_new env i docker_nodes) = i"
  "pt_peer_addresses (transport_new env i docker_nodes) j =
     (if j \<in> {1, 2, 3} \<and> j \<noteq> i
      then Some ((case env (''PEER_HOST_'' @ show_nat (unat j)) of None \<Rightarrow> ''127.0.0.1'' | Some h \<Rightarrow> h) @ '':'' @ show_nat (7000 + unat j))
      else None)"
  by (auto simp: transport_new_def docker_nodes_def peer_address_def peer_host_def)

lemma find_docker_port:
  "i \<in> {1, 2, 3} \<Longrightarrow> \<exists>c. List.find (\<lambda>c. nc_id c = i) docker_nodes = Some c \<and> unat (nc_peer_port c) = 7000 + unat i"
  by (auto simp: docker_nodes_def)

lemma find_client_port:
  "i \<in> {1, 2, 3} \<Longrightarrow> \<exists>c. List.find (\<lambda>c. nc_id c = i) all_nodes = Some c \<and> unat (nc_client_port c) = 6380 + unat i"
  by (auto simp: all_nodes_def)

lemma cluster_new_config:
  assumes "cluster_new fs d i ps dir = Inr n"
  shows "node_id (cn_raft n) = i" "peers (cn_raft n) = ps" "se_data_dir (cn_storage n) = dir @ ''/storage''"
    "\<exists>p. rn_persister (cn_raft n) = Some p \<and> sp_path p = state_path dir i"
proof -
  have dir_ok: "cd_raft_dir_ok d" using assms by (auto simp: cluster_new_def with_persistence_def split: sum.splits if_splits)
  obtain e r where e: "engine_new (cd_dir_ok d) (cd_open_ok d) (cd_read_ok d) (cd_text d) (dir @ ''/storage'') = Inr e"
    and r: "with_persistence fs True (cd_json d) i ps dir = Inr r" and n: "cn_raft n = r" "cn_storage n = e"
    using assms dir_ok by (auto simp: cluster_new_def open_storage_def split: sum.splits)
  show "node_id (cn_raft n) = i" "peers (cn_raft n) = ps" "se_data_dir (cn_storage n) = dir @ ''/storage''"
    "\<exists>p. rn_persister (cn_raft n) = Some p \<and> sp_path p = state_path dir i"
    using with_persistence_eq [OF r] engine_new_ok [OF e] by (simp_all add: n persister_new_def)
qed

lemma metrics_port_small: "i \<in> {1, 2, 3} \<Longrightarrow> unat (metrics_port i) = 9100 + unat i"
  by (auto simp: metrics_port_def)

lemma parsed_id:
  assumes "parse_usize s = Some k"
  shows "unat (of_nat k :: u64) = k" and "(of_nat k :: u64) \<in> {1, 2, 3} \<longleftrightarrow> k \<in> {1, 2, 3}"
proof -
  have "k < 2 ^ 64" using assms by (rule parse_usize_bound)
  then show "unat (of_nat k :: u64) = k" by (simp add: unat_of_nat)
  then show "(of_nat k :: u64) \<in> {1, 2, 3} \<longleftrightarrow> k \<in> {1, 2, 3}" by (auto simp: word_unat_eq_iff)
qed

text \<open>The configuration \<open>main\<close> reaches: its node id, and whether the group is the whole cluster.\<close>

lemma main_setup_accepted:
  assumes "i \<in> {1, 2, 3}" and "main_node_id args = Inr i"
  shows "main_setup env args = Inr \<lparr>mc_node_id = i, mc_peers = (if length args > 1 then [1, 2, 3] else [1]),
    mc_client_addr = (case env ''RAFTKV_HOST'' of None \<Rightarrow> ''127.0.0.1'' | Some h \<Rightarrow> h) @ '':'' @ show_nat (6380 + unat i),
    mc_data_dir = ''/tmp/raftkv-node-'' @ show_nat (unat i)\<rparr>"
proof -
  obtain c where "List.find (\<lambda>c. nc_id c = i) all_nodes = Some c" "unat (nc_client_port c) = 6380 + unat i"
    using find_client_port [OF assms(1)] by blast
  then show ?thesis using assms(2) by (simp add: main_setup_def Let_def) (simp add: all_nodes_def)
qed

lemma main_node_id_cases:
  obtains (accepted) i where "main_node_id args = Inr i" "i \<in> {1, 2, 3}"
      "if length args > 1 then parse_usize (args ! 1) = Some (unat i) else i = 1"
    | (refused) msg where "main_setup env args = Inl (Panicked msg)" "length args > 1"
      "parse_usize (args ! 1) \<notin> {Some 1, Some 2, Some 3}"
proof (cases "length args > 1")
  case True
  show ?thesis
  proof (cases "parse_usize (args ! 1)")
    case None
    then show ?thesis using True refused by (simp add: main_setup_def main_node_id_def parse_u64_def Let_def)
  next
    case (Some k)
    note small = parsed_id [OF Some]
    have id: "main_node_id args = Inr (of_nat k)" using True Some by (simp add: main_node_id_def parse_u64_def)
    show ?thesis
    proof (cases "(of_nat k :: u64) \<in> {1, 2, 3}")
      case True
      then show ?thesis using accepted [OF id] \<open>length args > 1\<close> Some small(1) by simp
    next
      case False
      then have "List.find (\<lambda>c. nc_id c = of_nat k) all_nodes = None" using find_node(1) by blast
      then have "main_setup env args = Inl (Panicked ''Invalid node ID'')" using id by (simp add: main_setup_def Let_def)
      then show ?thesis using refused True Some small(2) False by auto
    qed
  qed
qed (use accepted [of 1] in \<open>simp add: main_node_id_def\<close>)

text \<open>
  C31. Which command lines start a node, and as what. \<open>main\<close> panics exactly if the first argument is
  not a number from 1 to 3, exits with status 1 exactly if the files of the accepted node cannot be
  opened, and otherwise starts a server for that node (node 1 without an argument): its Raft node has
  this id and as peers the whole group, or itself alone without an argument; its Raft state and its
  store are in its own directory; clients reach it at port 6380 plus its id of the configured host,
  peers at port 7000 plus its id, metrics at 9100 plus its id; and its address book has, for each of
  the other two nodes, the host the environment names for it and that node's peer port.
\<close>

theorem startup_configuration:
  "case main_server fs d env args of
     Inl (Panicked msg) \<Rightarrow> length args > 1 \<and> parse_usize (args ! 1) \<notin> {Some 1, Some 2, Some 3}
   | Inl (Exit1 e) \<Rightarrow>
       (\<exists>i ce. e = StartError ce \<and> main_node_id args = Inr i \<and> i \<in> {1, 2, 3} \<and>
          cluster_new fs d i (if length args > 1 then [1, 2, 3] else [1]) (''/tmp/raftkv-node-'' @ show_nat (unat i)) = Inl ce)
   | Inr sv \<Rightarrow>
       (if length args > 1 then parse_usize (args ! 1) = Some (unat (sv_node_id sv)) else sv_node_id sv = 1) \<and>
       sv_node_id sv \<in> {1, 2, 3} \<and> node_id (cn_raft (sv_node sv)) = sv_node_id sv \<and>
       peers (cn_raft (sv_node sv)) = (if length args > 1 then [1, 2, 3] else [1]) \<and>
       map_option sp_path (rn_persister (cn_raft (sv_node sv))) =
         Some (state_path (''/tmp/raftkv-node-'' @ show_nat (unat (sv_node_id sv))) (sv_node_id sv)) \<and>
       se_data_dir (cn_storage (sv_node sv)) = ''/tmp/raftkv-node-'' @ show_nat (unat (sv_node_id sv)) @ ''/storage'' \<and>
       sv_addr sv = (case env ''RAFTKV_HOST'' of None \<Rightarrow> ''127.0.0.1'' | Some h \<Rightarrow> h) @ '':'' @ show_nat (6380 + unat (sv_node_id sv)) \<and>
       unat (sv_peer_port sv) = 7000 + unat (sv_node_id sv) \<and>
       unat (metrics_port (sv_node_id sv)) = 9100 + unat (sv_node_id sv) \<and>
       pt_node_id (sv_transport sv) = sv_node_id sv \<and>
       (\<forall>j. pt_peer_addresses (sv_transport sv) j =
         (if j \<in> {1, 2, 3} \<and> j \<noteq> sv_node_id sv
          then Some ((case env (''PEER_HOST_'' @ show_nat (unat j)) of None \<Rightarrow> ''127.0.0.1'' | Some h \<Rightarrow> h) @ '':'' @ show_nat (7000 + unat j))
          else None))"
proof (rule main_node_id_cases [where args = args and env = env])
  fix i :: u64
  assume id: "main_node_id args = Inr i" and i: "i \<in> {1, 2, 3}"
    and arg: "if length args > 1 then parse_usize (args ! 1) = Some (unat i) else i = 1"
  let ?dir = "''/tmp/raftkv-node-'' @ show_nat (unat i)" and ?ps = "if length args > 1 then [1, 2, 3] else [1] :: u64 list"
  obtain c where port: "List.find (\<lambda>c. nc_id c = i) docker_nodes = Some c" "unat (nc_peer_port c) = 7000 + unat i"
    using find_docker_port [OF i] by blast
  show ?thesis
  proof (cases "cluster_new fs d i ?ps ?dir")
    case (Inl ce)
    then have "main_server fs d env args = Inl (Exit1 (StartError ce))"
      by (simp add: main_server_def main_setup_accepted [OF i id] server_new_def)
    then show ?thesis using id i Inl by simp
  next
    case (Inr n)
    then have sv: "main_server fs d env args = Inr \<lparr>sv_node = n,
        sv_addr = (case env ''RAFTKV_HOST'' of None \<Rightarrow> ''127.0.0.1'' | Some h \<Rightarrow> h) @ '':'' @ show_nat (6380 + unat i),
        sv_transport = transport_new env i docker_nodes, sv_peer_port = nc_peer_port c, sv_node_id = i, sv_all_nodes = docker_nodes\<rparr>"
      using port(1) by (simp add: main_server_def main_setup_accepted [OF i id] server_new_def)
    show ?thesis
      unfolding sv using arg i port(2) cluster_new_config [OF Inr] metrics_port_small [OF i]
      by (auto simp: docker_address_book simp del: insert_iff)
  qed
next
  fix msg
  assume "main_setup env args = Inl (Panicked msg)" and bad: "length args > 1" "parse_usize (args ! 1) \<notin> {Some 1, Some 2, Some 3}"
  then have "main_server fs d env args = Inl (Panicked msg)" by (simp add: main_server_def)
  then show ?thesis using bad by simp
qed

subsection \<open>A node started alone\<close>

lemma fold_no_apply: "(\<And>i cmd. ApplyEntry i cmd \<notin> set acts) \<Longrightarrow> fold (action_store io) acts e = e"
  by (induction acts) (auto simp: action_store_def split: Action.splits)

lemma tick_applies_nothing: "fold (action_store io) (snd (tick fs n)) e = e"
  by (rule fold_no_apply) simp

abbreviation tick_rounds ::
  "'j json_fs \<Rightarrow> (usize \<Rightarrow> wal_io) \<Rightarrow> (NetworkMessage \<Rightarrow> string option) \<Rightarrow> PeerTransport \<Rightarrow> nat \<Rightarrow> 'j ClusterNode \<Rightarrow> 'j ClusterNode" where
  "tick_rounds fs io enc t k \<equiv> (\<lambda>n. fst (tick_round fs io enc t n)) ^^ k"

lemma tick_rounds_node:
  "cn_raft (tick_rounds fs io enc t k n) = fst (node_life fs (replicate k InTick) (cn_raft n)) \<and>
   cn_storage (tick_rounds fs io enc t k n) = cn_storage n \<and> cn_router (tick_rounds fs io enc t k n) = cn_router n"
proof (induction k)
  case (Suc k)
  then show ?case
    by (simp add: replicate_append_same [symmetric] node_life_append tick_round_def cluster_tick_def
        take_outbound_messages_def process_actions_eq tick_applies_nothing Let_def case_prod_unfold)
qed simp

lemma leader_ticks: "role n = Leader \<Longrightarrow> rn_state (fst (node_life fs (replicate k InTick) n)) = rn_state n"
proof (induction k)
  case (Suc k)
  then show ?case
    by (simp add: replicate_append_same [symmetric] node_life_append tick_def tick_heartbeat_def Let_def case_prod_unfold)
qed simp

lemma lone_election:
  fixes fs :: "'j json_fs" and dir :: string
  defines "f \<equiv> fresh_node fs dir [1] 1"
  defines "r \<equiv> fst (start_election fs (f\<lparr>rn_election_timeout := 0\<rparr>))"
  shows "fst (node_life fs (replicate (unat (rn_election_timeout f)) InTick) f) = r" "unat (rn_election_timeout f) < 60"
    and "role r = Leader" "peers r = [1]" "node_id r = 1" "node_log r = log_new"
    and "rs_match_index (rn_state r) = []" "commit_index r = 0" "last_applied r = 0"
proof -
  have "30 \<le> rn_election_timeout f \<and> rn_election_timeout f < 60"
    using timeout_in_range
    by (simp add: f_def fresh_node_def with_persistence_def persister_new_def load_def Let_def
        reset_election_timeout_def ELECTION_TIMEOUT_MIN_def ELECTION_TIMEOUT_MAX_def)
  then have k: "0 < rn_election_timeout f" and "unat (rn_election_timeout f) < 60"
    by (simp_all add: word_less_nat_alt word_le_nat_alt)
  then show "unat (rn_election_timeout f) < 60" by simp
  show "fst (node_life fs (replicate (unat (rn_election_timeout f)) InTick) f) = r"
    using election_after_countdown [OF _ k, of fs] by (simp add: r_def f_def)
  have m: "majority_count (rn_state f) = 1" by (simp add: majority_count_def f_def)
  show "role r = Leader" "peers r = [1]" "node_id r = 1" "node_log r = log_new" using m by (simp_all add: r_def f_def)
  show "rs_match_index (rn_state r) = []" "commit_index r = 0" "last_applied r = 0"
    by (simp_all add: r_def start_election_def m become_leader_def Let_def)
      (simp_all add: f_def fresh_node_def with_persistence_def persister_new_def load_def Let_def)
qed

text \<open>Sixty ticks elect a node that is alone, and more change nothing.\<close>

lemma lone_raft_props:
  fixes fs :: "'j json_fs" and dir :: string
  assumes "60 \<le> k"
  defines "r \<equiv> fst (node_life fs (replicate k InTick) (fresh_node fs dir [1] 1))"
  shows "role r = Leader" "peers r = [1]" "node_id r = 1" "node_log r = log_new"
    and "rs_match_index (rn_state r) = []" "commit_index r = 0" "last_applied r = 0"
proof -
  let ?f = "fresh_node fs dir [1] 1"
  let ?t = "unat (rn_election_timeout ?f)"
  have "replicate k InTick = replicate ?t InTick @ replicate (k - ?t) InTick"
    using assms(1) lone_election(2) [of fs dir] by (simp add: replicate_add [symmetric])
  moreover have "role (fst (node_life fs (replicate ?t InTick) ?f)) = Leader"
    unfolding lone_election(1) by (rule lone_election(3))
  ultimately have "rn_state r = rn_state (fst (node_life fs (replicate ?t InTick) ?f))"
    using leader_ticks [of "fst (node_life fs (replicate ?t InTick) ?f)" fs "k - ?t"]
    by (simp add: r_def node_life_append Let_def case_prod_unfold)
  then have "rn_state r = rn_state (fst (start_election fs (?f\<lparr>rn_election_timeout := 0\<rparr>)))"
    unfolding lone_election(1) .
  then show "role r = Leader" "peers r = [1]" "node_id r = 1" "node_log r = log_new"
    "rs_match_index (rn_state r) = []" "commit_index r = 0" "last_applied r = 0"
    using lone_election(3-9) [of fs dir] by (simp_all only:)
qed

text \<open>
  C13. A node started alone is soon ready. Run without an argument on an empty disk, the program starts
  a server for node 1, and after fewer than 60 rounds of the tick thread the node leads a cluster
  of one with an empty store: the state in which it answers every client as the key-value map does.
\<close>

theorem single_node_boots:
  assumes "length args \<le> 1"
  shows "\<exists>sv k. main_server fs blank_disk env args = Inr sv \<and> k < 60 \<and>
    single_ok (tick_rounds fs io enc (sv_transport sv) k (sv_node sv)) \<and>
    engine_get (cn_storage (tick_rounds fs io enc (sv_transport sv) k (sv_node sv))) = Map.empty"
proof -
  obtain n e where n: "cluster_new fs blank_disk 1 [1] ''/tmp/raftkv-node-1'' = Inr n"
      "cn_raft n = fresh_node fs ''/tmp/raftkv-node-1'' [1] 1" "cn_router n = None" "cn_storage n = e"
    and e: "engine_new True True True (\<lambda>_. []) (''/tmp/raftkv-node-1'' @ ''/storage'') = Inr e"
    by (rule blank_cluster)
  have one: "show_nat (Suc 0) = ''1''" by code_simp
  have cfg: "main_setup env args = Inr c \<Longrightarrow> mc_node_id c = 1 \<and> mc_peers c = [1] \<and> mc_data_dir c = ''/tmp/raftkv-node-1''" for c
    using assms by (auto simp: main_setup_def main_node_id_def all_nodes_def one Let_def)
  obtain c where c: "main_setup env args = Inr c"
    using assms by (auto simp: main_setup_def main_node_id_def all_nodes_def Let_def)
  obtain sv where sv: "main_server fs blank_disk env args = Inr sv" "sv_node sv = n"
    using c cfg [OF c] n(1) by (simp add: main_server_def server_new_def docker_nodes_def)
  let ?f = "fresh_node fs ''/tmp/raftkv-node-1'' [1] 1"
  let ?k = "unat (rn_election_timeout ?f)"
  let ?r = "fst (start_election fs (?f\<lparr>rn_election_timeout := 0\<rparr>))"
  note lone = lone_election [of fs "''/tmp/raftkv-node-1''"]
  have r: "cn_raft (tick_rounds fs io enc (sv_transport sv) ?k n) = ?r"
    using tick_rounds_node [of ?k fs io enc "sv_transport sv" n] lone(1) n(2) by simp
  note lone(3-9)
  moreover have "engine_inv e" "engine_get e = Map.empty"
    using engine_new_ok [OF e] by (simp_all add: engine_inv_def recovered_def replay_text_def)
  ultimately have "single_ok (tick_rounds fs io enc (sv_transport sv) ?k n) \<and>
      engine_get (cn_storage (tick_rounds fs io enc (sv_transport sv) ?k n)) = Map.empty"
    using r n(3,4) tick_rounds_node [of ?k fs io enc "sv_transport sv" n]
    by (simp add: single_ok_def Let_def last_index_def log_new_def log_ok_def)
  then show ?thesis using sv lone(2) by blast
qed

theorem single_node_boots_witness:
  "\<exists>sv k. main_server memory_fs blank_disk (\<lambda>_. None) [''raftkv''] = Inr sv \<and> k < 60 \<and>
     single_ok (tick_rounds memory_fs (\<lambda>_. Io_ok) text_enc (sv_transport sv) k (sv_node sv))"
  using single_node_boots [of "[''raftkv'']" memory_fs "\<lambda>_. None" "\<lambda>_. Io_ok" text_enc] by auto

end
