(* ===== verification/Ring_Eval.thy ===== *)
theory Ring_Eval
  imports Ring
begin

unbundle bit_operations_syntax

text \<open>
  Evaluation of the ring on concrete shards and keys. The hash is computed on integers, where the
  simplifier has a decision procedure for every operation it uses; \<open>uint_ring_hash\<close> says that the
  two agree. The owner of a key is then the shard that has the least point above the key's hash,
  computed by \<open>least_ge\<close>, provided there is such a point.

  The tables give the points of the shards 1, 2 and 3 with 64 virtual nodes and the hashes of some
  of the keys \<^verbatim>\<open>key_<i>\<close>: the data of the sharding tests in \<^verbatim>\<open>src/main.rs\<close>.
\<close>

subsection \<open>The hash on integers\<close>

definition fnv_step :: "int \<Rightarrow> char \<Rightarrow> int" where
  "fnv_step h c = take_bit 64 ((h XOR of_char c) * 0x100000001b3)"

definition mix :: "int \<Rightarrow> int" where
  "mix h = h XOR drop_bit 33 h"

definition finish_int :: "int \<Rightarrow> int" where
  "finish_int h = mix (take_bit 64 (mix (take_bit 64 (mix h * 0xff51afd7ed558ccd)) * 0xc4ceb9fe1a85ec53))"

definition fnv_int :: "string \<Rightarrow> int" where
  "fnv_int = foldl fnv_step 0xcbf29ce484222325"

definition hash_int :: "string \<Rightarrow> int" where
  "hash_int key = finish_int (fnv_int key)"

lemma uint_of_char: "uint (of_char c :: u64) = of_char c"
proof -
  have "(of_char c :: u64) = word_of_int (of_char c)" by (simp add: of_int_of_char)
  moreover have "(0 :: int) \<le> of_char c \<and> of_char c < (256 :: int)"
    using of_nat_of_char [of c, where 'a = int] nat_of_char_less_256 [of c] by linarith
  ultimately show ?thesis by (simp add: uint_word_of_int_eq take_bit_int_eq_self)
qed

lemma uint_fnv1a: "uint (fnv1a key) = fnv_int key"
proof -
  have "uint (foldl (\<lambda>h c. (h XOR of_char c) * 0x100000001b3) w key :: u64) = foldl fnv_step (uint w) key" for w
    by (induction key arbitrary: w)
      (simp_all add: fnv_step_def uint_word_arith_bintrs uint_xor uint_of_char)
  from this [of "0xcbf29ce484222325"] show ?thesis by (simp add: fnv1a_def fnv_int_def)
qed

lemma uint_mix: "uint (w XOR drop_bit 33 w :: u64) = mix (uint w)"
  using take_bit_word_eq_self [of 64 w] by (simp add: mix_def uint_xor unsigned_drop_bit_eq take_bit_int_eq_self uint_lt2p [of w, simplified])

lemma uint_ring_hash: "uint (ring_hash key) = hash_int key"
  by (simp add: ring_hash_def Let_def uint_mix uint_word_arith_bintrs uint_fnv1a hash_int_def finish_int_def)

lemma ring_hash_le_iff: "ring_hash a \<le> ring_hash b \<longleftrightarrow> hash_int a \<le> hash_int b"
  by (simp add: word_le_def uint_ring_hash)

text \<open>The hash of a key with a known prefix goes on from the prefix's value.\<close>

lemma hash_int_append: "hash_int (p @ k) = finish_int (foldl fnv_step (fnv_int p) k)"
  by (simp add: hash_int_def fnv_int_def)

lemmas hash_eval = fnv_step_def finish_int_def

lemma mix_numeral: "mix (numeral x) = numeral x XOR drop_bit 33 (numeral x)"
  by (simp add: mix_def)

subsection \<open>Lookup\<close>

definition shard_points :: "u32 \<Rightarrow> u64 \<Rightarrow> int list" where
  "shard_points v s = map (\<lambda>i. hash_int (vnode_key s i)) [0 ..< unat v]"

fun least_ge :: "int \<Rightarrow> int list \<Rightarrow> int \<Rightarrow> int" where
  "least_ge h [] m = m"
| "least_ge h (x # xs) m = (if h \<le> x \<and> x < m then least_ge h xs x else least_ge h xs m)"

lemma least_ge_lower: "least_ge h xs m \<le> m \<and> (\<forall>x \<in> set xs. x < h \<or> least_ge h xs m \<le> x)"
proof (induction xs arbitrary: m)
  case (Cons x xs)
  show ?case
  proof (cases "h \<le> x \<and> x < m")
    case True
    then show ?thesis using Cons [of x] by auto
  next
    case False
    then show ?thesis using Cons [of m] by auto
  qed
qed simp

lemma least_ge_member: "least_ge h xs m = m \<or> (least_ge h xs m \<in> set xs \<and> h \<le> least_ge h xs m)"
proof (induction xs arbitrary: m)
  case (Cons x xs)
  show ?case using Cons [of m] Cons [of x] by (cases "h \<le> x \<and> x < m") auto
qed simp

abbreviation above_all :: int where "above_all \<equiv> 18446744073709551616"

text \<open>The shards among \<open>ss\<close> on a ring of their own: who has the least point above the hash.\<close>

lemma vnodes_points: "p \<in> vnodes r s \<longleftrightarrow> uint p \<in> set (shard_points (hr_num_virtual_nodes r) s)"
  by (auto simp: vnodes_def shard_points_def uint_ring_hash [symmetric] image_iff word_uint_eq_iff)

lemma owner_of_least:
  assumes ok: "ring_ok r" and v: "hr_num_virtual_nodes r = v" and s: "s \<in> S"
    and dom: "\<And>p t. points r p = Some t \<Longrightarrow> t \<in> S \<and> p \<in> vnodes r t"
    and ran: "\<And>p t. p \<in> vnodes r t \<Longrightarrow> t \<in> S \<Longrightarrow> points r p \<noteq> None"
    and least: "\<And>t. t \<in> S \<Longrightarrow> t \<noteq> s \<Longrightarrow>
      least_ge (hash_int k) (shard_points v s) above_all < least_ge (hash_int k) (shard_points v t) above_all"
    and some: "least_ge (hash_int k) (shard_points v s) above_all < above_all"
  shows "ring_get_shard r k = Some s"
proof -
  let ?l = "\<lambda>t. least_ge (hash_int k) (shard_points v t) above_all"
  have q: "?l s \<in> set (shard_points v s)" "hash_int k \<le> ?l s"
    using least_ge_member [of "hash_int k" "shard_points v s" above_all] some by auto
  then obtain i where i: "i < unat v" "?l s = hash_int (vnode_key s i)" by (auto simp: shard_points_def)
  let ?q = "ring_hash (vnode_key s i)"
  have in_s: "?q \<in> vnodes r s" using i(1) v by (auto simp: vnodes_def)
  have above: "ring_hash k \<le> ?q" using q(2) i(2) by (simp add: ring_hash_le_iff)
  have le: "uint p < hash_int k \<or> (?l s \<le> uint p \<and> (t \<noteq> s \<longrightarrow> ?l s < uint p))" if "points r p = Some t" for p t
  proof -
    have "uint p \<in> set (shard_points v t)" and t: "t \<in> S"
      using dom [OF that] v by (auto simp: vnodes_points)
    then have "uint p < hash_int k \<or> ?l t \<le> uint p" using least_ge_lower by blast
    then show ?thesis using least [OF t] by (cases "t = s") auto
  qed
  have uq: "uint ?q = ?l s" by (simp add: uint_ring_hash i(2))
  obtain t where t: "points r ?q = Some t" using ran [OF in_s s] by auto
  have "t = s" using le [OF t] uq q(2) by auto
  have "clockwise_next (ring_hash k) (points r) ?q"
    unfolding clockwise_next_def
  proof (intro conjI ballI)
    show "?q \<in> dom (points r)" using t by auto
    fix p assume "p \<in> dom (points r)"
    then have "p < ring_hash k \<or> ?q \<le> p"
      using le uq by (fastforce simp: word_le_def word_less_def uint_ring_hash)
    then show "?q - ring_hash k \<le> p - ring_hash k" using above by (intro clockwise_le) auto
  qed
  from ring_owner_eqI [OF ok this] t \<open>t = s\<close> show ?thesis by simp
qed

text \<open>A ring made by adding shards to an empty one.\<close>

definition ring_of :: "u32 \<Rightarrow> u64 list \<Rightarrow> HashRing" where
  "ring_of v ss = fold ring_add_shard ss (ring_new v)"

lemma ring_of_snoc: "ring_of v (ss @ [s]) = ring_add_shard s (ring_of v ss)"
  by (simp add: ring_of_def)

lemma ring_of_ok: "ring_ok (ring_of v ss) \<and> hr_num_virtual_nodes (ring_of v ss) = v"
  by (induction ss rule: rev_induct) (simp_all add: ring_of_snoc, simp_all add: ring_of_def, simp_all add: ring_new_def ring_add_shard_def)

lemma vnodes_ring_of [simp]: "vnodes (ring_of v ss) = vnodes (ring_new v)"
  by (induction ss rule: rev_induct) (simp_all add: ring_of_snoc, simp add: ring_of_def)

lemma points_ring_of:
  "points (ring_of v ss) p = Some t \<Longrightarrow> t \<in> set ss \<and> p \<in> vnodes (ring_of v ss) t"
  "p \<in> vnodes (ring_of v ss) t \<Longrightarrow> t \<in> set ss \<Longrightarrow> points (ring_of v ss) p \<noteq> None"
  by (induction ss arbitrary: t rule: rev_induct)
    (auto simp: ring_of_snoc points_add split: if_splits, simp_all add: ring_of_def ring_new_def)

lemma ring_of_owner:
  assumes "s \<in> set ss"
    and "\<And>t. t \<in> set ss \<Longrightarrow> t \<noteq> s \<Longrightarrow>
      least_ge (hash_int k) (shard_points v s) above_all < least_ge (hash_int k) (shard_points v t) above_all"
    and "least_ge (hash_int k) (shard_points v s) above_all < above_all"
  shows "ring_get_shard (ring_of v ss) k = Some s"
  using ring_of_ok [of v ss] points_ring_of [where v = v and ss = ss] assms
  by (intro owner_of_least [where S = "set ss" and v = v]) auto

lemma ring_of_total:
  assumes "ss \<noteq> []" and "0 < unat v"
  shows "\<exists>s \<in> set ss. ring_get_shard (ring_of v ss) k = Some s"
proof -
  obtain s where s: "s \<in> set ss" using assms(1) by (cases ss) auto
  have "ring_hash (vnode_key s 0) \<in> vnodes (ring_of v ss) s" using assms(2) by (auto simp: vnodes_def ring_new_def)
  then have "points (ring_of v ss) (ring_hash (vnode_key s 0)) \<noteq> None" using points_ring_of(2) s by blast
  then have "hr_ring (ring_of v ss) \<noteq> []" by (metis map_of.simps(1))
  then obtain q where "clockwise_next (ring_hash k) (points (ring_of v ss)) q"
    "ring_get_shard (ring_of v ss) k = points (ring_of v ss) q"
    using ring_owner [of "ring_of v ss" k] ring_of_ok [of v ss] by blast
  then show ?thesis using points_ring_of(1) by (auto simp: clockwise_next_def)
qed

lemma snd_ring_of: "snd ` set (hr_ring (ring_of v ss)) \<subseteq> set ss"
  using points_ring_of(1) ring_of_ok [of v ss] by (fastforce simp: ring_ok_def btree_entry_iff)

lemma owned_has_point:
  assumes "ring_ok r" and "ring_get_shard r k = Some s"
  shows "s \<in> snd ` set (hr_ring r)"
proof -
  have "hr_ring r \<noteq> []" using assms(2) by (auto simp: ring_get_shard_def)
  then obtain q where "points r q = Some s" using ring_owner [OF assms(1), of k] assms(2) by auto
  then show ?thesis using map_of_SomeD by force
qed

subsection \<open>Tables\<close>

lemma digit_chars:
  "digit_char 0 = CHR ''0''" "digit_char (Suc 0) = CHR ''1''" "digit_char 1 = CHR ''1''" "digit_char 2 = CHR ''2''"
  "digit_char 3 = CHR ''3''" "digit_char 4 = CHR ''4''" "digit_char 5 = CHR ''5''" "digit_char 6 = CHR ''6''"
  "digit_char 7 = CHR ''7''" "digit_char 8 = CHR ''8''" "digit_char 9 = CHR ''9''"
  by code_simp+

lemma numbers_64:
  "map show_nat [0 ..< 64] =
     [''0'', ''1'', ''2'', ''3'', ''4'', ''5'', ''6'', ''7'', ''8'', ''9'', ''10'', ''11'', ''12'', ''13'',
      ''14'', ''15'', ''16'', ''17'', ''18'', ''19'', ''20'', ''21'', ''22'', ''23'', ''24'', ''25'',
      ''26'', ''27'', ''28'', ''29'', ''30'', ''31'', ''32'', ''33'', ''34'', ''35'', ''36'', ''37'',
      ''38'', ''39'', ''40'', ''41'', ''42'', ''43'', ''44'', ''45'', ''46'', ''47'', ''48'', ''49'',
      ''50'', ''51'', ''52'', ''53'', ''54'', ''55'', ''56'', ''57'', ''58'', ''59'', ''60'', ''61'',
      ''62'', ''63'']"
  by (simp add: upt_rec [of 0] upt_rec [of "Suc 0"] numeral_2_eq_2 [symmetric] show_nat.simps digit_chars)

lemma fnv_prefixes:
  "fnv_int ''shard-1-vnode-'' = 3002772624947894181" "fnv_int ''shard-2-vnode-'' = 2286468558508098122"
  "fnv_int ''shard-3-vnode-'' = 5516255197687588311" "fnv_int ''key_'' = 6348276499031613481"
  by (simp_all add: fnv_int_def hash_eval)

lemma shard_points_64: "shard_points 64 s =
    map (\<lambda>d. finish_int (foldl fnv_step (fnv_int (''shard-'' @ show_nat (unat s) @ ''-vnode-'')) d)) (map show_nat [0 ..< 64])"
  by (simp add: shard_points_def vnode_key_def hash_int_append [symmetric])

lemma shard_numbers: "show_nat (unat (1 :: u64)) = ''1''" "show_nat (unat (2 :: u64)) = ''2''" "show_nat (unat (3 :: u64)) = ''3''"
  by (simp_all add: show_nat.simps digit_chars)

lemma points_1: "shard_points 64 1 = [
     3041667313893918987, 10480449411212656637, 4022503920958062903, 5587140130722619900,
     2205206014032846698, 8010573194317543031, 10204389616148334159, 10456009766391195774,
     3561126102857069151, 1956078709314020886, 1448897029766860586, 159051926222085351,
     14653613199595077168, 8791380961499021043, 15389598679007025573, 10002776642115020356,
     7563572336509197312, 13236050981510269524, 10641135493740928799, 585073732887616756,
     9079599101261270257, 1036132960306663224, 2644680956285636303, 7077015197130928352,
     14268530865212480502, 15630855300275549414, 17611271232325849367, 4811286485856877992,
     12701755184942574634, 12580679293499786650, 8780143534194708661, 9650608459447289420,
     12551573100020850650, 12239996693875826204, 5306888318117799192, 3408241411844182906,
     447852226207704017, 222984053519575037, 10305073708209975442, 183303311355070545, 3235043300920242392,
     4225430888941137495, 16906672366052339538, 15888162609772801932, 5855431186098483410,
     5705275006864019718, 3097589318602154581, 8085687787129552980, 7708915595853760576,
     11484857828244560237, 17095034589452279710, 9746972196144726400, 17913083021644118804,
     483426721484266091, 17222717704897336652, 2422682870935838803, 9570404542374620955,
     9297985805702217438, 8994602346920470159, 17303231962226005732, 8654595707800735274,
     15742892038756879992, 16163124091609804804, 15170592380610399161]"
  unfolding shard_points_64 shard_numbers numbers_64
  by (simp only: append.simps fnv_prefixes) (simp add: hash_eval mix_numeral)

lemma points_2: "shard_points 64 2 = [
     1631054149321540368, 4049046423744890459, 16875003753408922220, 2221899914250027789,
     3835773829562255051, 10371762308698565804, 16322169618463314702, 5987828088316808030,
     17934767284411301125, 11089790563972295300, 3765403452736313097, 15676260048307677938,
     5010913447633976294, 2789455703264484456, 4601082275519699556, 12819205247276773288,
     4756341583767490379, 1245171895646939937, 6104310199434103155, 4370097144411008799,
     5820342964233574770, 13565366800822623467, 2067560535756738487, 5075085295675696913,
     9582861650403296682, 15192473926599200607, 2091990081230162950, 2811999704284832728,
     9534077561412204486, 17051476670157686330, 800889232407954115, 18086964146413035605,
     6380455862323464602, 3468012468024955407, 16584154022017773287, 11584281665776534639,
     3617347261161029459, 6893500216904014216, 12593663918821042427, 3481376128021987970,
     15369880962676371958, 11794365696154991368, 9465255445230991755, 7507937861023556019,
     12756855821556205273, 3381236291691294939, 9899135246408240502, 17743593903370711426,
     8534546611454709783, 14478796047058611759, 15652309127155574444, 9009709205169269044,
     17467454726871697681, 15840366450166963501, 7418451579986644672, 16428352503369782999,
     15958840285686808391, 11560382989997767326, 10871220955515930402, 2946416216008902933,
     3352021667505379516, 9896492277453805999, 1493139287291549851, 4859839114379125463]"
  unfolding shard_points_64 shard_numbers numbers_64
  by (simp only: append.simps fnv_prefixes) (simp add: hash_eval mix_numeral)

lemma points_3: "shard_points 64 3 = [
     14757639468717450390, 5036278754757844033, 883249051924167619, 3450842481655123904,
     3325464746333824782, 10935403013646974792, 6949852992019573078, 9385885734448149458,
     9105835244840920450, 10307560676314634809, 6048271662764241820, 6871176086166644459,
     12759167203603888407, 13009017925794274060, 14536670199346395504, 16429372050804200627,
     4150658901588591740, 1251174038722400055, 10883855071769639903, 15027711140720482284,
     7807530706203008994, 12127473886027470054, 4766085299618012319, 11781967763634877862,
     13174237137218792266, 15285064580087456577, 16014916837210147328, 11768332449921927460,
     1343948786762139239, 15590184442373887379, 14668844564779331249, 618479605535520449,
     8324391205665726780, 7956291380277496373, 14411518507644909415, 14205110703243314211,
     3430961548872381417, 7461541530942693390, 4326614725744481348, 10112999293890952901,
     1942162737156622162, 3684511960612342947, 9027280832056467316, 2370128980138952572,
     8315204938364990657, 262960868127594966, 2516100991404880097, 6096834588649243779,
     14531875723172113310, 3744798665703828693, 1992415333218858794, 18363021378583342366,
     8896898978578644782, 12110132245069301193, 14273639205637417509, 5153965757256709777,
     140997010918431667, 162546058883129220, 10170697135966840161, 8296120294538883135, 7302702043213128287,
     2138638500981282810, 4970194427985443931, 5887724204397482176]"
  unfolding shard_points_64 shard_numbers numbers_64
  by (simp only: append.simps fnv_prefixes) (simp add: hash_eval mix_numeral)

text \<open>
  For some numbers \<open>i\<close>, the least points of the three shards above the hash of \<^verbatim>\<open>key_<i>\<close>.
\<close>

definition key_name :: "nat \<Rightarrow> string" where
  "key_name i = ''key_'' @ show_nat i"

lemma key_hash: "hash_int (key_name i) = finish_int (foldl fnv_step 6348276499031613481 (show_nat i))"
  unfolding key_name_def hash_int_append fnv_prefixes ..

lemma key_hashes:
  "hash_int (key_name 0) = 14860693767301215324"
  "hash_int (key_name (Suc 0)) = 17151908302355528158"
  "hash_int (key_name 2) = 12429295481341397644"
  "hash_int (key_name 3) = 3153535278240861003"
  "hash_int (key_name 4) = 4113397613536271691"
  "hash_int (key_name 5) = 6044012845540452773"
  "hash_int (key_name 6) = 17825569509441403115"
  "hash_int (key_name 7) = 11405649067991256358"
  "hash_int (key_name 8) = 11717121046327902588"
  "hash_int (key_name 9) = 3170290068470534546"
  "hash_int (key_name 10) = 2367660818198733119"
  "hash_int (key_name 11) = 2202032467168044362"
  "hash_int (key_name 12) = 13549262857863806799"
  "hash_int (key_name 13) = 11422977788486562749"
  "hash_int (key_name 14) = 2614980863436827837"
  "hash_int (key_name 15) = 4391459750096184312"
  "hash_int (key_name 16) = 14215709874776978460"
  "hash_int (key_name 17) = 17223101482480010582"
  "hash_int (key_name 18) = 13556538736893533179"
  "hash_int (key_name 20) = 11858469063284802167"
  "hash_int (key_name 21) = 4510021607367275244"
  "hash_int (key_name 22) = 5113283299077028570"
  "hash_int (key_name 23) = 16642205436797384563"
  "hash_int (key_name 26) = 876813785736191740"
  "hash_int (key_name 27) = 3346682419002177532"
  "hash_int (key_name 28) = 5137606309967799157"
  "hash_int (key_name 29) = 6873835925023457737"
  "hash_int (key_name 30) = 15529737321821382311"
  "hash_int (key_name 31) = 1298216827712379090"
  "hash_int (key_name 33) = 13295546738726960239"
  "hash_int (key_name 34) = 13321578786971969407"
  "hash_int (key_name 38) = 9486872209489895364"
  "hash_int (key_name 40) = 4415367798036775617"
  by (simp_all add: key_hash hash_eval mix_numeral show_nat.simps digit_chars)

text \<open>The least point of each shard above the hash of these keys.\<close>

lemma least_ge_step:
  "x < h \<Longrightarrow> least_ge h (x # xs) m = least_ge h xs m"
  "h \<le> x \<Longrightarrow> x < m \<Longrightarrow> least_ge h (x # xs) m = least_ge h xs x"
  "h \<le> x \<Longrightarrow> m \<le> x \<Longrightarrow> least_ge h (x # xs) m = least_ge h xs m"
  by auto

declare least_ge.simps(2) [simp del]

definition key_point :: "nat \<Rightarrow> u64 \<Rightarrow> int" where
  "key_point i s = least_ge (hash_int (key_name i)) (shard_points 64 s) above_all"

lemma key_points_1:
  "key_point 0 1 = 15170592380610399161"
  "key_point (Suc 0) 1 = 17222717704897336652"
  "key_point 2 1 = 12551573100020850650"
  "key_point 3 1 = 3235043300920242392"
  "key_point 4 1 = 4225430888941137495"
  "key_point 5 1 = 7077015197130928352"
  "key_point 6 1 = 17913083021644118804"
  "key_point 7 1 = 11484857828244560237"
  "key_point 8 1 = 12239996693875826204"
  "key_point 9 1 = 3235043300920242392"
  "key_point 10 1 = 2422682870935838803"
  "key_point 11 1 = 2205206014032846698"
  "key_point 12 1 = 14268530865212480502"
  "key_point 13 1 = 11484857828244560237"
  "key_point 14 1 = 2644680956285636303"
  "key_point 15 1 = 4811286485856877992"
  "key_point 16 1 = 14268530865212480502"
  "key_point 17 1 = 17303231962226005732"
  "key_point 18 1 = 14268530865212480502"
  "key_point 20 1 = 12239996693875826204"
  "key_point 21 1 = 4811286485856877992"
  "key_point 22 1 = 5306888318117799192"
  "key_point 23 1 = 16906672366052339538"
  "key_point 26 1 = 1036132960306663224"
  "key_point 27 1 = 3408241411844182906"
  "key_point 28 1 = 5306888318117799192"
  "key_point 29 1 = 7077015197130928352"
  "key_point 30 1 = 15630855300275549414"
  "key_point 31 1 = 1448897029766860586"
  "key_point 33 1 = 14268530865212480502"
  "key_point 34 1 = 14268530865212480502"
  "key_point 38 1 = 9570404542374620955"
  "key_point 40 1 = 4811286485856877992"
  by (simp_all add: key_point_def key_hashes points_1 least_ge_step)

lemma key_points_2:
  "key_point 0 2 = 15192473926599200607"
  "key_point (Suc 0) 2 = 17467454726871697681"
  "key_point 2 2 = 12593663918821042427"
  "key_point 3 2 = 3352021667505379516"
  "key_point 4 2 = 4370097144411008799"
  "key_point 5 2 = 6104310199434103155"
  "key_point 6 2 = 17934767284411301125"
  "key_point 7 2 = 11560382989997767326"
  "key_point 8 2 = 11794365696154991368"
  "key_point 9 2 = 3352021667505379516"
  "key_point 10 2 = 2789455703264484456"
  "key_point 11 2 = 2221899914250027789"
  "key_point 12 2 = 13565366800822623467"
  "key_point 13 2 = 11560382989997767326"
  "key_point 14 2 = 2789455703264484456"
  "key_point 15 2 = 4601082275519699556"
  "key_point 16 2 = 14478796047058611759"
  "key_point 17 2 = 17467454726871697681"
  "key_point 18 2 = 13565366800822623467"
  "key_point 20 2 = 12593663918821042427"
  "key_point 21 2 = 4601082275519699556"
  "key_point 22 2 = 5820342964233574770"
  "key_point 23 2 = 16875003753408922220"
  "key_point 26 2 = 1245171895646939937"
  "key_point 27 2 = 3352021667505379516"
  "key_point 28 2 = 5820342964233574770"
  "key_point 29 2 = 6893500216904014216"
  "key_point 30 2 = 15652309127155574444"
  "key_point 31 2 = 1493139287291549851"
  "key_point 33 2 = 13565366800822623467"
  "key_point 34 2 = 13565366800822623467"
  "key_point 38 2 = 9534077561412204486"
  "key_point 40 2 = 4601082275519699556"
  by (simp_all add: key_point_def key_hashes points_2 least_ge_step)

lemma key_points_3:
  "key_point 0 3 = 15027711140720482284"
  "key_point (Suc 0) 3 = 18363021378583342366"
  "key_point 2 3 = 12759167203603888407"
  "key_point 3 3 = 3325464746333824782"
  "key_point 4 3 = 4150658901588591740"
  "key_point 5 3 = 6048271662764241820"
  "key_point 6 3 = 18363021378583342366"
  "key_point 7 3 = 11768332449921927460"
  "key_point 8 3 = 11768332449921927460"
  "key_point 9 3 = 3325464746333824782"
  "key_point 10 3 = 2370128980138952572"
  "key_point 11 3 = 2370128980138952572"
  "key_point 12 3 = 14205110703243314211"
  "key_point 13 3 = 11768332449921927460"
  "key_point 14 3 = 3325464746333824782"
  "key_point 15 3 = 4766085299618012319"
  "key_point 16 3 = 14273639205637417509"
  "key_point 17 3 = 18363021378583342366"
  "key_point 18 3 = 14205110703243314211"
  "key_point 20 3 = 12110132245069301193"
  "key_point 21 3 = 4766085299618012319"
  "key_point 22 3 = 5153965757256709777"
  "key_point 23 3 = 18363021378583342366"
  "key_point 26 3 = 883249051924167619"
  "key_point 27 3 = 3430961548872381417"
  "key_point 28 3 = 5153965757256709777"
  "key_point 29 3 = 6949852992019573078"
  "key_point 30 3 = 15590184442373887379"
  "key_point 31 3 = 1343948786762139239"
  "key_point 33 3 = 14205110703243314211"
  "key_point 34 3 = 14205110703243314211"
  "key_point 38 3 = 10112999293890952901"
  "key_point 40 3 = 4766085299618012319"
  by (simp_all add: key_point_def key_hashes points_3 least_ge_step)

lemmas key_points = key_points_1 key_points_2 key_points_3

lemma ring_of_key_owner:
  assumes "s \<in> set ss" and "list_all (\<lambda>t. t = s \<or> key_point i s < key_point i t) ss" and "key_point i s < above_all"
  shows "ring_get_shard (ring_of 64 ss) (key_name i) = Some s"
  using assms by (intro ring_of_owner) (auto simp: key_point_def list_all_iff)

text \<open>Eleven of the keys for each of three shards, and six for each of two.\<close>

lemma owned_1_of_3: "list_all (\<lambda>i. ring_get_shard (ring_of 64 [1, 2, 3]) (key_name i) = Some 1)
     [1, 2, 3, 6, 7, 9, 11, 13, 14, 16, 17]"
  by (simp add: ring_of_key_owner key_points)

lemma owned_2_of_3: "list_all (\<lambda>i. ring_get_shard (ring_of 64 [1, 2, 3]) (key_name i) = Some 2)
     [12, 15, 18, 21, 23, 27, 29, 33, 34, 38, 40]"
  by (simp add: ring_of_key_owner key_points)

lemma owned_3_of_3: "list_all (\<lambda>i. ring_get_shard (ring_of 64 [1, 2, 3]) (key_name i) = Some 3)
     [0, 4, 5, 8, 10, 20, 22, 26, 28, 30, 31]"
  by (simp add: ring_of_key_owner key_points)

lemma owned_1_of_2: "list_all (\<lambda>i. ring_get_shard (ring_of 64 [1, 2]) (key_name i) = Some 1)
     [0, 1, 2, 3, 4, 6]"
  by (simp add: ring_of_key_owner key_points)

lemma owned_2_of_2: "list_all (\<lambda>i. ring_get_shard (ring_of 64 [1, 2]) (key_name i) = Some 2)
     [5, 8, 12, 15, 18, 21]"
  by (simp add: ring_of_key_owner key_points)

end
