(* ===== verification/Repo_Tests.thy ===== *)
theory Repo_Tests
  imports Startup Ring_Eval
begin

text \<open>
  The unit tests of \<^verbatim>\<open>src/main.rs\<close>, one boolean definition per test: an
  assertion is a conjunct, an \<^verbatim>\<open>expect\<close> or \<^verbatim>\<open>panic!\<close> that would stop the test is \<open>False\<close>. The tests
  run on a working file system with the test directory removed, so no I/O call fails. A test
  that opens a file a second time opens what the first handle left there.
\<close>

definition put_entry :: "string \<Rightarrow> string \<Rightarrow> WalEntry" where
  "put_entry k v = \<lparr>we_operation = OpPut, we_key = k, we_value = Some v\<rparr>"

definition delete_entry :: "string \<Rightarrow> WalEntry" where
  "delete_entry k = \<lparr>we_operation = OpDelete, we_key = k, we_value = None\<rparr>"

subsection \<open>Storage\<close>

definition test_wal_append_and_replay :: bool where
  "test_wal_append_and_replay =
     (let test_path = ''/tmp/test_wal.log''
      in case wal_new True test_path [] of
           Inl _ \<Rightarrow> False
         | Inr wal \<Rightarrow>
             let (r1, wal) = wal_append Io_ok (put_entry ''name'' ''uday'') wal;
                 (r2, wal) = wal_append Io_ok (put_entry ''balance'' ''5000'') wal;
                 (r3, wal) = wal_append Io_ok (delete_entry ''name'') wal
             in r1 = Inr () \<and> r2 = Inr () \<and> r3 = Inr () \<and>
                (case wal_new True test_path (wal_file wal) of
                   Inl _ \<Rightarrow> False
                 | Inr wal \<Rightarrow>
                    (case wal_replay True wal of
                       Inl _ \<Rightarrow> False
                     | Inr es \<Rightarrow>
                         length es = 3 \<and>
                         we_key (es ! 0) = ''name'' \<and> we_operation (es ! 0) = OpPut \<and> we_value (es ! 0) = Some ''uday'' \<and>
                         we_key (es ! 1) = ''balance'' \<and> we_operation (es ! 1) = OpPut \<and> we_value (es ! 1) = Some ''5000'' \<and>
                         we_key (es ! 2) = ''name'' \<and> we_operation (es ! 2) = OpDelete \<and> we_value (es ! 2) = None)))"

definition test_memtable_basic_operations :: bool where
  "test_memtable_basic_operations =
     (let t0 = mt_new;
          t1 = snd (mt_put ''name'' ''uday'' t0);
          t2 = snd (mt_put ''name'' ''pranay'' t1);
          t3 = snd (mt_put ''balance'' ''5000'' t2);
          t4 = snd (mt_delete ''name'' t3);
          t5 = mt_clear t4
      in mt_get t0 ''name'' = None \<and> mt_is_empty t0 \<and>
         mt_get t1 ''name'' = Some (Some ''uday'') \<and> mt_len t1 = 1 \<and>
         mt_get t2 ''name'' = Some (Some ''pranay'') \<and> mt_len t2 = 1 \<and>
         mt_len t3 = 2 \<and> mt_get t3 ''balance'' = Some (Some ''5000'') \<and>
         mt_get t4 ''name'' = Some None \<and>
         mt_get t4 ''nonexistent'' = None \<and> mt_get t4 ''name'' = Some None \<and>
         mt_size t4 > 0 \<and>
         mt_is_empty t5 \<and> mt_size t5 = 0 \<and> mt_get t5 ''name'' = None)"

definition test_engine_crash_recovery :: bool where
  "test_engine_crash_recovery =
     (let test_dir = ''/tmp/test_engine_recovery''
      in case engine_new True True True (\<lambda>_. []) test_dir of
           Inl _ \<Rightarrow> False
         | Inr e \<Rightarrow>
             let (r1, e) = engine_put Io_ok ''name'' ''uday'' e;
                 (r2, e) = engine_put Io_ok ''balance'' ''5000'' e;
                 (r3, e) = engine_put Io_ok ''city'' ''kharagpur'' e;
                 (r4, e) = engine_delete Io_ok ''city'' e
             in r1 = Inr () \<and> r2 = Inr () \<and> r3 = Inr () \<and> r4 = Inr () \<and>
                engine_get e ''name'' = Some ''uday'' \<and>
                engine_get e ''balance'' = Some ''5000'' \<and>
                engine_get e ''city'' = None \<and>
                (case engine_new True True True (\<lambda>p. if p = wal_path (se_wal e) then wal_file (se_wal e) else []) test_dir of
                   Inl _ \<Rightarrow> False
                 | Inr e \<Rightarrow>
                     engine_get e ''name'' = Some ''uday'' \<and>
                     engine_get e ''balance'' = Some ''5000'' \<and>
                     engine_get e ''city'' = None \<and>
                     engine_get e ''nonexistent'' = None))"

subsection \<open>Raft log and state\<close>

definition test_raft_log_operations :: bool where
  "test_raft_log_operations =
     (let l0 = log_new;
          (idx, l1) = log_append \<lparr>le_term = 1, le_command = Put ''name'' ''uday''\<rparr> l0;
          l2 = snd (log_append \<lparr>le_term = 1, le_command = Put ''balance'' ''5000''\<rparr> l1);
          l3 = snd (log_append \<lparr>le_term = 2, le_command = Delete ''name''\<rparr> l2);
          l4 = truncate_from 3 l3
      in last_index l0 = 0 \<and> last_term l0 = 0 \<and> log_len l0 = 0 \<and>
         idx = 1 \<and> last_index l1 = 1 \<and> last_term l1 = 1 \<and> log_len l1 = 1 \<and>
         last_index l2 = 2 \<and> log_len l2 = 2 \<and>
         last_index l3 = 3 \<and> last_term l3 = 2 \<and>
         term_at l3 0 = 0 \<and> term_at l3 1 = 1 \<and> term_at l3 2 = 1 \<and> term_at l3 3 = 2 \<and> term_at l3 99 = 0 \<and>
         length (entries_from 2 l3) = 2 \<and>
         last_index l4 = 2 \<and> last_term l4 = 1 \<and> log_len l4 = 2)"

definition test_raft_state_transitions :: bool where
  "test_raft_state_transitions =
     (let s0 = state_new 1 [1, 2, 3];
          s1 = become_candidate s0;
          s2 = become_leader s1;
          s3 = become_follower 5 s2
      in rs_role s0 = Follower \<and> rs_current_term s0 = 0 \<and> rs_voted_for s0 = None \<and>
         rs_role s1 = Candidate \<and> rs_current_term s1 = 1 \<and> rs_voted_for s1 = Some 1 \<and>
         rs_role s2 = Leader \<and> rs_leader_id s2 = Some 1 \<and>
         length (rs_next_index s2) = 2 \<and> length (rs_match_index s2) = 2 \<and>
         rs_role s3 = Follower \<and> rs_current_term s3 = 5 \<and> rs_voted_for s3 = None \<and>
         rs_next_index s3 = [] \<and>
         majority_count s3 = 2)"

subsection \<open>Election and replication among three nodes\<close>

text \<open>The loop that ticks a node until it returns actions, at most \<open>k\<close> times.\<close>

fun tick_until_actions :: "'j json_fs \<Rightarrow> nat \<Rightarrow> 'j RaftNode \<Rightarrow> 'j RaftNode \<times> Action list" where
  "tick_until_actions fs 0 n = (n, [])"
| "tick_until_actions fs (Suc k) n =
     (let (n, actions) = tick fs n
      in if actions \<noteq> [] then (n, actions) else tick_until_actions fs k n)"

type_synonym 'j three_nodes = "'j RaftNode \<times> 'j RaftNode \<times> 'j RaftNode"

text \<open>The \<^verbatim>\<open>if *to == 2\<close> of the delivery loops: a handler runs on node 2, or else on node 3.\<close>

definition on_target ::
  "u64 \<Rightarrow> ('j RaftNode \<Rightarrow> 'j RaftNode \<times> Action list) \<Rightarrow> 'j three_nodes \<Rightarrow> 'j three_nodes \<times> Action list" where
  "on_target to handler ns =
     (case ns of (n1, n2, n3) \<Rightarrow>
        if to = 2 then (let (n2, acts) = handler n2 in ((n1, n2, n3), acts))
        else (let (n3, acts) = handler n3 in ((n1, n2, n3), acts)))"

text \<open>Delivering the vote requests in \<^verbatim>\<open>test_leader_election\<close>; a failed assertion is \<open>None\<close>.\<close>

fun deliver_votes_checked :: "'j json_fs \<Rightarrow> Action list \<Rightarrow> 'j three_nodes \<Rightarrow> 'j three_nodes option" where
  "deliver_votes_checked fs [] ns = Some ns"
| "deliver_votes_checked fs (a # as) ns =
     (case a of
        SendRequestVote to request \<Rightarrow>
          (case on_target to (handle_request_vote fs request) ns of
             ((n1, n2, n3), response_actions) \<Rightarrow>
               if length response_actions \<noteq> 1 then None
               else
                 (case hd response_actions of
                    SendRequestVoteResponse _ response \<Rightarrow>
                      if \<not> rvr_vote_granted response then None
                      else deliver_votes_checked fs as (fst (handle_request_vote_response fs to response n1), n2, n3)
                  | _ \<Rightarrow> deliver_votes_checked fs as (n1, n2, n3)))
      | _ \<Rightarrow> None)"

definition test_leader_election :: "'j json_fs \<Rightarrow> bool" where
  "test_leader_election fs =
     (let node1 = node_new 1 [1, 2, 3];
          node2 = node_new 2 [1, 2, 3];
          node3 = node_new 3 [1, 2, 3]
      in role node1 = Follower \<and> role node2 = Follower \<and> role node3 = Follower \<and>
         (let (node1, election_actions) = tick_until_actions fs 65 node1
          in role node1 = Candidate \<and> current_term node1 = 1 \<and> length election_actions = 2 \<and>
             (case deliver_votes_checked fs election_actions (node1, node2, node3) of
                None \<Rightarrow> False
              | Some (node1, node2, node3) \<Rightarrow>
                  role node1 = Leader \<and> current_term node1 = 1 \<and> rs_leader_id (rn_state node1) = Some 1 \<and>
                  role node2 = Follower \<and> current_term node2 = 1 \<and>
                  role node3 = Follower \<and> current_term node3 = 1)))"

text \<open>The delivery loops of \<^verbatim>\<open>test_log_replication\<close>; other actions are skipped.\<close>

fun answer_votes :: "'j json_fs \<Rightarrow> u64 \<Rightarrow> Action list \<Rightarrow> 'j RaftNode \<Rightarrow> 'j RaftNode" where
  "answer_votes fs to [] n = n"
| "answer_votes fs to (a # as) n =
     answer_votes fs to as
       (case a of
          SendRequestVoteResponse _ response \<Rightarrow> fst (handle_request_vote_response fs to response n)
        | _ \<Rightarrow> n)"

fun deliver_votes :: "'j json_fs \<Rightarrow> Action list \<Rightarrow> 'j three_nodes \<Rightarrow> 'j three_nodes" where
  "deliver_votes fs [] ns = ns"
| "deliver_votes fs (a # as) ns =
     deliver_votes fs as
       (case a of
          SendRequestVote to request \<Rightarrow>
            (case on_target to (handle_request_vote fs request) ns of
               ((n1, n2, n3), responses) \<Rightarrow> (answer_votes fs to responses n1, n2, n3))
        | _ \<Rightarrow> ns)"

fun deliver_appends ::
  "'j json_fs \<Rightarrow> Action list \<Rightarrow> 'j three_nodes \<Rightarrow> 'j three_nodes \<times> (u64 \<times> Action) list" where
  "deliver_appends fs [] ns = (ns, [])"
| "deliver_appends fs (a # as) ns =
     (case a of
        SendAppendEntries to request \<Rightarrow>
          (let (ns, response_actions) = on_target to (handle_append_entries fs request) ns;
               (ns, rest) = deliver_appends fs as ns
           in (ns, map (Pair to) response_actions @ rest))
      | _ \<Rightarrow> deliver_appends fs as ns)"

fun is_apply :: "Action \<Rightarrow> bool" where
  "is_apply (ApplyEntry _ _) = True"
| "is_apply _ = False"

fun answer_appends ::
  "'j json_fs \<Rightarrow> (u64 \<times> Action) list \<Rightarrow> 'j RaftNode \<Rightarrow> 'j RaftNode \<times> Action list" where
  "answer_appends fs [] n = (n, [])"
| "answer_appends fs ((p, a) # as) n =
     (case a of
        SendAppendEntriesResponse _ response \<Rightarrow>
          (let (n, leader_actions) = handle_append_entries_response fs p response n;
               (n, rest) = answer_appends fs as n
           in (n, filter is_apply leader_actions @ rest))
      | _ \<Rightarrow> answer_appends fs as n)"

text \<open>The second round: node 3 is unreachable.\<close>

fun deliver_to_2 :: "'j json_fs \<Rightarrow> Action list \<Rightarrow> 'j RaftNode \<Rightarrow> 'j RaftNode \<Rightarrow> 'j RaftNode \<times> 'j RaftNode" where
  "deliver_to_2 fs [] n1 n2 = (n1, n2)"
| "deliver_to_2 fs (a # as) n1 n2 =
     (case a of
        SendAppendEntries to request \<Rightarrow>
          if to = 2
          then
            (let (n2, responses) = handle_append_entries fs request n2
             in deliver_to_2 fs as (fst (answer_appends fs (map (Pair 2) responses) n1)) n2)
          else deliver_to_2 fs as n1 n2
      | _ \<Rightarrow> deliver_to_2 fs as n1 n2)"

definition test_log_replication :: "'j json_fs \<Rightarrow> bool" where
  "test_log_replication fs =
     (let (node1, vote_requests) = tick_until_actions fs 65 (node_new 1 [1, 2, 3])
      in role node1 = Candidate \<and>
     (let (node1, node2, node3) = deliver_votes fs vote_requests (node1, node_new 2 [1, 2, 3], node_new 3 [1, 2, 3])
      in role node1 = Leader \<and>
     (case propose fs (Put ''name'' ''uday'') node1 of
        (_, None) \<Rightarrow> False
      | (node1, Some actions) \<Rightarrow>
          length actions = 2 \<and> last_index (node_log node1) = 1 \<and> last_term (node_log node1) = 1 \<and>
          commit_index node1 = 0 \<and>
     (let ((node1, node2, node3), all_response_actions) = deliver_appends fs actions (node1, node2, node3)
      in last_index (node_log node2) = 1 \<and> last_index (node_log node3) = 1 \<and>
     (let (node1, apply_actions) = answer_appends fs all_response_actions node1
      in commit_index node1 = 1 \<and> apply_actions \<noteq> [] \<and>
         (case hd apply_actions of
            ApplyEntry index command \<Rightarrow>
              index = 1 \<and> (case command of Put key val \<Rightarrow> key = ''name'' \<and> val = ''uday'' | _ \<Rightarrow> False)
          | _ \<Rightarrow> False) \<and>
     (case propose fs (Put ''balance'' ''5000'') node1 of
        (_, None) \<Rightarrow> False
      | (node1, Some actions) \<Rightarrow>
     (let (node1, node2) = deliver_to_2 fs actions node1 node2
      in commit_index node1 = 2 \<and> last_index (node_log node2) = 2 \<and> last_index (node_log node3) = 1 \<and>
         snd (propose fs (Put ''test'' ''fail'') node2) = None)))))))"

subsection \<open>Persistence\<close>

definition persist_for_test :: "'j json_fs \<Rightarrow> 'j RaftNode \<Rightarrow> 'j RaftNode" where
  "persist_for_test fs n = persist fs n"

text \<open>The files a node leaves behind when it is dropped.\<close>

definition files_of :: "'j RaftNode \<Rightarrow> string \<Rightarrow> 'j option" where
  "files_of n path =
     (case rn_persister n of
        None \<Rightarrow> None
      | Some p \<Rightarrow> if path = sp_path p then sp_file p else None)"

definition test_raft_persistence :: "'j json_fs \<Rightarrow> bool" where
  "test_raft_persistence fs =
     (let test_dir = ''/tmp/test_raft_persist''
      in case with_persistence fs True (\<lambda>_. None) 1 [1, 2, 3] test_dir of
           Inl _ \<Rightarrow> False
         | Inr node \<Rightarrow>
             let node = fst (tick_until_actions fs 65 node)
             in current_term node = 1 \<and> voted_for node = Some 1 \<and>
                (let s = become_leader (rn_state node);
                     s = s\<lparr>rs_log := snd (log_append \<lparr>le_term = 1, le_command = Put ''name'' ''uday''\<rparr> (rs_log s))\<rparr>;
                     node = persist_for_test fs (node\<lparr>rn_state := s\<rparr>)
                 in case with_persistence fs True (files_of node) 1 [1, 2, 3] test_dir of
                      Inl _ \<Rightarrow> False
                    | Inr node \<Rightarrow>
                        current_term node = 1 \<and> voted_for node = Some 1 \<and>
                        last_index (node_log node) = 1 \<and> last_term (node_log node) = 1 \<and>
                        (case log_get (node_log node) 1 of
                           None \<Rightarrow> False
                         | Some entry \<Rightarrow>
                             le_term entry = 1 \<and>
                             (case le_command entry of Put key val \<Rightarrow> key = ''name'' \<and> val = ''uday'' | _ \<Rightarrow> False)) \<and>
                        role node = Follower \<and> commit_index node = 0 \<and> last_applied node = 0))"

subsection \<open>A cluster of one node\<close>

definition test_cluster_node_single_node :: "'j json_fs \<Rightarrow> bool" where
  "test_cluster_node_single_node fs =
     (case cluster_new fs blank_disk 1 [1] ''/tmp/test_cluster_single'' of
        Inl _ \<Rightarrow> False
      | Inr node \<Rightarrow>
          let node = (cluster_tick fs (\<lambda>_. Io_ok) ^^ 65) node
          in role (cn_raft node) = Leader \<and>
     (let (node, r1) = handle_client_command fs (\<lambda>_. Io_ok) (Set ''name'' ''uday'') node;
          (node, r2) = handle_client_command fs (\<lambda>_. Io_ok) (Get ''name'') node;
          (node, _) = handle_client_command fs (\<lambda>_. Io_ok) (Set ''balance'' ''5000'') node;
          (node, r3) = handle_client_command fs (\<lambda>_. Io_ok) (Del ''name'') node;
          (node, r4) = handle_client_command fs (\<lambda>_. Io_ok) (Get ''name'') node;
          (node, r5) = handle_client_command fs (\<lambda>_. Io_ok) (Get ''balance'') node;
          (node, r6) = handle_client_command fs (\<lambda>_. Io_ok) Ping node
      in (case r1 of SimpleString s \<Rightarrow> s = ''OK'' | _ \<Rightarrow> False) \<and>
         (case r2 of BulkString s \<Rightarrow> s = ''uday'' | _ \<Rightarrow> False) \<and>
         (case r3 of Integer n \<Rightarrow> n = 1 | _ \<Rightarrow> False) \<and>
         (case r4 of Null \<Rightarrow> True | _ \<Rightarrow> False) \<and>
         (case r5 of BulkString s \<Rightarrow> s = ''5000'' | _ \<Rightarrow> False) \<and>
         (case r6 of SimpleString s \<Rightarrow> s = ''PONG'' | _ \<Rightarrow> False)))"

subsection \<open>Sharding\<close>

text \<open>The loop that counts the keys of each shard in an array; an index out of range panics.\<close>

fun count_shards :: "HashRing \<Rightarrow> string list \<Rightarrow> nat list \<Rightarrow> nat list option" where
  "count_shards r [] counts = Some counts"
| "count_shards r (key # keys) counts =
     (case ring_get_shard r key of
        None \<Rightarrow> None
      | Some shard \<Rightarrow>
          if unat shard < length counts
          then count_shards r keys (counts[unat shard := counts ! unat shard + 1])
          else None)"

definition test_consistent_hashing_ring :: bool where
  "test_consistent_hashing_ring =
     (let ring = ring_new 64
      in ring_get_shard ring ''any_key'' = None \<and>
     (let ring = ring_add_shard 3 (ring_add_shard 2 (ring_add_shard 1 ring))
      in ring_shard_count ring = 3 \<and>
         list_all (\<lambda>i. case ring_get_shard ring (''key_'' @ show_nat i) of
                        None \<Rightarrow> False
                      | Some shard_id \<Rightarrow> shard_id \<ge> 1 \<and> shard_id \<le> 3) [0 ..< 100] \<and>
         (case (ring_get_shard ring ''test_key'', ring_get_shard ring ''test_key'') of
            (Some shard_a, Some shard_b) \<Rightarrow> shard_a = shard_b
          | _ \<Rightarrow> False) \<and>
         (case count_shards ring (map (\<lambda>i. ''key_'' @ show_nat i) [0 ..< 100]) [0, 0, 0, 0] of
            None \<Rightarrow> False
          | Some counts \<Rightarrow> list_all (\<lambda>shard_id. counts ! shard_id > 10) [1, 2, 3]) \<and>
         ring_get_shard ring ''stable_key'' \<noteq> None \<and>
     (let ring = ring_remove_shard 2 ring
      in ring_shard_count ring = 2 \<and>
         (case ring_get_shard ring ''stable_key'' of
            None \<Rightarrow> False
          | Some key_after \<Rightarrow> key_after = 1 \<or> key_after = 3))))"

definition test_shards :: "ShardConfig list" where
  "test_shards =
     [\<lparr>sc_shard_id = 1, sc_node_ids = [1, 2, 3], sc_leader_port = Some 6381\<rparr>,
      \<lparr>sc_shard_id = 2, sc_node_ids = [4, 5, 6], sc_leader_port = Some 6384\<rparr>]"

definition test_router_key_routing :: bool where
  "test_router_key_routing =
     (let router = router_new test_shards 64
      in list_all (\<lambda>i. case get_shard_id router (''user_'' @ show_nat i) of
                        None \<Rightarrow> False
                      | Some shard \<Rightarrow> shard = 1 \<or> shard = 2) [0 ..< 50] \<and>
         (let test_key = ''important_data''
          in case get_shard_id router test_key of
               None \<Rightarrow> False
             | Some owning_shard \<Rightarrow>
                 key_belongs_to_shard router test_key owning_shard \<and>
                 (let other_shard = (if owning_shard = 1 then 2 else 1)
                  in \<not> key_belongs_to_shard router test_key other_shard) \<and>
                 (case route router test_key of
                    None \<Rightarrow> False
                  | Some config \<Rightarrow> sc_shard_id config = owning_shard \<and> sc_node_ids config \<noteq> [])))"

definition is_moved :: "string \<Rightarrow> bool" where
  "is_moved e \<longleftrightarrow> take 5 e = ''MOVED''"

text \<open>The loop of writes, counting accepted and moved keys; any other response panics.\<close>

fun set_keys ::
  "'j json_fs \<Rightarrow> string list \<Rightarrow> 'j ClusterNode \<times> nat \<times> nat \<Rightarrow> ('j ClusterNode \<times> nat \<times> nat) option" where
  "set_keys fs [] st = Some st"
| "set_keys fs (key # keys) (node, accepted, moved) =
     (case handle_client_command fs (\<lambda>_. Io_ok) (Set key ''test'') node of
        (node, SimpleString s) \<Rightarrow>
          if s = ''OK'' then set_keys fs keys (node, accepted + 1, moved) else None
      | (node, Error e) \<Rightarrow>
          if is_moved e then set_keys fs keys (node, accepted, moved + 1) else None
      | _ \<Rightarrow> None)"

fun get_keys :: "'j json_fs \<Rightarrow> string list \<Rightarrow> 'j ClusterNode \<Rightarrow> bool" where
  "get_keys fs [] node = True"
| "get_keys fs (key # keys) node =
     (case handle_client_command fs (\<lambda>_. Io_ok) (Get key) node of
        (node, BulkString _) \<Rightarrow> get_keys fs keys node
      | (node, Null) \<Rightarrow> get_keys fs keys node
      | (node, Error e) \<Rightarrow> is_moved e \<and> get_keys fs keys node
      | _ \<Rightarrow> False)"

definition test_sharded_cluster_node :: "'j json_fs \<Rightarrow> bool" where
  "test_sharded_cluster_node fs =
     (case with_sharding fs blank_disk 1 [1] ''/tmp/test_sharded_cluster'' 1 test_shards of
        Inl _ \<Rightarrow> False
      | Inr node \<Rightarrow>
          let node = (cluster_tick fs (\<lambda>_. Io_ok) ^^ 65) node;
              keys = map (\<lambda>i. ''key_'' @ show_nat i) [0 ..< 50]
          in case set_keys fs keys (node, 0, 0) of
               None \<Rightarrow> False
             | Some (node, accepted, moved) \<Rightarrow> accepted > 5 \<and> moved > 5 \<and> get_keys fs keys node)"

subsection \<open>The tests pass\<close>

lemma storage_tests: test_wal_append_and_replay test_memtable_basic_operations test_engine_crash_recovery
  by code_simp+

lemma log_tests: test_raft_log_operations test_raft_state_transitions
  by code_simp+

lemma election_test: "test_leader_election fs"
  by code_simp

lemma replication_test: "test_log_replication fs"
  by code_simp

lemma tick_persister: "map_option sp_path (rn_persister (fst (tick fs n))) = map_option sp_path (rn_persister n)"
  by (auto simp: tick_def tick_election_def tick_heartbeat_def start_election_def reset_election_timeout_def persist_def Let_def
      split: option.splits NodeRole.splits)

lemma tick_until_persister:
  "map_option sp_path (rn_persister (fst (tick_until_actions fs k n))) = map_option sp_path (rn_persister n)"
  by (induction k arbitrary: n) (simp_all add: Let_def case_prod_unfold tick_persister)

lemma persistence_test:
  assumes "good_fs fs"
  shows "test_raft_persistence fs"
proof -
  let ?dir = "''/tmp/test_raft_persist''"
  define n where "n = fst (tick_until_actions fs 65 (fresh_node fs ?dir [1, 2, 3] 1))"
  have f: "with_persistence fs True (\<lambda>_. None) 1 [1, 2, 3] ?dir = Inr (fresh_node fs ?dir [1, 2, 3] 1)"
    by (simp add: fresh_node_def with_persistence_def Let_def)
  have n: "current_term n = 1" "voted_for n = Some 1" "node_log n = log_new"
    unfolding n_def by code_simp+
  have "map_option sp_path (rn_persister n) = Some (state_path ?dir 1)"
    unfolding n_def tick_until_persister by (simp add: fresh_node_def with_persistence_def persister_new_def load_def Let_def)
  then obtain p where p: "rn_persister n = Some p" "sp_path p = state_path ?dir 1" by auto
  have l: "load fs (persister_new (files_of (persist_for_test fs (n\<lparr>rn_state := s\<rparr>))) (state_path ?dir 1)) =
      Inr (Some (persistent_state s))" for s
    using load_save [OF assms, of "persistent_state s" p] p
    by (simp add: files_of_def persist_def persist_for_test_def persister_new_def load_def)
  show ?thesis
    unfolding test_raft_persistence_def Let_def f sum.case n_def [symmetric]
    using n
    by (simp add: with_persistence_def l persistent_state_def
        log_append_def last_index_def last_term_def log_new_def log_get_def from_entries_def to_entries_def Let_def)
qed

lemma cluster_ticks:
  "cn_raft ((cluster_tick fs io ^^ k) n) = fst (node_life fs (replicate k InTick) (cn_raft n)) \<and>
   cn_storage ((cluster_tick fs io ^^ k) n) = cn_storage n \<and> cn_router ((cluster_tick fs io ^^ k) n) = cn_router n \<and>
   cn_shard_id ((cluster_tick fs io ^^ k) n) = cn_shard_id n"
proof (induction k)
  case (Suc k)
  then show ?case
    by (simp add: replicate_append_same [symmetric] node_life_append cluster_tick_def process_actions_eq
        tick_applies_nothing Let_def case_prod_unfold)
qed simp

lemma single_test: "test_cluster_node_single_node fs"
proof -
  let ?dir = "''/tmp/test_cluster_single''"
  obtain n e where n: "cluster_new fs blank_disk 1 [1] ?dir = Inr n" "cn_raft n = fresh_node fs ?dir [1] 1"
      "cn_router n = None" "cn_storage n = e"
    and e: "engine_new True True True (\<lambda>_. []) (?dir @ ''/storage'') = Inr e"
    by (rule blank_cluster)
  define m where "m = (cluster_tick fs (\<lambda>_. Io_ok) ^^ 65) n"
  have m: "cn_raft m = fst (node_life fs (replicate 65 InTick) (fresh_node fs ?dir [1] 1))" "cn_storage m = e" "cn_router m = None"
    using cluster_ticks [where fs = fs and io = "\<lambda>_. Io_ok" and k = 65 and n = n] n(2-4) by (simp_all add: m_def)
  have "engine_inv e" and empty: "engine_get e = Map.empty"
    using engine_new_ok [OF e] by (simp_all add: engine_inv_def recovered_def replay_text_def)
  then have "single_ok m"
    using m by (simp add: single_ok_def lone_raft_props Let_def last_index_def log_new_def log_ok_def)
  then have "snd (run_commands (handle_client_command fs (\<lambda>_. Io_ok)) cs m) = snd (run_commands spec_command cs Map.empty)" for cs
    using single_node.session_refines [where s = m and cs = cs and fs = fs] m(2) empty by simp
  note this [of "[Set ''name'' ''uday'', Get ''name'', Set ''balance'' ''5000'', Del ''name'', Get ''name'', Get ''balance'', Ping]"]
  then show ?thesis
    using m(1) n(1) by (simp add: test_cluster_node_single_node_def m_def [symmetric] lone_raft_props Let_def case_prod_unfold)
qed

lemma count_shards_exact:
  assumes "\<And>k. k \<in> set keys \<Longrightarrow> \<exists>s. ring_get_shard r k = Some s \<and> unat s < length counts"
  shows "\<exists>c. count_shards r keys counts = Some c \<and>
    (\<forall>s. unat s < length counts \<longrightarrow> c ! unat s = counts ! unat s + length (filter (\<lambda>k. ring_get_shard r k = Some s) keys))"
  using assms
proof (induction keys arbitrary: counts)
  case (Cons k keys)
  obtain s where s: "ring_get_shard r k = Some s" "unat s < length counts" using Cons.prems by auto
  let ?c = "counts[unat s := counts ! unat s + 1]"
  have "\<exists>c. count_shards r keys ?c = Some c \<and>
    (\<forall>s'. unat s' < length ?c \<longrightarrow> c ! unat s' = ?c ! unat s' + length (filter (\<lambda>k. ring_get_shard r k = Some s') keys))"
    using Cons.prems by (intro Cons.IH) auto
  then show ?case using s by (auto simp: nth_list_update word_unat_eq_iff)
qed simp

lemma filter_at_least:
  assumes "list_all (\<lambda>i. P (f i)) js" and "distinct js" and "set js \<subseteq> {0 ..< n}"
  shows "length js \<le> length (filter P (map f [0 ..< n]))"
proof -
  have "length js = card (set js)" using assms(2) by (simp add: distinct_card)
  also have "\<dots> \<le> card (set (filter (\<lambda>i. P (f i)) [0 ..< n]))"
    using assms(1,3) by (intro card_mono) (auto simp: list_all_iff)
  also have "\<dots> = length (filter (\<lambda>i. P (f i)) [0 ..< n])" by (rule distinct_card) simp
  finally show ?thesis by (simp add: filter_map comp_def)
qed

lemma hashing_test: test_consistent_hashing_ring
proof -
  let ?r = "ring_of 64 [1, 2, 3]"
  have r: "ring_add_shard 3 (ring_add_shard 2 (ring_add_shard 1 (ring_new 64))) = ?r" by (simp add: ring_of_def)
  have ok: "ring_ok ?r" using ring_of_ok by blast
  have tot: "\<exists>s \<in> {1, 2, 3}. ring_get_shard ?r k = Some s" for k using ring_of_total [of "[1, 2, 3]" 64 k] by simp
  have own: "ring_get_shard ?r (key_name 1) = Some 1" "ring_get_shard ?r (key_name 12) = Some 2" "ring_get_shard ?r (key_name 0) = Some 3"
    using owned_1_of_3 owned_2_of_3 owned_3_of_3 by simp_all
  have snds: "snd ` set (hr_ring ?r) = {1, 2, 3}"
    using snd_ring_of [of 64 "[1, 2, 3]"] own [THEN owned_has_point [OF ok]] by auto
  have "snd ` set (hr_ring (ring_remove_shard 2 ?r)) = snd ` set (hr_ring ?r) - {2}"
    by (auto simp: ring_remove_shard_def)
  then have snds': "snd ` set (hr_ring (ring_remove_shard 2 ?r)) = {1, 3}" using snds by auto
  have some: "ring_get_shard (ring_remove_shard 2 ?r) k \<in> {Some 1, Some 3}" for k
  proof -
    have "hr_ring (ring_remove_shard 2 ?r) \<noteq> []" using snds' by auto
    then obtain s where "ring_get_shard (ring_remove_shard 2 ?r) k = Some s"
      using ring_get_shard_None [OF ring_ok_remove [OF ok], of 2 k] by auto
    with owned_has_point [OF ring_ok_remove [OF ok] this] snds' show ?thesis by auto
  qed
  have cnt: "ring_shard_count ?r = 3" "ring_shard_count (ring_remove_shard 2 ?r) = 2"
    using shard_ids_exact [of ?r] shard_ids_exact [of "ring_remove_shard 2 ?r"] snds snds' by simp_all
  obtain c where c: "count_shards ?r (map key_name [0 ..< 100]) [0, 0, 0, 0] = Some c"
    "\<And>s. unat s < 4 \<Longrightarrow> c ! unat s = [0, 0, 0, 0] ! unat s + length (filter (\<lambda>k. ring_get_shard ?r k = Some s) (map key_name [0 ..< 100]))"
    using count_shards_exact [of "map key_name [0 ..< 100]" ?r "[0, 0, 0, 0]"] tot by fastforce
  have "length js \<le> c ! unat s" if "list_all (\<lambda>i. ring_get_shard ?r (key_name i) = Some s) js"
    "distinct js" "set js \<subseteq> {0 ..< 100}" "unat s \<in> {1, 2, 3}" for s js
    using filter_at_least [where P = "\<lambda>k. ring_get_shard ?r k = Some s", OF that(1-3)] c(2) [of s] that(4) by auto
  from this [OF owned_1_of_3] this [OF owned_2_of_3] this [OF owned_3_of_3]
  have "10 < c ! 1" "10 < c ! 2" "10 < c ! 3" by (simp_all add: Suc_le_eq)
  moreover have "case ring_get_shard ?r k of None \<Rightarrow> False | Some s \<Rightarrow> 1 \<le> s \<and> s \<le> 3" for k
    using tot [of k] by auto
  moreover have "\<exists>s. ring_get_shard ?r k = Some s" for k using tot by blast
  moreover have "case ring_get_shard (ring_remove_shard 2 ?r) k of None \<Rightarrow> False | Some s \<Rightarrow> s = 1 \<or> s = 3" for k
    using some [of k] by auto
  moreover have "ring_get_shard (ring_new 64) k = None" for k by (simp add: ring_get_shard_def ring_new_def)
  ultimately show ?thesis
    unfolding test_consistent_hashing_ring_def Let_def r key_name_def [symmetric]
    using c(1) cnt
    by (auto simp: list_all_iff key_name_def [symmetric] split: option.splits)
qed

lemma router_test_ring: "rt_ring (router_new test_shards 64) = ring_of 64 [1, 2]"
  by (simp add: router_new_def test_shards_def ring_of_def)

lemma routing_test: test_router_key_routing
proof -
  let ?r = "router_new test_shards 64"
  have tot: "ring_get_shard (ring_of 64 [1, 2]) k = Some 1 \<or> ring_get_shard (ring_of 64 [1, 2]) k = Some 2" for k
    using ring_of_total [of "[1, 2]" 64 k] by auto
  have u: "case get_shard_id ?r k of None \<Rightarrow> False | Some s \<Rightarrow> s = 1 \<or> s = 2" for k
    using tot [of k] by (auto simp: get_shard_id_def router_test_ring)
  show ?thesis
    using tot [of "''important_data''"] u
    by (auto simp: test_router_key_routing_def list_all_iff Let_def get_shard_id_def key_belongs_to_shard_def route_def
       router_test_ring, simp_all add: router_new_def test_shards_def)
qed

lemma sharded_write:
  assumes "role (cn_raft n) = Leader"
  shows "snd (client_write fs io cmd ok n) = ok" "role (cn_raft (fst (client_write fs io cmd ok n))) = Leader"
    "cn_router (fst (client_write fs io cmd ok n)) = cn_router n" "cn_shard_id (fst (client_write fs io cmd ok n)) = cn_shard_id n"
  using assms by (simp_all add: client_write_eq process_actions_eq propose_actions_def propose_eq Let_def case_prod_unfold)

lemma sharded_command:
  assumes "role (cn_raft n) = Leader" and "cn_router n = Some r" and "cn_shard_id n = s"
  shows "key_belongs_to_shard r k s \<Longrightarrow> snd (handle_client_command fs io (Set k v) n) = SimpleString ''OK''"
    and "\<not> key_belongs_to_shard r k s \<Longrightarrow> \<exists>e. is_moved e \<and> snd (handle_client_command fs io (Set k v) n) = Error e"
    and "role (cn_raft (fst (handle_client_command fs io (Set k v) n))) = Leader"
    and "cn_router (fst (handle_client_command fs io (Set k v) n)) = Some r"
    and "cn_shard_id (fst (handle_client_command fs io (Set k v) n)) = s"
  using assms sharded_write [where n = "n\<lparr>cn_pending_commit_index := None\<rparr>" and fs = fs and io = io]
  by (auto simp: handle_client_command_def shard_check_def is_moved_def Let_def)

lemma set_keys_counts:
  assumes "role (cn_raft n) = Leader" and "cn_router n = Some r" and "cn_shard_id n = s"
  shows "\<exists>n'. set_keys fs keys (n, a, m) =
      Some (n', a + length (filter (\<lambda>k. key_belongs_to_shard r k s) keys),
        m + length (filter (\<lambda>k. \<not> key_belongs_to_shard r k s) keys)) \<and>
    cn_router n' = Some r \<and> cn_shard_id n' = s"
  using assms
proof (induction keys arbitrary: n a m)
  case (Cons k keys)
  let ?h = "handle_client_command fs (\<lambda>_. Io_ok) (Set k ''test'') n"
  note h = sharded_command [OF Cons.prems, where k = k and fs = fs and io = "\<lambda>_. Io_ok" and v = "''test''"]
  obtain n1 x where p: "?h = (n1, x)" by fastforce
  note ih = Cons.IH [of n1, OF h(3-5) [unfolded p fst_conv]]
  show ?case
  proof (cases "key_belongs_to_shard r k s")
    case True
    then show ?thesis using h(1) p ih [of "a + 1" m] by simp
  next
    case False
    then obtain e where "x = Error e" "is_moved e" using h(2) p by auto
    then show ?thesis using False p ih [of a "m + 1"] by simp
  qed
qed simp

lemma get_keys_ok:
  assumes "cn_router n = Some r"
  shows "get_keys fs keys n"
  using assms
  by (induction keys arbitrary: n)
    (auto simp: handle_client_command_def shard_check_def is_moved_def Let_def split: option.splits)

lemma sharded_test: "test_sharded_cluster_node fs"
proof -
  let ?dir = "''/tmp/test_sharded_cluster''"
  let ?keys = "map key_name [0 ..< 50]"
  let ?r = "router_new test_shards 64"
  let ?B = "\<lambda>k. key_belongs_to_shard ?r k 1"
  obtain n where n: "with_sharding fs blank_disk 1 [1] ?dir 1 test_shards = Inr n" "cn_raft n = fresh_node fs ?dir [1] 1"
      "cn_router n = Some ?r" "cn_shard_id n = 1"
    using engine_new_total [of "\<lambda>_. []" "?dir @ ''/storage''"]
    by (auto simp: with_sharding_def open_storage_def blank_disk_def fresh_node_def with_persistence_def Let_def)
  define m where "m = (cluster_tick fs (\<lambda>_. Io_ok) ^^ 65) n"
  have "role (cn_raft m) = Leader" "cn_router m = Some ?r" "cn_shard_id m = 1"
    using cluster_ticks [where fs = fs and io = "\<lambda>_. Io_ok" and k = 65 and n = n] n(2-4) lone_raft_props(1) [of 65 fs ?dir]
    by (simp_all add: m_def)
  from set_keys_counts [OF this, where fs = fs and keys = ?keys and a = 0 and m = 0]
  obtain n' where n': "set_keys fs ?keys (m, 0, 0) = Some (n', length (filter ?B ?keys), length (filter (\<lambda>k. \<not> ?B k) ?keys))"
    "cn_router n' = Some ?r" by auto
  have "list_all (\<lambda>i. ?B (key_name i)) [0, 1, 2, 3, 4, 6]" "list_all (\<lambda>i. \<not> ?B (key_name i)) [5, 8, 12, 15, 18, 21]"
    using owned_1_of_2 owned_2_of_2 by (simp_all add: key_belongs_to_shard_def router_test_ring)
  note this [THEN filter_at_least [where n = 50 and f = key_name]]
  then have "5 < length (filter ?B ?keys)" "5 < length (filter (\<lambda>k. \<not> ?B k) ?keys)" by (simp_all add: Suc_le_eq)
  then show ?thesis
    unfolding test_sharded_cluster_node_def key_name_def [symmetric] Let_def
    using n(1) n' get_keys_ok [OF n'(2), of fs ?keys] by (simp add: m_def [symmetric])
qed

text \<open>
  The repository's tests pass. Every one of the twelve tests of \<^verbatim>\<open>src/main.rs\<close> succeeds on
  these definitions, for any serialisation that gives back what it was given; the distribution
  bounds of the hashing tests are computed from the actual hash function.
\<close>

lemma repository_tests_pass:
  assumes "good_fs fs"
  shows "test_wal_append_and_replay \<and> test_memtable_basic_operations \<and> test_engine_crash_recovery \<and>
    test_raft_log_operations \<and> test_raft_state_transitions \<and> test_leader_election fs \<and> test_log_replication fs \<and>
    test_raft_persistence fs \<and> test_cluster_node_single_node fs \<and> test_consistent_hashing_ring \<and>
    test_router_key_routing \<and> test_sharded_cluster_node fs"
  by (intro conjI storage_tests log_tests election_test replication_test persistence_test [OF assms] single_test
      hashing_test routing_test sharded_test)

end
