(* ===== verification/Cluster_System.thy ===== *)
theory Cluster_System
  imports Server
begin

text \<open>
  The whole program, as it runs on several machines: one cluster node per configured node, each with
  its transport, and the bytes their transports have written to each other's addresses. A step is
  one critical section of one of the threads of one node, with what it sends after it: a round of
  the tick thread, a line taken by the listener, a client's command, or a crash and a new start
  from the files left on the disk. A crash inside a section is a section whose writes to the log
  file fail from some byte on, followed by a crash, or a crash between the two saves of the Raft
  state in the handler of a message (\<open>cl_crash\<close>). The wire keeps everything ever written, so bytes may arrive
  late, in any order, several times or never; a connection delivers a whole line or nothing.

  The simulation at the end shows that every run of this system is a run of the Raft group of
  \<^theory_text>\<open>Raft_System\<close>: transports, codec, storage engine and client commands add nothing to what
  the Raft nodes do. What is proved of every run of the group therefore holds of the program.
\<close>

record 'j cluster_sys =
  cl_node :: "u64 \<Rightarrow> 'j ClusterNode"
  cl_wire :: "(string \<times> string) list"

text \<open>The parameters of a deployment.\<close>

record 'j deployment =
  dp_fs :: "'j json_fs"
  dp_enc :: "NetworkMessage \<Rightarrow> string option"
  dp_dec :: "string \<Rightarrow> NetworkMessage option"
  dp_env :: "string \<Rightarrow> string option"
  dp_nodes :: "NodeConfig list"
  dp_dir :: "u64 \<Rightarrow> string"

abbreviation dp_ids :: "'j deployment \<Rightarrow> u64 list" where
  "dp_ids d \<equiv> map nc_id (dp_nodes d)"

abbreviation dp_transport :: "'j deployment \<Rightarrow> u64 \<Rightarrow> PeerTransport" where
  "dp_transport d i \<equiv> transport_new (dp_env d) i (dp_nodes d)"

definition node_acts ::
  "u64 \<Rightarrow> ('j ClusterNode \<Rightarrow> 'j ClusterNode \<times> (string \<times> string) list) \<Rightarrow> 'j cluster_sys \<Rightarrow> 'j cluster_sys" where
  "node_acts i f s =
     (let (n, sent) = f (cl_node s i) in s\<lparr>cl_node := (cl_node s)(i := n), cl_wire := cl_wire s @ sent\<rparr>)"

text \<open>The critical section of \<^verbatim>\<open>handle_client\<close>, and the messages it sends after it.\<close>

definition client_round ::
  "'j json_fs \<Rightarrow> (usize \<Rightarrow> wal_io) \<Rightarrow> (NetworkMessage \<Rightarrow> string option) \<Rightarrow> PeerTransport \<Rightarrow> Command \<Rightarrow>
     'j ClusterNode \<Rightarrow> 'j ClusterNode \<times> (string \<times> string) list" where
  "client_round fs io enc t command n =
     (let (n, resp) = handle_client_command fs io command n;
          (messages, n) = take_outbound_messages n
      in (n, if messages \<noteq> [] then send_messages enc t messages else []))"

text \<open>The disk a crash leaves: the log file cut after some byte, and the Raft state file.\<close>

definition crash_disk :: "nat \<Rightarrow> 'j ClusterNode \<Rightarrow> 'j cluster_disk" where
  "crash_disk k n =
     \<lparr>cd_dir_ok = True, cd_open_ok = True, cd_read_ok = True, cd_raft_dir_ok = True,
      cd_text = \<lambda>_. wal_crash k (se_wal (cn_storage n)),
      cd_json = \<lambda>_. (case rn_persister (cn_raft n) of None \<Rightarrow> None | Some p \<Rightarrow> sp_file p)\<rparr>"

definition cluster_restart :: "'j deployment \<Rightarrow> u64 \<Rightarrow> nat \<Rightarrow> 'j ClusterNode \<Rightarrow> 'j ClusterNode" where
  "cluster_restart d i k n =
     (case cluster_new (dp_fs d) (crash_disk k n) i (dp_ids d) (dp_dir d i) of Inl e \<Rightarrow> n | Inr n' \<Rightarrow> n')"

definition cluster_start :: "'j deployment \<Rightarrow> 'j cluster_sys \<Rightarrow> bool" where
  "cluster_start d s \<longleftrightarrow> cl_wire s = [] \<and>
     (\<forall>i. cluster_new (dp_fs d) blank_disk i (dp_ids d) (dp_dir d i) = Inr (cl_node s i))"

inductive cluster_step :: "'j deployment \<Rightarrow> 'j cluster_sys \<Rightarrow> 'j cluster_sys \<Rightarrow> bool" for d where
  cl_tick: "i \<in> set (dp_ids d) \<Longrightarrow> current_term (cn_raft (cl_node s i)) \<noteq> - 1 \<Longrightarrow>
    cluster_step d s (node_acts i (tick_round (dp_fs d) io (dp_enc d) (dp_transport d i)) s)"
| cl_receive: "c \<in> set (dp_nodes d) \<Longrightarrow> (peer_address (dp_env d) c, bytes) \<in> set (cl_wire s) \<Longrightarrow>
    cluster_step d s
      (node_acts (nc_id c) (listen_stream (dp_fs d) io (dp_enc d) (dp_dec d) (dp_transport d (nc_id c)) bytes) s)"
| cl_client: "i \<in> set (dp_ids d) \<Longrightarrow>
    cluster_step d s (node_acts i (client_round (dp_fs d) io (dp_enc d) (dp_transport d i) command) s)"
| cl_restart: "i \<in> set (dp_ids d) \<Longrightarrow>
    cluster_step d s (node_acts i (\<lambda>n. (cluster_restart d i k n, [])) s)"
| cl_crash: "c \<in> set (dp_nodes d) \<Longrightarrow> (peer_address (dp_env d) c, bytes) \<in> set (cl_wire s) \<Longrightarrow>
    l \<in> set (str_lines bytes) \<Longrightarrow> dp_dec d l = Some m \<Longrightarrow>
    cluster_step d s
      (node_acts (nc_id c) (\<lambda>n. (cluster_restart d (nc_id c) k (n\<lparr>cn_raft := first_save (dp_fs d) m (cn_raft n)\<rparr>), [])) s)"

subsection \<open>One critical section is one step of the Raft node\<close>

text \<open>What is assumed of a deployment.\<close>

definition deployment_ok :: "'j deployment \<Rightarrow> bool" where
  "deployment_ok d \<longleftrightarrow> good_fs (dp_fs d) \<and> good_codec (dp_enc d) (dp_dec d) \<and>
     distinct (dp_ids d) \<and> inj_on (peer_address (dp_env d)) (set (dp_nodes d))"

text \<open>Bytes for an address that carry a message of a Raft network.\<close>

definition carried :: "'j deployment \<Rightarrow> (u64 \<times> NetworkMessage) list \<Rightarrow> string \<times> string \<Rightarrow> bool" where
  "carried d net w \<longleftrightarrow>
     (\<exists>c m j. c \<in> set (dp_nodes d) \<and> fst w = peer_address (dp_env d) c \<and> (nc_id c, m) \<in> set net \<and>
        dp_enc d m = Some j \<and> snd w = j @ [LF])"

definition projects :: "'j deployment \<Rightarrow> 'j cluster_sys \<Rightarrow> 'j raft_sys \<Rightarrow> bool" where
  "projects d s r \<longleftrightarrow>
     (\<forall>i. cn_raft (cl_node s i) = sys_node r i \<and> cn_outbound_messages (cl_node s i) = []) \<and>
     list_all (carried d (sys_net r)) (cl_wire s)"

text \<open>The section \<open>f\<close> of node \<open>i\<close> runs the handler \<open>h\<close> of its Raft node and sends what it returns.\<close>

definition runs ::
  "'j deployment \<Rightarrow> u64 \<Rightarrow> ('j ClusterNode \<Rightarrow> 'j ClusterNode \<times> (string \<times> string) list) \<Rightarrow>
     ('j RaftNode \<Rightarrow> 'j RaftNode \<times> Action list) \<Rightarrow> 'j ClusterNode \<Rightarrow> bool" where
  "runs d i f h n \<longleftrightarrow>
     cn_raft (fst (f n)) = fst (h (cn_raft n)) \<and> cn_outbound_messages (fst (f n)) = [] \<and>
     snd (f n) = send_messages (dp_enc d) (dp_transport d i) (List.map_filter action_payload (snd (h (cn_raft n))))"

lemma sent_is_carried:
  assumes "w \<in> set (send_messages (dp_enc d) (dp_transport d i) (List.map_filter action_payload acts))"
  shows "carried d (List.map_filter (action_message i) acts) w"
proof -
  obtain a p where a: "a \<in> set acts" "action_payload a = Some p" "send_message (dp_enc d) (dp_transport d i) p = Some w"
    using assms by (auto simp: send_messages_def List.map_filter_def)
  then obtain addr j where w: "pt_peer_addresses (dp_transport d i) (pm_to p) = Some addr"
      "dp_enc d (network_message i (pm_payload p)) = Some j" "w = (addr, j @ [LF])"
    by (auto simp: send_message_def transport_new_def split: option.splits)
  obtain c where "c \<in> set (dp_nodes d)" "nc_id c = pm_to p" "addr = peer_address (dp_env d) c"
    using transport_new_addresses [OF w(1)] by auto
  moreover have "(pm_to p, network_message i (pm_payload p)) \<in> set (List.map_filter (action_message i) acts)"
    using a(1) network_message_payload [OF a(2), of i] set_net_append [of _ _ "[]" i acts] by auto
  ultimately show ?thesis using w(2,3) unfolding carried_def by (metis fst_conv snd_conv)
qed

lemma carried_mono: "carried d net w \<Longrightarrow> set net \<subseteq> set net' \<Longrightarrow> carried d net' w"
  by (auto simp: carried_def)

lemma projects_run:
  assumes "projects d s r" and "runs d i f h (cl_node s i)"
  shows "projects d (node_acts i f s) (run_handler i h r)"
proof -
  have n: "cn_raft (cl_node s i) = sys_node r i" using assms(1) by (simp add: projects_def)
  let ?acts = "snd (h (sys_node r i))"
  have "carried d (sys_net r @ List.map_filter (action_message i) ?acts) w"
    if "w \<in> set (cl_wire s) \<union> set (snd (f (cl_node s i)))" for w
    using that
  proof
    assume "w \<in> set (cl_wire s)"
    then have "carried d (sys_net r) w" using assms(1) by (simp add: projects_def list_all_iff)
    then show ?thesis by (rule carried_mono) simp
  next
    assume "w \<in> set (snd (f (cl_node s i)))"
    then have "carried d (List.map_filter (action_message i) ?acts) w"
      using assms(2) n by (intro sent_is_carried) (simp add: runs_def)
    then show ?thesis by (rule carried_mono) simp
  qed
  then show ?thesis
    using assms n
    by (auto simp: projects_def runs_def node_acts_def run_handler_node run_handler_net list_all_iff
        Let_def case_prod_unfold)
qed

lemma send_nothing [simp]: "send_messages enc t [] = []"
  by (simp add: send_messages_def)

lemma send_if: "(if ms \<noteq> [] then send_messages enc t ms else []) = send_messages enc t ms"
  by simp

lemma tick_runs:
  "cn_outbound_messages n = [] \<Longrightarrow> runs d i (tick_round fs io (dp_enc d) (dp_transport d i)) (tick fs) n"
  by (simp add: runs_def tick_round_def cluster_tick_def take_outbound_messages_def process_actions_eq send_if
      Let_def case_prod_unfold del: if_not_P)

lemma listen_runs:
  assumes "cn_outbound_messages n = []" and "good_codec (dp_enc d) (dp_dec d)" and "dp_enc d m = Some j"
  shows "runs d i (listen_stream fs io (dp_enc d) (dp_dec d) (dp_transport d i) (j @ [LF])) (raft_dispatch fs m) n"
  using assms(1) good_codecD [OF assms(2,3)]
  by (simp add: runs_def listen_stream_def lines_of_message listen_line_def dispatch_message_def
      take_outbound_messages_def process_actions_eq Let_def case_prod_unfold)

text \<open>A client's command either leaves the Raft node alone or is a proposal.\<close>

lemma client_runs:
  assumes "cn_outbound_messages n = []"
  shows "runs d i (client_round fs io (dp_enc d) (dp_transport d i) command) (\<lambda>r. (r, [])) n \<or>
    (\<exists>cmd. runs d i (client_round fs io (dp_enc d) (dp_transport d i) command) (propose_actions fs cmd) n)"
proof -
  let ?n = "n\<lparr>cn_pending_commit_index := None\<rparr>"
  have idle: "runs d i (client_round fs io (dp_enc d) (dp_transport d i) command) (\<lambda>r. (r, [])) n"
    if "fst (handle_client_command fs io command n) = ?n"
    using that assms by (simp add: runs_def client_round_def take_outbound_messages_def Let_def case_prod_unfold)
  have proposes: "runs d i (client_round fs io (dp_enc d) (dp_transport d i) command) (propose_actions fs cmd) n"
    if "handle_client_command fs io command n = client_write fs io cmd ok ?n" and "role (cn_raft n) = Leader" for cmd ok
    using that assms
    by (simp add: runs_def client_round_def take_outbound_messages_def client_write_eq process_actions_eq Let_def case_prod_unfold)
  have eq: "fst (client_write fs io cmd ok ?n) = ?n" if "role (cn_raft n) \<noteq> Leader" for cmd ok
    using that by (simp add: client_write_eq)
  show ?thesis
  proof (cases "fst (handle_client_command fs io command n) = ?n")
    case False
    then obtain cmd ok where "handle_client_command fs io command n = client_write fs io cmd ok ?n"
      by (auto simp: handle_client_command_def Let_def split: Command.splits option.splits)
    then show ?thesis using proposes eq False by metis
  qed (use idle in blast)
qed

lemma restart_runs:
  assumes "node_ok (dp_fs d) (dp_ids d) i (cn_raft n)"
  shows "runs d i (\<lambda>n. (cluster_restart d i k n, [])) (\<lambda>r. (restart (dp_fs d) (dp_dir d i) r, [])) n"
proof -
  obtain p where p: "rn_persister (cn_raft n) = Some p" using assms by (auto simp: node_ok_def recoverable_def)
  obtain e where e: "open_storage (crash_disk k n) (dp_dir d i @ ''/storage'') = Inr e"
    using engine_new_total [of "\<lambda>_. wal_crash k (se_wal (cn_storage n))" "dp_dir d i @ ''/storage''"]
    by (auto simp: open_storage_def crash_disk_def)
  obtain r where r: "with_persistence (dp_fs d) True (\<lambda>_. sp_file p) i (dp_ids d) (dp_dir d i) = Inr r"
    by (auto simp: with_persistence_def Let_def)
  have "cd_raft_dir_ok (crash_disk k n)" "cd_json (crash_disk k n) = (\<lambda>_. sp_file p)" using p by (simp_all add: crash_disk_def)
  then show ?thesis
    using assms p e r by (simp add: runs_def cluster_restart_def cluster_new_def restart_def node_ok_def)
qed

lemma crash_runs:
  assumes "good_fs (dp_fs d)" and "node_ok (dp_fs d) (dp_ids d) i (cn_raft n)"
  shows "runs d i (\<lambda>n. (cluster_restart d i k (n\<lparr>cn_raft := first_save (dp_fs d) m (cn_raft n)\<rparr>), []))
    (\<lambda>r. (restart (dp_fs d) (dp_dir d i) (first_save (dp_fs d) m r), [])) n"
  using restart_runs [of d i "n\<lparr>cn_raft := first_save (dp_fs d) m (cn_raft n)\<rparr>" k] first_save_ok(1) [OF assms]
  by (simp add: runs_def)

subsection \<open>The simulation\<close>

lemma reachable_ok:
  assumes "raft_reachable fs dir ps r" and "good_fs fs" and "i \<in> set ps"
  shows "node_ok fs ps i (sys_node r i)"
  using reachable_has_history [OF assms(1)] reachable_node_ok [OF _ assms(2,3)] by metis

lemma reachable_step:
  "raft_reachable fs dir ps r \<Longrightarrow> raft_step fs dir ps i r r' \<Longrightarrow> raft_reachable fs dir ps r'"
  by (auto simp: raft_reachable_def intro: steps_step)

lemma cluster_new_outbound: "cluster_new fs dk i ps dir = Inr n \<Longrightarrow> cn_outbound_messages n = [] \<and> cn_router n = None"
  by (auto simp: cluster_new_def split: sum.splits)

lemma start_projects:
  assumes "cluster_start d s"
  shows "projects d s (raft_init (dp_fs d) (dp_dir d) (dp_ids d))"
proof -
  have "cn_raft (cl_node s i) = fresh_node (dp_fs d) (dp_dir d i) (dp_ids d) i \<and> cn_outbound_messages (cl_node s i) = []" for i
  proof -
    have n: "cluster_new (dp_fs d) blank_disk i (dp_ids d) (dp_dir d i) = Inr (cl_node s i)"
      using assms by (simp add: cluster_start_def)
    obtain n where "cluster_new (dp_fs d) blank_disk i (dp_ids d) (dp_dir d i) = Inr n"
        "cn_raft n = fresh_node (dp_fs d) (dp_dir d i) (dp_ids d) i"
      by (rule blank_cluster)
    with n show ?thesis using cluster_new_outbound [OF n] by simp
  qed
  then show ?thesis using assms by (simp add: projects_def raft_init_def cluster_start_def)
qed

text \<open>Bytes that arrive at a node carry a message the group has sent to that node.\<close>

lemma received_message:
  assumes "deployment_ok d" and "projects d s r" and "c \<in> set (dp_nodes d)"
    and "(peer_address (dp_env d) c, bytes) \<in> set (cl_wire s)"
  shows "\<exists>m j. (nc_id c, m) \<in> set (sys_net r) \<and> dp_enc d m = Some j \<and> bytes = j @ [LF]"
proof -
  have "carried d (sys_net r) (peer_address (dp_env d) c, bytes)"
    using assms(2,4) by (simp add: projects_def list_all_iff)
  then obtain c' m j where c': "c' \<in> set (dp_nodes d)" "peer_address (dp_env d) c = peer_address (dp_env d) c'"
      "(nc_id c', m) \<in> set (sys_net r)" "dp_enc d m = Some j" "bytes = j @ [LF]"
    by (auto simp: carried_def)
  then have "c' = c" using assms(1,3) by (auto simp: deployment_ok_def inj_on_def)
  with c' show ?thesis by blast
qed

text \<open>A step of the program is a step of the Raft group, or none.\<close>

lemma step_projects:
  assumes ok: "deployment_ok d" and p: "projects d s r" and r: "raft_reachable (dp_fs d) (dp_dir d) (dp_ids d) r"
    and "cluster_step d s s'"
  shows "\<exists>r'. raft_steps (dp_fs d) (dp_dir d) (dp_ids d) r r' \<and> projects d s' r'"
proof -
  have out: "cn_outbound_messages (cl_node s i) = []" and node: "cn_raft (cl_node s i) = sys_node r i" for i
    using p by (simp_all add: projects_def)
  have one: "raft_step (dp_fs d) (dp_dir d) (dp_ids d) i r r' \<Longrightarrow> raft_steps (dp_fs d) (dp_dir d) (dp_ids d) r r'" for i r'
    by (rule steps_step [OF steps_refl])
  from assms(4) show ?thesis
  proof cases
    case (cl_tick i io)
    then show ?thesis
      using projects_run [OF p tick_runs [OF out]] one [OF tick_step [of i]] node by metis
  next
    case (cl_receive c bytes io)
    then obtain m j where m: "(nc_id c, m) \<in> set (sys_net r)" "dp_enc d m = Some j" "bytes = j @ [LF]"
      using received_message [OF ok p] by blast
    have "good_codec (dp_enc d) (dp_dec d)" using ok by (simp add: deployment_ok_def)
    from projects_run [OF p listen_runs [OF out this m(2)]] show ?thesis
      using cl_receive(1,2) one [OF deliver_step [of "nc_id c"]] m(1,3) by fastforce
  next
    case (cl_client i io command)
    from client_runs [OF out] show ?thesis
    proof
      assume "runs d i (client_round (dp_fs d) io (dp_enc d) (dp_transport d i) command) (\<lambda>r. (r, [])) (cl_node s i)"
      from projects_run [OF p this] have "projects d s' (run_handler i (\<lambda>r. (r, [])) r)" using cl_client(1) by simp
      moreover have "run_handler i (\<lambda>r. (r, [])) r = r" by (simp add: run_handler_def)
      ultimately show ?thesis using steps_refl by metis
    next
      assume "\<exists>cmd. runs d i (client_round (dp_fs d) io (dp_enc d) (dp_transport d i) command) (propose_actions (dp_fs d) cmd) (cl_node s i)"
      then show ?thesis using projects_run [OF p] one [OF propose_step [of i]] cl_client by metis
    qed
  next
    case (cl_restart i k)
    have "node_ok (dp_fs d) (dp_ids d) i (cn_raft (cl_node s i))"
      using reachable_ok [OF r _ cl_restart(2)] ok node by (simp add: deployment_ok_def)
    from projects_run [OF p restart_runs [OF this]] show ?thesis
      using one [OF restart_step [of i]] cl_restart by metis
  next
    case (cl_crash c bytes l m k)
    obtain m' j where m': "(nc_id c, m') \<in> set (sys_net r)" "dp_enc d m' = Some j" "bytes = j @ [LF]"
      using received_message [OF ok p cl_crash(2,3)] by blast
    have "good_codec (dp_enc d) (dp_dec d)" using ok by (simp add: deployment_ok_def)
    note dec = good_codecD [OF this m'(2)]
    then have "str_lines bytes = [j]" unfolding m'(3) by (intro lines_of_message) simp_all
    then have m: "(nc_id c, m) \<in> set (sys_net r)" using cl_crash(4,5) dec m'(1) by simp
    have good: "good_fs (dp_fs d)" and c: "nc_id c \<in> set (dp_ids d)" using ok cl_crash(2) by (simp_all add: deployment_ok_def)
    have "node_ok (dp_fs d) (dp_ids d) (nc_id c) (cn_raft (cl_node s (nc_id c)))"
      using reachable_ok [OF r good c] node by simp
    note projects_run [OF p crash_runs [OF good this, of k m], folded cl_crash(1)]
    then show ?thesis by (intro exI conjI) (rule one [OF crash_step [OF c m]])
  qed
qed

interpretation cluster_sim: forward_simulation
  "\<lambda>s. deployment_ok d \<and> cluster_start d s" "cluster_step d"
  "\<lambda>r. r = raft_init (dp_fs d) (dp_dir d) (dp_ids d)" "raft_steps (dp_fs d) (dp_dir d) (dp_ids d)"
  "\<lambda>s r. deployment_ok d \<and> raft_reachable (dp_fs d) (dp_dir d) (dp_ids d) r \<and> projects d s r" for d
proof
  let ?steps = "raft_steps (dp_fs d) (dp_dir d) (dp_ids d)"
  show "?steps a a" for a by (rule steps_refl)
  show "?steps a a' \<Longrightarrow> ?steps a' a'' \<Longrightarrow> ?steps a a''" for a a' a'' using raft_steps_trans by blast
  show "\<exists>r. r = raft_init (dp_fs d) (dp_dir d) (dp_ids d) \<and>
      deployment_ok d \<and> raft_reachable (dp_fs d) (dp_dir d) (dp_ids d) r \<and> projects d s r"
    if "deployment_ok d \<and> cluster_start d s" for s
    using that start_projects [of d s] steps_refl [of "dp_fs d" "dp_dir d" "dp_ids d"] by (simp add: raft_reachable_def)
  show "\<exists>r'. ?steps r r' \<and> deployment_ok d \<and> raft_reachable (dp_fs d) (dp_dir d) (dp_ids d) r' \<and> projects d s' r'"
    if "deployment_ok d \<and> raft_reachable (dp_fs d) (dp_dir d) (dp_ids d) r \<and> projects d s r" and "cluster_step d s s'" for s s' r
    using that step_projects [of d s r s'] raft_steps_trans unfolding raft_reachable_def by blast
qed

text \<open>
  C6. The program implements the Raft group. In every run of the deployed program (tick threads,
  listeners, clients' commands, crashes at any byte of a log file or between two saves of the Raft
  state, and restarts, with the network losing, delaying, reordering and duplicating what is sent), the Raft nodes inside the cluster
  nodes are always in a state the Raft group can reach.
\<close>

theorem cluster_refines_raft:
  assumes "deployment_ok d" and "cluster_start d s" and "(cluster_step d)\<^sup>*\<^sup>* s s'"
  shows "\<exists>r. raft_reachable (dp_fs d) (dp_dir d) (dp_ids d) r \<and> (\<forall>i. cn_raft (cl_node s' i) = sys_node r i)"
  using cluster_sim.run_simulated [of d s s'] assms by (auto simp: projects_def)

text \<open>
  The deployed program never has two leaders in a term, at the same moment or at two moments of a
  run.
\<close>

theorem cluster_election_safety:
  assumes "deployment_ok d" and "cluster_start d s" and "(cluster_step d)\<^sup>*\<^sup>* s t" and "(cluster_step d)\<^sup>*\<^sup>* t u"
    and "i \<in> set (dp_ids d)" and "role (cn_raft (cl_node t i)) = Leader"
    and "j \<in> set (dp_ids d)" and "role (cn_raft (cl_node u j)) = Leader"
    and "current_term (cn_raft (cl_node t i)) = current_term (cn_raft (cl_node u j))"
  shows "i = j"
proof -
  obtain r where r: "raft_reachable (dp_fs d) (dp_dir d) (dp_ids d) r" "projects d t r"
    using cluster_sim.run_simulated [of d s t] assms(1-3) by blast
  then obtain q where q: "raft_steps (dp_fs d) (dp_dir d) (dp_ids d) r q" "projects d u q"
    using cluster_sim.sim_steps [OF assms(4), of r] assms(1) by blast
  have "good_fs (dp_fs d)" using assms(1) by (simp add: deployment_ok_def)
  then show ?thesis
    by (rule leaders_of_term_agree [OF _ r(1) q(1) assms(5) _ assms(7)])
      (use r(2) q(2) assms(6,8,9) in \<open>simp_all add: projects_def\<close>)
qed

subsection \<open>The state of a deployed node\<close>

text \<open>The store stays well-formed in every critical section, failed writes included.\<close>

lemma actions_keep_store:
  "engine_inv e \<Longrightarrow> engine_inv (fold (action_store io) acts e)"
  by (induction acts arbitrary: e)
    (auto simp: action_store_def apply_command_def intro: wf_intro split: Action.splits LogCommand.splits)

lemma sections_keep_store:
  assumes "engine_inv (cn_storage n)"
  shows "engine_inv (cn_storage (fst (tick_round fs io enc t n)))"
    and "engine_inv (cn_storage (fst (listen_line fs io enc dec t l n)))"
    and "engine_inv (cn_storage (fst (client_round fs io enc t command n)))"
  using assms
  by (auto simp: tick_round_def cluster_tick_def listen_line_def dispatch_message_def client_round_def
      handle_client_command_def client_write_eq take_outbound_messages_def process_actions_eq
      Let_def case_prod_unfold intro!: actions_keep_store split: option.splits Command.splits)

lemma listen_keeps_store:
  assumes "engine_inv (cn_storage n)"
  shows "engine_inv (cn_storage (fst (listen_stream fs io enc dec t bytes n)))"
proof -
  have "engine_inv (cn_storage (fst (listen_lines fs io enc dec t ls n)))" if "engine_inv (cn_storage n)" for ls n
    using that
  proof (induction ls arbitrary: n)
    case (Cons l ls)
    then show ?case using sections_keep_store(2) [OF Cons.prems] by (cases l) (simp_all add: Let_def case_prod_unfold)
  qed simp
  then show ?thesis using assms by (simp add: listen_stream_def)
qed

lemma new_store: "cluster_new fs dk i ps dir = Inr n \<Longrightarrow> engine_inv (cn_storage n)"
  by (auto simp: cluster_new_def open_storage_def intro: wf_intro split: sum.splits)

interpretation cluster: transition_system "cluster_start d" "cluster_step d"
  "\<lambda>s. \<exists>s0. cluster_start d s0 \<and> (cluster_step d)\<^sup>*\<^sup>* s0 s" for d
proof
  fix s P
  assume "\<exists>s0. cluster_start d s0 \<and> (cluster_step d)\<^sup>*\<^sup>* s0 s" and start: "\<And>s. cluster_start d s \<Longrightarrow> P s"
    and step: "\<And>s t. \<exists>s0. cluster_start d s0 \<and> (cluster_step d)\<^sup>*\<^sup>* s0 s \<Longrightarrow> P s \<Longrightarrow> cluster_step d s t \<Longrightarrow> P t"
  then obtain s0 where "cluster_start d s0" and "(cluster_step d)\<^sup>*\<^sup>* s0 s" by blast
  from this(2,1) show "P s"
    by (induction rule: rtranclp_induct) (use start step in blast)+
qed

interpretation stores: inductive_invariant "cluster_start d" "cluster_step d"
  "\<lambda>s. \<exists>s0. cluster_start d s0 \<and> (cluster_step d)\<^sup>*\<^sup>* s0 s" "\<lambda>s. \<forall>i. engine_inv (cn_storage (cl_node s i))" for d
proof
  show "\<forall>i. engine_inv (cn_storage (cl_node s i))" if "cluster_start d s" for s
    using that new_store unfolding cluster_start_def by blast
  fix s t
  assume inv: "\<forall>i. engine_inv (cn_storage (cl_node s i))" and "cluster_step d s t"
  from this(2) show "\<forall>i. engine_inv (cn_storage (cl_node t i))"
  proof cases
    case (cl_restart i k)
    have "engine_inv (cn_storage (cluster_restart d i k (cl_node s i)))"
      using inv new_store by (auto simp: cluster_restart_def split: sum.splits)
    then show ?thesis using inv cl_restart by (simp add: node_acts_def)
  next
    case (cl_crash c bytes l m k)
    have "engine_inv (cn_storage (cluster_restart d (nc_id c) k (n\<lparr>cn_raft := r\<rparr>)))" if "engine_inv (cn_storage n)" for n r
      using that new_store by (auto simp: cluster_restart_def split: sum.splits)
    then show ?thesis using inv cl_crash by (simp add: node_acts_def)
  qed (use inv in \<open>simp_all add: node_acts_def case_prod_unfold Let_def sections_keep_store listen_keeps_store\<close>)
qed

text \<open>
  C7. The state of a deployed node is always well-formed. Between two critical sections, whatever
  happened before (I/O errors, crashes and restarts included), the Raft node has its own id and the
  configured peers, its log has the sentinel in front, the state file holds its current
  term, vote and log, the memtable is strictly ordered by key with a size counter of at least the
  bytes it holds, and no message is left in the queue.
\<close>

theorem deployed_node_wellformed:
  assumes "deployment_ok d" and "cluster_start d s" and "(cluster_step d)\<^sup>*\<^sup>* s s'" and "i \<in> set (dp_ids d)"
  shows "node_ok (dp_fs d) (dp_ids d) i (cn_raft (cl_node s' i)) \<and> engine_inv (cn_storage (cl_node s' i)) \<and>
    cn_outbound_messages (cl_node s' i) = []"
proof -
  obtain r where r: "raft_reachable (dp_fs d) (dp_dir d) (dp_ids d) r" "projects d s' r"
    using cluster_sim.run_simulated [of d s s'] assms(1-3) by blast
  then have "node_ok (dp_fs d) (dp_ids d) i (cn_raft (cl_node s' i))"
    using reachable_ok [OF r(1) _ assms(4)] assms(1) by (simp add: deployment_ok_def projects_def)
  then show ?thesis using stores.holds [of d s'] assms(2,3) r(2) by (auto simp: projects_def)
qed

subsection \<open>A deployment on one machine\<close>

text \<open>Addresses of nodes with different peer ports differ, whatever the hosts.\<close>

lemma peer_address_port:
  assumes "peer_address env c = peer_address env' c'"
  shows "nc_peer_port c = nc_peer_port c'"
proof -
  have "CHR '':'' \<notin> set (show_nat n)" for n
  proof
    assume "CHR '':'' \<in> set (show_nat n)"
    then obtain d where "d < 10" "CHR '':'' = digit_char d" using set_show_nat by blast
    then have "(of_char CHR '':'' :: nat) = 48 + d" using of_char_digit_char by metis
    then show False using \<open>d < 10\<close> by simp
  qed
  moreover have "rev (show_nat (unat (nc_peer_port c))) @ CHR '':'' # rev (peer_host env (nc_id c)) =
      rev (show_nat (unat (nc_peer_port c'))) @ CHR '':'' # rev (peer_host env' (nc_id c'))"
    using arg_cong [OF assms, of rev] by (simp add: peer_address_def)
  ultimately have "show_nat (unat (nc_peer_port c)) = show_nat (unat (nc_peer_port c'))"
    using split_at_first [of "CHR '':''" "rev (show_nat (unat (nc_peer_port c)))" "rev (show_nat (unat (nc_peer_port c')))"] by simp
  then have "unat (nc_peer_port c) = unat (nc_peer_port c')" by (rule show_nat_inj)
  then show ?thesis by (rule unsigned_word_eqI)
qed

lemma deployment_okI:
  assumes "good_fs (dp_fs d)" and "good_codec (dp_enc d) (dp_dec d)" and "distinct (dp_ids d)"
    and "distinct (map nc_peer_port (dp_nodes d))"
  shows "deployment_ok d"
proof -
  have "inj_on (peer_address (dp_env d)) (set (dp_nodes d))"
  proof (rule inj_onI)
    fix c c'
    assume "c \<in> set (dp_nodes d)" and "c' \<in> set (dp_nodes d)" and "peer_address (dp_env d) c = peer_address (dp_env d) c'"
    then show "c = c'" using peer_address_port [of "dp_env d" c "dp_env d" c'] assms(4) by (simp add: distinct_map inj_on_def)
  qed
  then show ?thesis using assms by (simp add: deployment_ok_def)
qed

definition local_deployment :: "PersistentState deployment" where
  "local_deployment =
     \<lparr>dp_fs = memory_fs, dp_enc = text_enc, dp_dec = text_dec, dp_env = \<lambda>_. None,
      dp_nodes = [\<lparr>nc_id = 1, nc_client_port = 6381, nc_peer_port = 7001\<rparr>, \<lparr>nc_id = 2, nc_client_port = 6382, nc_peer_port = 7002\<rparr>,
        \<lparr>nc_id = 3, nc_client_port = 6383, nc_peer_port = 7003\<rparr>],
      dp_dir = \<lambda>i. ''/tmp/raftkv-node-'' @ show_nat (unat i)\<rparr>"

lemma local_deployment_ok: "deployment_ok local_deployment"
  by (rule deployment_okI) (simp_all add: local_deployment_def good_text_codec)

lemma cluster_starts: "\<exists>s. cluster_start d s"
proof -
  have "\<exists>n. cluster_new (dp_fs d) blank_disk i (dp_ids d) (dp_dir d i) = Inr n" for i
    by (rule blank_cluster [of "dp_fs d" i "dp_ids d" "dp_dir d i"]) blast
  then obtain f where "\<And>i. cluster_new (dp_fs d) blank_disk i (dp_ids d) (dp_dir d i) = Inr (f i)" by metis
  then have "cluster_start d \<lparr>cl_node = f, cl_wire = []\<rparr>" by (simp add: cluster_start_def)
  then show ?thesis by blast
qed

theorem cluster_refines_raft_witness:
  "\<exists>s s' r. cluster_start local_deployment s \<and>
     s' = node_acts 2 (client_round memory_fs (\<lambda>_. Io_ok) text_enc (dp_transport local_deployment 2) (Set ''k'' ''v'')) s \<and>
     raft_reachable memory_fs (dp_dir local_deployment) [1, 2, 3] r \<and> cn_raft (cl_node s' 2) = sys_node r 2"
proof -
  obtain s where s: "cluster_start local_deployment s" using cluster_starts by blast
  let ?s = "node_acts 2 (client_round memory_fs (\<lambda>_. Io_ok) text_enc (dp_transport local_deployment 2) (Set ''k'' ''v'')) s"
  have dp: "dp_fs local_deployment = memory_fs" "dp_enc local_deployment = text_enc" "dp_ids local_deployment = [1, 2, 3]"
    by (simp_all add: local_deployment_def)
  have "cluster_step local_deployment s ?s" using cl_client [of 2 local_deployment s] unfolding dp by simp
  then show ?thesis
    using cluster_refines_raft [OF local_deployment_ok s r_into_rtranclp] s unfolding dp by blast
qed

theorem deployed_node_wellformed_witness:
  "\<exists>s s'. cluster_start local_deployment s \<and>
     s' = node_acts 2 (\<lambda>n. (cluster_restart local_deployment 2 0 n, [])) s \<and>
     node_ok memory_fs [1, 2, 3] 2 (cn_raft (cl_node s' 2)) \<and> engine_inv (cn_storage (cl_node s' 2))"
proof -
  obtain s where s: "cluster_start local_deployment s" using cluster_starts by blast
  have dp: "dp_fs local_deployment = memory_fs" "dp_ids local_deployment = [1, 2, 3]"
    by (simp_all add: local_deployment_def)
  have "cluster_step local_deployment s (node_acts 2 (\<lambda>n. (cluster_restart local_deployment 2 0 n, [])) s)"
    by (rule cl_restart) (simp add: dp)
  then have "(cluster_step local_deployment)\<^sup>*\<^sup>* s (node_acts 2 (\<lambda>n. (cluster_restart local_deployment 2 0 n, [])) s)" by simp
  from deployed_node_wellformed [OF local_deployment_ok s this, of 2] show ?thesis using s by (auto simp: dp)
qed

end
