(* ===== verification/Cluster_Runs.thy ===== *)
theory Cluster_Runs
  imports Cluster_System Raft_Defects
begin

text \<open>
  The converse of the simulation of \<^theory_text>\<open>Cluster_System\<close>: every schedule of the Raft group that
  a deployment can produce is a run of the deployed program, whatever it does with its transports,
  its codec and its stores. With it, a run found at the level of the Raft nodes is a run of the
  program; the last theorem takes the diverging run of \<^theory_text>\<open>Raft_Defects\<close> there.
\<close>

fun sender :: "NetworkMessage \<Rightarrow> u64" where
  "sender (NmRequestVote i _) = i"
| "sender (NmRequestVoteResponse i _) = i"
| "sender (NmAppendEntries i _) = i"
| "sender (NmAppendEntriesResponse i _) = i"

text \<open>A state of the program whose wire has every message of the group's network.\<close>

definition delivers :: "'j deployment \<Rightarrow> (string \<times> string) list \<Rightarrow> u64 \<times> NetworkMessage \<Rightarrow> bool" where
  "delivers d wire tm \<longleftrightarrow>
     (\<forall>c \<in> set (dp_nodes d). nc_id c = fst tm \<longrightarrow> sender (snd tm) \<noteq> fst tm \<longrightarrow>
        (\<exists>j. dp_enc d (snd tm) = Some j \<and> (peer_address (dp_env d) c, j @ [LF]) \<in> set wire))"

definition mirrors :: "'j deployment \<Rightarrow> 'j cluster_sys \<Rightarrow> 'j raft_sys \<Rightarrow> bool" where
  "mirrors d s r \<longleftrightarrow> projects d s r \<and> (\<forall>i. cn_router (cl_node s i) = None) \<and>
     list_all (delivers d (cl_wire s)) (sys_net r)"

definition encodes_all :: "'j deployment \<Rightarrow> bool" where
  "encodes_all d \<longleftrightarrow> (\<forall>m. dp_enc d m \<noteq> None)"

lemma sender_network_message [simp]: "sender (network_message i p) = i"
  by (cases p) (simp_all add: network_message_def)

lemma action_message_payload:
  "action_message i a = Some (t, m) \<Longrightarrow> \<exists>p. action_payload a = Some p \<and> pm_to p = t \<and> network_message i (pm_payload p) = m"
  by (cases a) (auto simp: action_message_def network_message_def)

lemma transport_new_address:
  assumes "c \<in> set cs" and "distinct (map nc_id cs)" and "nc_id c \<noteq> i"
  shows "pt_peer_addresses (transport_new env i cs) (nc_id c) = Some (peer_address env c)"
proof -
  obtain a where a: "pt_peer_addresses (transport_new env i cs) (nc_id c) = Some a"
    using transport_new_knows [OF assms(1,3)] by blast
  obtain c' where "c' \<in> set cs" "nc_id c' = nc_id c" "a = peer_address env c'"
    using transport_new_addresses [OF a] by blast
  moreover from this have "c' = c" using assms(1,2) by (simp add: distinct_map inj_on_def)
  ultimately show ?thesis using a by simp
qed

lemma sent_delivers:
  assumes "distinct (dp_ids d)" and "encodes_all d" and "tm \<in> set (List.map_filter (action_message i) acts)"
  shows "delivers d (send_messages (dp_enc d) (dp_transport d i) (List.map_filter action_payload acts)) tm"
  unfolding delivers_def
proof (intro ballI impI)
  fix c assume c: "c \<in> set (dp_nodes d)" "nc_id c = fst tm" "sender (snd tm) \<noteq> fst tm"
  obtain a where a: "a \<in> set acts" "action_message i a = Some (fst tm, snd tm)"
    using assms(3) by (auto simp: List.map_filter_def)
  then obtain p where p: "action_payload a = Some p" "pm_to p = fst tm" "network_message i (pm_payload p) = snd tm"
    using action_message_payload by blast
  obtain j where j: "dp_enc d (snd tm) = Some j" using assms(2) by (auto simp: encodes_all_def)
  have "i \<noteq> nc_id c" using c p(3) sender_network_message [of i "pm_payload p"] by simp
  then have "pt_peer_addresses (dp_transport d i) (nc_id c) = Some (peer_address (dp_env d) c)"
    using c(1) assms(1) by (intro transport_new_address) auto
  then have "send_message (dp_enc d) (dp_transport d i) p = Some (peer_address (dp_env d) c, j @ [LF])"
    using p c(2) j by (simp add: send_message_def transport_new_def)
  then show "\<exists>j. dp_enc d (snd tm) = Some j \<and> (peer_address (dp_env d) c, j @ [LF]) \<in>
      set (send_messages (dp_enc d) (dp_transport d i) (List.map_filter action_payload acts))"
    using a(1) p(1) j by (force simp: send_messages_def List.map_filter_def)
qed

lemma delivers_mono: "delivers d wire tm \<Longrightarrow> set wire \<subseteq> set wire' \<Longrightarrow> delivers d wire' tm"
  unfolding delivers_def by blast

lemma mirrors_run:
  assumes "deployment_ok d" and "encodes_all d" and m: "mirrors d s r" and f: "runs d i f h (cl_node s i)"
    and "cn_router (fst (f (cl_node s i))) = None"
  shows "mirrors d (node_acts i f s) (run_handler i h r)"
proof -
  have p: "projects d s r" using m by (simp add: mirrors_def)
  then have n: "cn_raft (cl_node s i) = sys_node r i" by (simp add: projects_def)
  let ?acts = "snd (h (sys_node r i))"
  have sent: "snd (f (cl_node s i)) = send_messages (dp_enc d) (dp_transport d i) (List.map_filter action_payload ?acts)"
    using f n by (simp add: runs_def)
  have "delivers d (cl_wire s @ snd (f (cl_node s i))) tm"
    if "tm \<in> set (sys_net r) \<union> set (List.map_filter (action_message i) ?acts)" for tm
    using that
  proof
    assume "tm \<in> set (sys_net r)"
    then have "delivers d (cl_wire s) tm" using m by (simp add: mirrors_def list_all_iff)
    then show ?thesis by (rule delivers_mono) simp
  next
    assume "tm \<in> set (List.map_filter (action_message i) ?acts)"
    then have "delivers d (snd (f (cl_node s i))) tm"
      using sent_delivers [OF _ assms(2)] assms(1) sent by (simp add: deployment_ok_def)
    then show ?thesis by (rule delivers_mono) simp
  qed
  then show ?thesis
    using projects_run [OF p f] m assms(5)
    by (auto simp: mirrors_def node_acts_def run_handler_net list_all_iff Let_def case_prod_unfold)
qed

subsection \<open>Every event of a schedule is a step of the program\<close>

abbreviation dp_reachable :: "'j deployment \<Rightarrow> 'j raft_sys \<Rightarrow> bool" where
  "dp_reachable d r \<equiv> raft_reachable (dp_fs d) (dp_dir d) (dp_ids d) r"

text \<open>The router of a node never changes, so a node started without one has none.\<close>

lemma sections_keep_router [simp]:
  "cn_router (fst (tick_round fs io enc t n)) = cn_router n"
  "cn_router (fst (listen_line fs io enc dec t l n)) = cn_router n"
  "cn_router (fst (client_round fs io enc t command n)) = cn_router n"
  by (auto simp: tick_round_def cluster_tick_def listen_line_def dispatch_message_def client_round_def
      handle_client_command_def client_write_eq take_outbound_messages_def process_actions_eq
      Let_def case_prod_unfold split: option.splits Command.splits)

lemma listen_stream_router [simp]: "cn_router (fst (listen_stream fs io enc dec t bytes n)) = cn_router n"
proof -
  have "cn_router (fst (listen_lines fs io enc dec t ls n)) = cn_router n" for ls
  proof (induction ls arbitrary: n)
    case (Cons l ls)
    then show ?case by (cases l) (simp_all add: Let_def case_prod_unfold)
  qed simp
  then show ?thesis by (simp add: listen_stream_def)
qed

lemma cluster_restart_router: "cn_router n = None \<Longrightarrow> cn_router (cluster_restart d i k n) = None"
  by (auto simp: cluster_restart_def cluster_new_def split: sum.splits)

text \<open>The client's command that makes a leader propose a command of the log.\<close>

fun command_for :: "LogCommand \<Rightarrow> Command" where
  "command_for (Put k v) = Set k v"
| "command_for (Delete k) = Del k"
| "command_for Noop = Ping"

lemma client_proposes:
  assumes "cn_outbound_messages n = []" and "cn_router n = None" and "cmd \<noteq> Noop"
  shows "runs d i (client_round fs io (dp_enc d) (dp_transport d i) (command_for cmd)) (propose_actions fs cmd) n"
proof -
  obtain ok where "handle_client_command fs io (command_for cmd) n = client_write fs io cmd ok (n\<lparr>cn_pending_commit_index := None\<rparr>)"
    using assms(2,3) by (cases cmd) (auto simp: handle_client_command_def shard_check_def Let_def)
  then show ?thesis
    using assms(1)
    by (cases "role (cn_raft n) = Leader")
      (simp_all add: runs_def client_round_def take_outbound_messages_def client_write_eq process_actions_eq
        propose_actions_def propose_eq Let_def case_prod_unfold)
qed

definition self_free :: "'j raft_sys \<Rightarrow> bool" where
  "self_free r \<longleftrightarrow> list_all (\<lambda>tm. sender (snd tm) \<noteq> fst tm) (sys_net r)"

fun deployable :: "raft_event \<Rightarrow> bool" where
  "deployable (Client i cmd) \<longleftrightarrow> cmd \<noteq> Noop"
| "deployable _ \<longleftrightarrow> True"

lemma realise_ticks:
  assumes "deployment_ok d" and "encodes_all d" and "i \<in> set (dp_ids d)" and "run_ticks (dp_fs d) i k r = Some r'" and "mirrors d s r"
  shows "\<exists>s'. (cluster_step d)\<^sup>*\<^sup>* s s' \<and> mirrors d s' r'"
  using assms(4,5)
proof (induction k arbitrary: r s)
  case (Suc k)
  let ?f = "tick_round (dp_fs d) (\<lambda>_. Io_ok) (dp_enc d) (dp_transport d i)"
  have n: "cn_raft (cl_node s i) = sys_node r i" "cn_outbound_messages (cl_node s i) = []" "cn_router (cl_node s i) = None"
    using Suc.prems(2) by (simp_all add: mirrors_def projects_def)
  have "cluster_step d s (node_acts i ?f s)"
    using assms(3) n(1) Suc.prems(1) by (intro cl_tick) (auto split: if_splits)
  moreover have "mirrors d (node_acts i ?f s) (run_handler i (tick (dp_fs d)) r)"
    using mirrors_run [OF assms(1,2) Suc.prems(2) tick_runs [OF n(2)]] n(3) by simp
  then have "\<exists>s'. (cluster_step d)\<^sup>*\<^sup>* (node_acts i ?f s) s' \<and> mirrors d s' r'"
    using Suc.IH Suc.prems(1) by (auto split: if_splits)
  ultimately show ?case using converse_rtranclp_into_rtranclp [of "cluster_step d" s] by blast
qed auto

lemma message_on_wire:
  assumes "mirrors d s r" and "self_free r" and "k < length (sys_net r)" and "c \<in> set (dp_nodes d)"
    and "nc_id c = fst (sys_net r ! k)"
  shows "\<exists>b. dp_enc d (snd (sys_net r ! k)) = Some b \<and> (peer_address (dp_env d) c, b @ [LF]) \<in> set (cl_wire s)"
proof -
  have "sys_net r ! k \<in> set (sys_net r)" using assms(3) by simp
  then have "delivers d (cl_wire s) (sys_net r ! k)" "sender (snd (sys_net r ! k)) \<noteq> fst (sys_net r ! k)"
    using assms(1,2) by (auto simp: mirrors_def self_free_def list_all_iff)
  then show ?thesis using assms(4,5) unfolding delivers_def by auto
qed

lemma realise_event:
  assumes "deployment_ok d" and "encodes_all d" and "dp_reachable d r" and "mirrors d s r"
    and "deployable e" and "self_free r" and "run_event (dp_fs d) (dp_dir d) (dp_ids d) e r = Some r'"
  shows "\<exists>s'. (cluster_step d)\<^sup>*\<^sup>* s s' \<and> mirrors d s' r'"
proof -
  let ?i = "event_node e"
  have i: "?i \<in> set (dp_ids d)" using assms(7) by (auto simp: run_event_def split: if_splits)
  have n: "cn_outbound_messages (cl_node s j) = []" "cn_router (cl_node s j) = None" "cn_raft (cl_node s j) = sys_node r j" for j
    using assms(4) by (simp_all add: mirrors_def projects_def)
  note step = mirrors_run [OF assms(1,2,4)]
  show ?thesis
  proof (cases e)
    case (Ticks j k)
    then have "run_ticks (dp_fs d) j k r = Some r'" using assms(7) i by (simp add: run_event_def)
    then show ?thesis using Ticks i realise_ticks [OF assms(1,2) _ _ assms(4)] by simp
  next
    case (Deliver j k)
    let ?m = "snd (sys_net r ! k)"
    have k: "k < length (sys_net r)" "fst (sys_net r ! k) = j" and r': "r' = run_handler j (raft_dispatch (dp_fs d) ?m) r"
      using assms(7) i Deliver by (auto simp: run_event_def split: if_splits)
    obtain c where c: "c \<in> set (dp_nodes d)" "nc_id c = j" using i Deliver by auto
    obtain b where b: "dp_enc d ?m = Some b" "(peer_address (dp_env d) c, b @ [LF]) \<in> set (cl_wire s)"
      using message_on_wire [OF assms(4,6) k(1) c(1)] c(2) k(2) by auto
    have "good_codec (dp_enc d) (dp_dec d)" using assms(1) by (simp add: deployment_ok_def)
    from step [OF listen_runs [OF n(1) this b(1), of j "dp_fs d" "\<lambda>_. Io_ok"]] show ?thesis
      using cl_receive [OF c(1) b(2), of "\<lambda>_. Io_ok"] n(2) c(2) r' by auto
  next
    case (Client j cmd)
    then have r': "r' = run_handler j (propose_actions (dp_fs d) cmd) r" and "cmd \<noteq> Noop"
      using assms(5,7) i by (simp_all add: run_event_def)
    from step [OF client_proposes [OF n(1,2) this(2), where i = j and fs = "dp_fs d" and io = "\<lambda>_. Io_ok"]] show ?thesis
      using cl_client [of j d s "\<lambda>_. Io_ok" "command_for cmd"] i Client n(2) r' by auto
  next
    case (Restart j)
    then have r': "r' = run_handler j (\<lambda>n. (restart (dp_fs d) (dp_dir d j) n, [])) r"
      using assms(7) i by (simp add: run_event_def)
    have "node_ok (dp_fs d) (dp_ids d) j (cn_raft (cl_node s j))"
      using reachable_ok [OF assms(3), of j] i Restart n(3) assms(1) by (simp add: deployment_ok_def)
    from step [OF restart_runs [OF this, of 0]] show ?thesis
      using cl_restart [of j d s 0] i Restart cluster_restart_router [OF n(2)] r' by auto
  qed
qed

lemma run_ticks_net: "run_ticks fs i k r = Some r' \<Longrightarrow> set (sys_net r) \<subseteq> set (sys_net r')"
proof (induction k arbitrary: r)
  case (Suc k)
  then show ?case by (fastforce simp: run_handler_net split: if_splits)
qed simp

lemma run_event_net: "run_event fs dir ps e r = Some r' \<Longrightarrow> set (sys_net r) \<subseteq> set (sys_net r')"
  by (cases e) (auto simp: run_event_def run_handler_net dest: run_ticks_net split: if_splits)

lemma run_events_net: "run_events fs dir ps es r = Some r' \<Longrightarrow> set (sys_net r) \<subseteq> set (sys_net r')"
  by (induction es arbitrary: r) (force split: option.splits dest: run_event_net)+

lemma realise_events:
  assumes "deployment_ok d" and "encodes_all d" and "dp_reachable d r" and "mirrors d s r"
    and "list_all deployable es" and "run_events (dp_fs d) (dp_dir d) (dp_ids d) es r = Some r'" and "self_free r'"
  shows "\<exists>s'. (cluster_step d)\<^sup>*\<^sup>* s s' \<and> mirrors d s' r'"
  using assms(3-7)
proof (induction es arbitrary: r s)
  case (Cons e es)
  then obtain r1 where r1: "run_event (dp_fs d) (dp_dir d) (dp_ids d) e r = Some r1"
      "run_events (dp_fs d) (dp_dir d) (dp_ids d) es r1 = Some r'"
    by (auto split: option.splits)
  have "self_free r"
    using run_events_net [OF Cons.prems(4)] Cons.prems(5) by (auto simp: self_free_def list_all_iff)
  then obtain s1 where s1: "(cluster_step d)\<^sup>*\<^sup>* s s1" "mirrors d s1 r1"
    using realise_event [OF assms(1,2) Cons.prems(1,2) _ _ r1(1)] Cons.prems(3) by auto
  have "dp_reachable d r1" using run_event_sound [OF r1(1)] Cons.prems(1) by (simp add: raft_reachable_def)
  then obtain s' where "(cluster_step d)\<^sup>*\<^sup>* s1 s'" "mirrors d s' r'"
    using Cons.IH [OF _ s1(2) _ r1(2)] Cons.prems(3,5) by auto
  then show ?case using s1(1) by (meson rtranclp_trans)
qed auto

lemma start_mirrors:
  assumes "cluster_start d s"
  shows "mirrors d s (raft_init (dp_fs d) (dp_dir d) (dp_ids d))"
proof -
  have "cn_router (cl_node s i) = None" for i
  proof -
    have "cluster_new (dp_fs d) blank_disk i (dp_ids d) (dp_dir d i) = Inr (cl_node s i)"
      using assms by (simp add: cluster_start_def)
    then show ?thesis using cluster_new_outbound by blast
  qed
  then show ?thesis using start_projects [OF assms] by (simp add: mirrors_def raft_init_def)
qed

text \<open>
  C12. Runs of the Raft group are runs of the program. Take any schedule of ticks, deliveries, client
  proposals of a \<open>Put\<close> or a \<open>Delete\<close> and restarts, in which no node sends to itself. The deployed
  program, started on empty disks, has a run after which each of its Raft nodes is in the state the
  schedule leaves it in.
\<close>

theorem schedules_are_realised:
  assumes "deployment_ok d" and "encodes_all d" and "cluster_start d s" and "list_all deployable es"
    and "run_events (dp_fs d) (dp_dir d) (dp_ids d) es (raft_init (dp_fs d) (dp_dir d) (dp_ids d)) = Some r" and "self_free r"
  shows "\<exists>s'. (cluster_step d)\<^sup>*\<^sup>* s s' \<and> (\<forall>i. cn_raft (cl_node s' i) = sys_node r i)"
proof -
  have "dp_reachable d (raft_init (dp_fs d) (dp_dir d) (dp_ids d))" by (simp add: raft_reachable_def steps_refl)
  from realise_events [OF assms(1,2) this start_mirrors [OF assms(3)] assms(4-6)] show ?thesis
    by (auto simp: mirrors_def projects_def)
qed

text \<open>A run of the deployment of three nodes on one machine, in which node 2 is elected.\<close>

lemma encodes_local: "encodes_all local_deployment"
  by (simp add: encodes_all_def local_deployment_def text_enc_def)

lemma local_deployment_simps:
  "dp_fs local_deployment = memory_fs" "dp_ids local_deployment = [1, 2, 3]"
  by (simp_all add: local_deployment_def)

definition first_election :: "raft_event list" where
  "first_election = [Ticks 2 37, Deliver 1 0, Deliver 2 2]"

lemma first_election_result:
  "case run_events memory_fs (dp_dir local_deployment) [1, 2, 3] first_election
      (raft_init memory_fs (dp_dir local_deployment) [1, 2, 3]) of
     None \<Rightarrow> False
   | Some r \<Rightarrow> self_free r \<and> role (sys_node r 2) = Leader \<and> list_all deployable first_election"
  by code_simp

lemma divergent_result:
  "case run_events memory_fs (dp_dir local_deployment) [1, 2, 3] divergent_run
      (raft_init memory_fs (dp_dir local_deployment) [1, 2, 3]) of
     None \<Rightarrow> False
   | Some r \<Rightarrow> self_free r \<and> list_all deployable divergent_run \<and>
       last_applied (sys_node r 1) = 1 \<and> last_applied (sys_node r 2) = 2 \<and>
       log_get (node_log (sys_node r 1)) 1 = Some \<lparr>le_term = 2, le_command = Put ''k'' ''c''\<rparr> \<and>
       log_get (node_log (sys_node r 2)) 1 = Some \<lparr>le_term = 1, le_command = Put ''k'' ''b''\<rparr>"
  by code_simp

theorem schedules_are_realised_witness:
  "\<exists>s s'. cluster_start local_deployment s \<and> (cluster_step local_deployment)\<^sup>*\<^sup>* s s' \<and> role (cn_raft (cl_node s' 2)) = Leader"
proof -
  obtain s where s: "cluster_start local_deployment s" using cluster_starts by blast
  obtain r where r: "run_events memory_fs (dp_dir local_deployment) [1, 2, 3] first_election
      (raft_init memory_fs (dp_dir local_deployment) [1, 2, 3]) = Some r"
      "self_free r" "role (sys_node r 2) = Leader" "list_all deployable first_election"
    using first_election_result by (auto split: option.splits)
  have "\<exists>s'. (cluster_step local_deployment)\<^sup>*\<^sup>* s s' \<and> (\<forall>i. cn_raft (cl_node s' i) = sys_node r i)"
    by (rule schedules_are_realised [OF local_deployment_ok encodes_local s r(4)])
      (simp_all add: local_deployment_simps r)
  then show ?thesis using s r(3) by metis
qed

lemma local_run:
  assumes "run_events memory_fs (dp_dir local_deployment) [1, 2, 3] es (raft_init memory_fs (dp_dir local_deployment) [1, 2, 3]) = Some r"
    and "self_free r" and "list_all deployable es"
  obtains s s' where "cluster_start local_deployment s" "(cluster_step local_deployment)\<^sup>*\<^sup>* s s'"
    "\<And>i. cn_raft (cl_node s' i) = sys_node r i"
proof -
  obtain s where s: "cluster_start local_deployment s" using cluster_starts by blast
  have "dp_reachable local_deployment (raft_init memory_fs (dp_dir local_deployment) [1, 2, 3])"
    by (simp add: raft_reachable_def steps_refl local_deployment_simps)
  then have "\<exists>s'. (cluster_step local_deployment)\<^sup>*\<^sup>* s s' \<and> mirrors local_deployment s' r"
    using realise_events [OF local_deployment_ok encodes_local _ _ assms(3) _ assms(2)] start_mirrors [OF s] assms(1)
    by (simp add: local_deployment_simps)
  then show ?thesis using that [OF s] by (auto simp: mirrors_def projects_def)
qed

theorem cluster_election_safety_witness:
  "\<exists>s t. cluster_start local_deployment s \<and> (cluster_step local_deployment)\<^sup>*\<^sup>* s t \<and> role (cn_raft (cl_node t 2)) = Leader \<and>
     \<not> (role (cn_raft (cl_node t 1)) = Leader \<and>
        current_term (cn_raft (cl_node t 2)) = current_term (cn_raft (cl_node t 1)))"
proof -
  obtain r where r: "run_events memory_fs (dp_dir local_deployment) [1, 2, 3] first_election
      (raft_init memory_fs (dp_dir local_deployment) [1, 2, 3]) = Some r"
      "self_free r" "role (sys_node r 2) = Leader" "list_all deployable first_election"
    using first_election_result by (auto split: option.splits)
  obtain s t where s: "cluster_start local_deployment s" "(cluster_step local_deployment)\<^sup>*\<^sup>* s t"
      "\<And>i. cn_raft (cl_node t i) = sys_node r i"
    using local_run [OF r(1,2,4)] by blast
  have "role (cn_raft (cl_node t 2)) = Leader" using s(3) r(3) by simp
  then show ?thesis
    using cluster_election_safety [OF local_deployment_ok s(1,2) rtranclp.rtrancl_refl, of 2 1] s(1,2)
    by (auto simp: local_deployment_simps)
qed

text \<open>
  C33. The deployed program can apply different commands at the same index. Three nodes on one machine
  have a run in which nodes 1 and 2 have both applied index 1, with different commands there.
\<close>

theorem deployed_nodes_diverge:
  "\<exists>s s' e e'. cluster_start local_deployment s \<and> (cluster_step local_deployment)\<^sup>*\<^sup>* s s' \<and>
     last_applied (cn_raft (cl_node s' 1)) \<ge> 1 \<and> last_applied (cn_raft (cl_node s' 2)) \<ge> 1 \<and>
     log_get (node_log (cn_raft (cl_node s' 1))) 1 = Some e \<and> log_get (node_log (cn_raft (cl_node s' 2))) 1 = Some e' \<and>
     le_command e \<noteq> le_command e'"
proof -
  obtain r where r: "run_events memory_fs (dp_dir local_deployment) [1, 2, 3] divergent_run
      (raft_init memory_fs (dp_dir local_deployment) [1, 2, 3]) = Some r" "self_free r" "list_all deployable divergent_run"
    and n: "last_applied (sys_node r 1) = 1" "last_applied (sys_node r 2) = 2"
      "log_get (node_log (sys_node r 1)) 1 = Some \<lparr>le_term = 2, le_command = Put ''k'' ''c''\<rparr>"
      "log_get (node_log (sys_node r 2)) 1 = Some \<lparr>le_term = 1, le_command = Put ''k'' ''b''\<rparr>"
    using divergent_result by (auto split: option.splits)
  obtain s s' where "cluster_start local_deployment s" "(cluster_step local_deployment)\<^sup>*\<^sup>* s s'"
      "\<And>i. cn_raft (cl_node s' i) = sys_node r i"
    using local_run [OF r] by blast
  then show ?thesis using n by (intro exI [of _ s] exI [of _ s'] exI) auto
qed

end
