(* ===== verification/Leader_Logs.thy ===== *)
theory Leader_Logs
  imports Raft_Commit
begin

text \<open>
  How a follower's log relates to the logs of the leaders: \<open>agrees\<close> says that a log holds what a
  leader's log holds up to an index. An accepted AppendEntries of a leader keeps such an agreement
  with that leader, and if the message is \<open>proper_append\<close>, it leaves the follower with a prefix of
  the leader's log. The terms in a node's log never exceed the node's own.
\<close>

subsection \<open>Disagreement is final\<close>

text \<open>
  A log that does not agree does not come to agree by growing with entries of a later term.
\<close>

lemma disagreement_stable:
  assumes "\<not> agrees l g k" and "k < length g" and "\<And>j. j < length g \<Longrightarrow> le_term (g ! j) \<le> t"
    and "\<And>x. x \<in> set xs \<Longrightarrow> t < le_term x"
  shows "\<not> agrees (l @ xs) (g @ ys) k"
proof
  assume a: "agrees (l @ xs) (g @ ys) k"
  show False
  proof (cases "k < length l")
    case True
    then show False using a assms(1,2) by (simp add: agrees_def)
  next
    case False
    then have l: "length l \<le> k" "length l - length l < length xs" using a by (auto simp: agrees_def)
    have "(l @ xs) ! length l = (g @ ys) ! length l" using agrees_nth [OF a l(1)] .
    then have "xs ! 0 = g ! length l" using l assms(2) by (simp add: nth_append)
    moreover have "xs ! 0 \<in> set xs" using l(2) by simp
    ultimately show False using assms(3) [of "length l"] assms(4) [of "xs ! 0"] l(1) assms(2) by auto
  qed
qed

subsection \<open>An accepted AppendEntries\<close>

text \<open>What the previous entry named in a message says about the leader's log.\<close>

definition prev_of :: "RaftLog \<Rightarrow> AppendEntriesRequest \<Rightarrow> bool" where
  "prev_of g r \<longleftrightarrow>
     ae_prev_log_index r < length g \<and> ae_prev_log_term r = le_term (g ! ae_prev_log_index r) \<or>
     ae_prev_log_term r = 0 \<and> ae_prev_log_index r \<noteq> 0"

lemma prev_of_append: "prev_of g r \<Longrightarrow> prev_of (g @ xs) r"
  by (auto simp: prev_of_def nth_append)

definition accepts :: "RaftLog \<Rightarrow> AppendEntriesRequest \<Rightarrow> bool" where
  "accepts l r \<longleftrightarrow> term_at l (ae_prev_log_index r) = ae_prev_log_term r"

abbreviation merged :: "RaftLog \<Rightarrow> AppendEntriesRequest \<Rightarrow> RaftLog" where
  "merged l r \<equiv> merged_log l (ae_prev_log_index r) (ae_entries r)"

text \<open>
  A message is proper for a follower's log when the log reaches the entry the message follows on
  and, once it is merged, reaches no further than the message does, so that the match index in the
  follower's response says no more than the message; or when the log already ends with an entry of
  the message's leader.
\<close>

definition proper_append :: "RaftLog \<Rightarrow> AppendEntriesRequest \<Rightarrow> bool" where
  "proper_append l r \<longleftrightarrow>
     ae_prev_log_index r \<le> last_index l \<and> last_index (merged l r) \<le> ae_prev_log_index r + length (ae_entries r) \<or>
     last_term l = ae_term r"

lemma merge_keeps_agreement:
  assumes l: "consistent T ll l" and g: "consistent T ll g" and "segment_of g r" and "accepts l r"
    and a: "agrees l g k"
  shows "agrees (merged l r) g k"
proof (cases "ae_entries r = []")
  case False
  with assms(3,4) have p: "ae_prev_log_index r < length g" "term_at l (ae_prev_log_index r) = le_term (g ! ae_prev_log_index r)"
    and e: "ae_entries r = take (length (ae_entries r)) (drop (ae_prev_log_index r + 1) g)"
    by (auto simp: segment_of_def accepts_def)
  from l g False e p show ?thesis
  proof (cases rule: merged_by_leader)
    case (replaced m)
    have "k < ae_prev_log_index r + 1 + m"
    proof (rule ccontr)
      assume "\<not> k < ae_prev_log_index r + 1 + m"
      then have "term_at l (ae_prev_log_index r + 1 + m) = le_term (g ! (ae_prev_log_index r + 1 + m)) \<and>
          ae_prev_log_index r + 1 + m < length l"
        using agrees_term_at [OF a] by simp
      then show False using replaced(4) by (auto simp: last_index_def)
    qed
    then show ?thesis using replaced(1,2,3) by (simp add: agrees_take)
  qed (use a in simp)
qed (simp add: a)

lemma proper_merge_prefix:
  assumes l: "consistent T ll l" and g: "consistent T ll (ll (ae_term r))" and "segment_of (ll (ae_term r)) r"
    and "prev_of (ll (ae_term r)) r" and acc: "accepts l r" and proper: "proper_append l r" and t: "ae_term r \<noteq> 0"
  shows "merged l r = take (length (merged l r)) (ll (ae_term r))"
proof -
  let ?g = "ll (ae_term r)" and ?p = "ae_prev_log_index r" and ?es = "ae_entries r"
  have lok: "log_ok l" using l by (rule consistent_log_ok)
  have len: "length l = Suc (last_index l)" using log_ok_length [OF lok] .
  have whole: "l = take (length l) ?g" if "last_term l = ae_term r"
  proof -
    have k: "0 < last_index l" "last_index l < length l"
      using that t len lok by (auto simp: last_term_at intro: gr0I)
    have "le_term (l ! last_index l) = ae_term r" using that len lok by (simp add: last_term_at term_at_in)
    with consistentD(4) [OF l k] show ?thesis by (simp add: len [symmetric])
  qed
  have prev: "?p < length ?g \<and> ae_prev_log_term r = le_term (?g ! ?p)" if "?p \<le> last_index l"
  proof (rule ccontr)
    assume "\<not> ?thesis"
    then have "ae_prev_log_term r = 0" "?p \<noteq> 0" using assms(4) by (auto simp: prev_of_def)
    moreover have "?p < length l" using that len by simp
    ultimately show False using consistentD(2) [OF l, of ?p] acc by (simp add: accepts_def term_at_in)
  qed
  have kept: "l = take (length l) ?g"
    if "?p \<le> last_index l" "last_index l \<le> ?p + length ?es" and "?es = [] \<or> agrees l ?g (?p + length ?es)"
  proof (cases "?es = []")
    case True
    then have "agrees l ?g ?p"
      using agree_up_to [OF l g, of ?p] prev [OF that(1)] acc by (simp add: accepts_def agrees_def)
    then show ?thesis using True that(1,2) len by (simp add: agrees_def)
  next
    case False
    then have "agrees l ?g (?p + length ?es)" using that(3) by simp
    then show ?thesis using that(2) len by (simp add: agrees_def)
  qed
  show ?thesis
  proof (cases "?es = []")
    case True
    then show ?thesis using proper whole kept by (auto simp: proper_append_def)
  next
    case False
    with assms(3) acc have p: "?p < length ?g" "term_at l ?p = le_term (?g ! ?p)"
      and e: "?es = take (length ?es) (drop (?p + 1) ?g)"
      by (auto simp: segment_of_def accepts_def)
    from l g False e p show ?thesis
    proof (cases rule: merged_by_leader)
      case kept': kept
      then show ?thesis using proper whole kept by (auto simp: proper_append_def)
    next
      case (replaced m)
      then show ?thesis by simp
    qed
  qed
qed

subsection \<open>Terms in logs are bounded\<close>

definition bounds_inv :: "'j json_fs \<Rightarrow> u64 list \<Rightarrow> 'j hist \<Rightarrow> bool" where
  "bounds_inv fs ps h \<longleftrightarrow> (good_fs fs \<longrightarrow>
     (\<forall>i \<in> set ps. \<forall>e \<in> set (node_log (h_node h i)). le_term e \<le> current_term (h_node h i)) \<and>
     (\<forall>t \<in> led h. \<forall>e \<in> set (h_llog h t). le_term e \<le> t) \<and>
     (\<forall>c j r. (c, NmAppendEntries j r) \<in> set (sys_net (h_sys h)) \<longrightarrow> prev_of (h_llog h (ae_term r)) r))"

lemma set_merged_log: "set (merged_log l prev es) \<subseteq> set l \<union> set es"
  by (cases rule: merged_log_cases [where l = l and prev = prev and es = es])
    (auto dest: in_set_takeD in_set_dropD)

lemma segment_of_set: "segment_of g r \<Longrightarrow> set (ae_entries r) \<subseteq> set g"
  by (auto simp: segment_of_def) (metis in_set_dropD in_set_takeD)

lemma sent_prev_of:
  assumes "send_step n acts" and "SendAppendEntries c r \<in> set acts" and "log_ok (node_log n)"
  shows "prev_of (node_log n) r"
proof -
  obtain i where "ae_prev_log_index r = i - 1" "ae_prev_log_term r = term_at (node_log n) (i - 1)"
    using assms(1,2) unfolding send_step_def by blast
  moreover have "0 < length (node_log n)" using assms(3) by (simp add: log_ok_def)
  ultimately show ?thesis
    by (cases "i - 1 < length (node_log n)") (auto simp: prev_of_def term_at_in term_at_out)
qed

lemma moved_log_bounded:
  assumes rp: "log_step (set (sys_net (h_sys h))) (h_node h i) n'" and "node_id (h_node h i) = i"
    and mono: "current_term (h_node h i) \<le> current_term n'"
    and old: "\<And>e. e \<in> set (node_log (h_node h i)) \<Longrightarrow> le_term e \<le> current_term (h_node h i)"
    and msgs: "\<And>c r. (i, NmAppendEntries c r) \<in> set (sys_net (h_sys h)) \<Longrightarrow>
      segment_of (h_llog h (ae_term r)) r \<and> (\<forall>e \<in> set (h_llog h (ae_term r)). le_term e \<le> ae_term r)"
    and e: "e \<in> set (node_log n')"
  shows "le_term e \<le> current_term n'"
proof -
  have base: "le_term e \<le> current_term n'" if "e \<in> set (node_log (h_node h i))"
    using old [OF that] mono by simp
  from rp consider (same) "node_log n' = node_log (h_node h i)"
    | (grow) cmd where "current_term n' = current_term (h_node h i)"
        "node_log n' = node_log (h_node h i) @ [\<lparr>le_term = current_term (h_node h i), le_command = cmd\<rparr>]"
    | (merge) c q where "(i, NmAppendEntries c q) \<in> set (sys_net (h_sys h))" "ae_term q = current_term n'"
        "node_log n' = merged (node_log (h_node h i)) q"
    using assms(2) by (auto simp: log_step_def)
  then show ?thesis
  proof cases
    case merge
    then have "e \<in> set (node_log (h_node h i)) \<or> e \<in> set (ae_entries q)" using e set_merged_log by fastforce
    then show ?thesis
      using base msgs [OF merge(1)] segment_of_set [of "h_llog h (ae_term q)" q] merge(2) by auto
  qed (use base e in auto)
qed

interpretation bounds: inductive_invariant
  "\<lambda>h. h = hist_init fs dir ps" "hist_step fs dir ps" "hist_reachable fs dir ps" "bounds_inv fs ps"
  for fs dir ps
proof
  fix h :: "'a hist"
  show "h = hist_init fs dir ps \<Longrightarrow> bounds_inv fs ps h"
    by (simp add: bounds_inv_def hist_init_def raft_init_def log_new_def sentinel_def)
next
  fix h k :: "'a hist"
  assume r: "hist_reachable fs dir ps h" and inv: "bounds_inv fs ps h" and st: "hist_step fs dir ps h k"
  show "bounds_inv fs ps k"
    unfolding bounds_inv_def
  proof (intro impI)
    assume good: "good_fs fs"
    note I = inv [unfolded bounds_inv_def, rule_format, OF good]
    note G = logs.holds [OF r, unfolded logs_inv_def, rule_format, OF good]
    obtain i s acts where k: "k = observe i h s" and i: "i \<in> set ps" and rs: "raft_step fs dir ps i (h_sys h) s"
      and other: "\<And>j. j \<noteq> i \<Longrightarrow> sys_node s j = h_node h j"
      and net: "sys_net s = sys_net (h_sys h) @ List.map_filter (action_message i) acts"
      and n: "node_ok fs ps i (h_node h i)" and mono: "current_term (h_node h i) \<le> current_term (sys_node s i)"
      and rp: "repl_step (set (sys_net (h_sys h))) (h_node h i) (sys_node s i) acts"
      using hist_replE [OF st r good] by blast
    have moved: "le_term e \<le> current_term (sys_node s i)" if "e \<in> set (node_log (sys_node s i))" for e
    proof (rule moved_log_bounded [OF _ _ mono _ _ that])
      show "log_step (set (sys_net (h_sys h))) (h_node h i) (sys_node s i)" using rp by (simp add: repl_step_def)
      show "node_id (h_node h i) = i" using n by (simp add: node_ok_def)
      show "le_term e \<le> current_term (h_node h i)" if "e \<in> set (node_log (h_node h i))" for e
        using I i that by simp
      show "segment_of (h_llog h (ae_term q)) q \<and> (\<forall>e \<in> set (h_llog h (ae_term q)). le_term e \<le> ae_term q)"
        if "(i, NmAppendEntries c q) \<in> set (sys_net (h_sys h))" for c q
      proof -
        have "ae_term q \<in> led h" "segment_of (h_llog h (ae_term q)) q" using G that by blast+
        then show ?thesis using I by blast
      qed
    qed
    have nodes: "le_term e \<le> current_term (h_node k j)" if "j \<in> set ps" "e \<in> set (node_log (h_node k j))" for j e
      using that moved I other [of j] by (cases "j = i") (auto simp: k)
    have leads: "le_term e \<le> t" if "t \<in> led k" "e \<in> set (h_llog k t)" for t e
      using that moved I by (cases "role (sys_node s i) = Leader \<and> t = current_term (sys_node s i)")
        (auto simp: k led_observe split: if_splits)
    have msgs: "prev_of (h_llog k (ae_term q)) q" if m: "(c, NmAppendEntries j q) \<in> set (sys_net (h_sys k))" for c j q
    proof -
      consider (old) "(c, NmAppendEntries j q) \<in> set (sys_net (h_sys h))" | (new) "SendAppendEntries c q \<in> set acts"
        using m unfolding k observe_simps net set_net_append action_message_iff by blast
      then show ?thesis
      proof cases
        case old
        then have "prev_of (h_llog h (ae_term q)) q" "ae_term q \<in> led h" using I G by blast+
        then show ?thesis using llog_grows_step [OF r st good, of "ae_term q"] prev_of_append by auto
      next
        case new
        have "node_ok fs ps i (h_node k i)" using reachable_node_ok [OF hist_next [OF r st] good i] .
        then have "log_ok (node_log (sys_node s i))" by (simp add: node_ok_def k)
        with new rp show ?thesis
          using sent_prev_of [of "sys_node s i" acts c q] by (auto simp: repl_step_def send_step_def k)
      qed
    qed
    show "(\<forall>i \<in> set ps. \<forall>e \<in> set (node_log (h_node k i)). le_term e \<le> current_term (h_node k i)) \<and>
     (\<forall>t \<in> led k. \<forall>e \<in> set (h_llog k t). le_term e \<le> t) \<and>
     (\<forall>c j r. (c, NmAppendEntries j r) \<in> set (sys_net (h_sys k)) \<longrightarrow> prev_of (h_llog k (ae_term r)) r)"
      using nodes leads msgs by blast
  qed
qed

end
