(* ===== verification/Proper_Runs.thy ===== *)
theory Proper_Runs
  imports Leader_Logs
begin

text \<open>
  The runs in which replication is safe. Two checks are missing in the handlers: a follower that
  accepts an AppendEntries reports its whole log as matching, also the part the message said
  nothing about, and a leader counts a successful response of an earlier term. A \<open>proper_delivery\<close>
  is one where neither makes a difference; ticks, proposals, crashes and restarts are unrestricted.

  \<open>commit_step\<close> collects what one step of a node does to its vote, its tracking of the followers
  and its commit index, and what its messages say about them.
\<close>

definition proper_delivery :: "NetworkMessage \<Rightarrow> 'j RaftNode \<Rightarrow> bool" where
  "proper_delivery m n =
     (case m of
        NmAppendEntries _ r \<Rightarrow>
          \<not> ae_term r < current_term n \<longrightarrow> accepts (node_log n) r \<longrightarrow> proper_append (node_log n) r
      | NmAppendEntriesResponse _ r \<Rightarrow>
          role n = Leader \<longrightarrow> aer_success r \<longrightarrow> \<not> aer_term r < current_term n
      | _ \<Rightarrow> True)"

inductive proper_step ::
  "'j json_fs \<Rightarrow> (u64 \<Rightarrow> string) \<Rightarrow> u64 list \<Rightarrow> u64 \<Rightarrow> 'j raft_sys \<Rightarrow> 'j raft_sys \<Rightarrow> bool"
  for fs dir ps i where
  proper_tick: "i \<in> set ps \<Longrightarrow> current_term (sys_node s i) \<noteq> - 1 \<Longrightarrow>
    proper_step fs dir ps i s (run_handler i (tick fs) s)"
| proper_deliver: "i \<in> set ps \<Longrightarrow> (i, m) \<in> set (sys_net s) \<Longrightarrow> proper_delivery m (sys_node s i) \<Longrightarrow>
    proper_step fs dir ps i s (run_handler i (raft_dispatch fs m) s)"
| proper_propose: "i \<in> set ps \<Longrightarrow> proper_step fs dir ps i s (run_handler i (propose_actions fs cmd) s)"
| proper_restart: "i \<in> set ps \<Longrightarrow>
    proper_step fs dir ps i s (run_handler i (\<lambda>n. (restart fs (dir i) n, [])) s)"
| proper_crash: "i \<in> set ps \<Longrightarrow> (i, m) \<in> set (sys_net s) \<Longrightarrow>
    proper_step fs dir ps i s (run_handler i (\<lambda>n. (restart fs (dir i) (first_save fs m n), [])) s)"

lemma proper_raft_step: "proper_step fs dir ps i s s' \<Longrightarrow> raft_step fs dir ps i s s'"
  by (induction rule: proper_step.induct) (auto intro: raft_step.intros)

inductive proper_steps :: "'j json_fs \<Rightarrow> (u64 \<Rightarrow> string) \<Rightarrow> u64 list \<Rightarrow> 'j raft_sys \<Rightarrow> 'j raft_sys \<Rightarrow> bool"
  for fs dir ps where
  proper_refl: "proper_steps fs dir ps s s"
| proper_next: "proper_steps fs dir ps s t \<Longrightarrow> proper_step fs dir ps i t u \<Longrightarrow> proper_steps fs dir ps s u"

definition proper_reachable :: "'j json_fs \<Rightarrow> (u64 \<Rightarrow> string) \<Rightarrow> u64 list \<Rightarrow> 'j raft_sys \<Rightarrow> bool" where
  "proper_reachable fs dir ps s \<longleftrightarrow> proper_steps fs dir ps (raft_init fs dir ps) s"

subsection \<open>What a step does to votes, tracking and commit index\<close>

definition took_append :: "(u64 \<times> NetworkMessage) set \<Rightarrow> 'j RaftNode \<Rightarrow> 'j RaftNode \<Rightarrow> AppendEntriesRequest \<Rightarrow> bool" where
  "took_append net n n' r \<longleftrightarrow> (\<exists>c. (node_id n, NmAppendEntries c r) \<in> net) \<and> ae_term r = current_term n' \<and>
     accepts (node_log n) r \<and> proper_append (node_log n) r \<and> node_log n' = merged (node_log n) r"

definition reply_step :: "(u64 \<times> NetworkMessage) set \<Rightarrow> 'j RaftNode \<Rightarrow> 'j RaftNode \<Rightarrow> Action list \<Rightarrow> bool" where
  "reply_step net n n' acts \<longleftrightarrow> (\<forall>c r. SendAppendEntriesResponse c r \<in> set acts \<longrightarrow> aer_success r \<longrightarrow>
     aer_term r = current_term n' \<and> aer_match_index r = Some (last_index (node_log n')) \<and> (\<exists>q. took_append net n n' q))"

definition ballot_step :: "(u64 \<times> NetworkMessage) set \<Rightarrow> 'j RaftNode \<Rightarrow> 'j RaftNode \<Rightarrow> Action list \<Rightarrow> bool" where
  "ballot_step net n n' acts \<longleftrightarrow>
     (\<forall>v. voted_for n' = Some v \<longrightarrow>
        current_term n' = current_term n \<and> voted_for n = Some v \<or> v = node_id n \<or>
        (\<exists>d q. (node_id n, NmRequestVote d q) \<in> net \<and> rv_term q = current_term n' \<and> rv_candidate_id q = v \<and>
           candidate_up_to_date q (node_log n) \<and> node_log n' = node_log n)) \<and>
     (\<forall>c q. SendRequestVote c q \<in> set acts \<longrightarrow> role n' = Candidate \<and> q = vote_request (rn_state n'))"

definition match_step :: "(u64 \<times> NetworkMessage) set \<Rightarrow> 'j RaftNode \<Rightarrow> 'j RaftNode \<Rightarrow> bool" where
  "match_step net n n' \<longleftrightarrow> role n' = Leader \<longrightarrow>
     rs_match_index (rn_state n') = map (\<lambda>p. (p, 0)) (filter (\<lambda>p. p \<noteq> node_id n) (peers n)) \<or>
     role n = Leader \<and> current_term n' = current_term n \<and>
     (rs_match_index (rn_state n') = rs_match_index (rn_state n) \<or>
      (\<exists>j r m. (node_id n, NmAppendEntriesResponse j r) \<in> net \<and> aer_success r \<and> aer_term r = current_term n \<and>
         aer_match_index r = Some m \<and>
         rs_match_index (rn_state n') = update_first j (\<lambda>_. m) (rs_match_index (rn_state n))))"

definition index_step :: "(u64 \<times> NetworkMessage) set \<Rightarrow> 'j RaftNode \<Rightarrow> 'j RaftNode \<Rightarrow> Action list \<Rightarrow> bool" where
  "index_step net n n' acts \<longleftrightarrow>
     (commit_index n' = commit_index n \<or> commit_index n' = 0 \<or>
      role n' = Leader \<and> 0 < commit_index n' \<and> commit_index n' \<le> last_index (node_log n') \<and>
        committable (rn_state n') (commit_index n') \<or>
      (\<exists>r. took_append net n n' r \<and> commit_index n' \<le> ae_leader_commit r \<and> commit_index n' \<le> last_index (node_log n'))) \<and>
     (\<forall>c r. SendAppendEntries c r \<in> set acts \<longrightarrow> ae_leader_commit r \<le> commit_index n')"

definition commit_step :: "(u64 \<times> NetworkMessage) set \<Rightarrow> 'j RaftNode \<Rightarrow> 'j RaftNode \<Rightarrow> Action list \<Rightarrow> bool" where
  "commit_step net n n' acts \<longleftrightarrow>
     reply_step net n n' acts \<and> ballot_step net n n' acts \<and> match_step net n n' \<and> index_step net n n' acts"

lemmas commit_step_defs = commit_step_def reply_step_def ballot_step_def match_step_def index_step_def

lemma start_election_commit:
  "commit_step net n (fst (start_election fs n)) (snd (start_election fs n))"
  by (cases "majority_count (rn_state n) \<le> 1")
    (auto simp: commit_step_defs start_election_def become_leader_def send_heartbeats_def Let_def dest!: replicate_to_all_peersD)

lemma tick_commit: "commit_step net n (fst (tick fs n)) (snd (tick fs n))"
proof (cases rule: tick_cases [where n = n and fs = fs])
  case election
  have "commit_step net (tick_timer n) n' acts \<longleftrightarrow> commit_step net n n' acts" for n' acts
    by (simp add: commit_step_defs took_append_def)
  then show ?thesis using start_election_commit [of net "tick_timer n" fs] election by simp
qed (auto simp: commit_step_defs tick_heartbeat_def send_heartbeats_def Let_def dest!: replicate_to_all_peersD)

lemma request_vote_commit:
  assumes "(node_id n, NmRequestVote d req) \<in> net"
  shows "commit_step net n (fst (handle_request_vote fs req n)) (snd (handle_request_vote fs req n))"
proof -
  have "ballot_step net n (fst (handle_request_vote fs req n)) (snd (handle_request_vote fs req n))"
    using assms unfolding ballot_step_def handle_request_vote_def Let_def
    by (auto split: if_splits option.splits)
  then show ?thesis
    by (auto simp: commit_step_def reply_step_def match_step_def index_step_def handle_request_vote_def Let_def split: if_splits)
qed

lemma request_vote_response_commit:
  "commit_step net n (fst (handle_request_vote_response fs j resp n)) (snd (handle_request_vote_response fs j resp n))"
  by (auto simp: commit_step_defs handle_request_vote_response_def become_leader_def send_heartbeats_def Let_def
      dest!: replicate_to_all_peersD split: if_splits)

lemma append_entries_commit:
  assumes "(node_id n, NmAppendEntries d req) \<in> net" and "proper_delivery (NmAppendEntries d req) n"
  shows "commit_step net n (fst (handle_append_entries fs req n)) (snd (handle_append_entries fs req n))"
proof (cases "\<not> ae_term req < current_term n \<and> accepts (node_log n) req")
  case True
  let ?h = "handle_append_entries fs req n"
  let ?a = "append_new_entries fs req (accept_leader fs req n)"
  have h: "?h = (fst (follow_commit req ?a), snd (follow_commit req ?a) @ [SendAppendEntriesResponse (ae_leader_id req)
      \<lparr>aer_term = ae_term req, aer_success = True, aer_match_index = Some (last_index (merged (node_log n) req))\<rparr>])"
    using True by (simp add: handle_append_entries_eq accepts_def)
  have took: "took_append net n (fst ?h) req"
    using True assms by (auto simp: h took_append_def proper_delivery_def)
  have "commit_index (fst ?h) = commit_index n \<or>
      commit_index (fst ?h) \<le> ae_leader_commit req \<and> commit_index (fst ?h) \<le> last_index (node_log (fst ?h))"
    by (simp add: h follow_commit_def apply_committed_entries_eq Let_def)
  then show ?thesis
    using True took by (auto simp: commit_step_defs h dest: follow_commit_actions)
next
  case False
  then show ?thesis by (auto simp: commit_step_defs handle_append_entries_eq accepts_def)
qed

lemma maybe_advance_commit:
  "commit_index (fst (maybe_advance_commit_index n)) = commit_index n \<or>
   commit_index n < commit_index (fst (maybe_advance_commit_index n)) \<and>
   commit_index (fst (maybe_advance_commit_index n)) \<le> last_index (node_log n) \<and>
   committable (rn_state n) (commit_index (fst (maybe_advance_commit_index n)))"
proof -
  define xs where "xs = filter (committable (rn_state n)) [commit_index n + 1 ..< last_index (node_log n) + 1]"
  have adv: "advance_loop [commit_index n + 1 ..< last_index (node_log n) + 1] (rn_state n) =
      (rn_state n)\<lparr>rs_commit_index := last (commit_index n # xs)\<rparr>" unfolding xs_def by (rule advance_loop_eq)
  have x: "commit_index n < x \<and> x \<le> last_index (node_log n) \<and> committable (rn_state n) x" if "x \<in> set xs" for x
    using that by (auto simp: xs_def)
  show ?thesis
  proof (cases "xs = []")
    case True
    then show ?thesis using adv by (simp add: maybe_advance_commit_index_def Let_def)
  next
    case False
    then have "last xs \<in> set xs" by (rule last_in_set)
    note x = x [OF this]
    have "advance_loop [commit_index n + 1 ..< last_index (node_log n) + 1] (rn_state n) =
        (rn_state n)\<lparr>rs_commit_index := last xs\<rparr>"
      using adv False by simp
    from maybe_advance_eq [OF this] x show ?thesis by simp
  qed
qed

lemma committable_frame:
  assumes "rs_log s' = rs_log s" "rs_current_term s' = rs_current_term s" "rs_peers s' = rs_peers s"
    "rs_match_index s' = rs_match_index s"
  shows "committable s' i = committable s i"
  using assms by (simp add: committable_def majority_count_def replication_count_def)

lemma maybe_advance_committable [simp]:
  "committable (rn_state (fst (maybe_advance_commit_index n))) i = committable (rn_state n) i"
  by (rule committable_frame) simp_all

lemma note_response_match:
  "rs_match_index (note_response j r s) =
     (case aer_match_index r of
        Some m \<Rightarrow> if aer_success r then update_first j (\<lambda>_. m) (rs_match_index s) else rs_match_index s
      | None \<Rightarrow> rs_match_index s)"
  by (simp add: note_response_def split: option.splits)

lemma append_entries_response_commit:
  assumes "(node_id n, NmAppendEntriesResponse j resp) \<in> net" and "proper_delivery (NmAppendEntriesResponse j resp) n"
  shows "commit_step net n (fst (handle_append_entries_response fs j resp n)) (snd (handle_append_entries_response fs j resp n))"
proof (cases "role n = Leader \<and> \<not> aer_term resp > current_term n \<and> aer_success resp")
  case True
  let ?m = "n\<lparr>rn_state := note_response j resp (rn_state n)\<rparr>"
  have h: "handle_append_entries_response fs j resp n = maybe_advance_commit_index ?m"
    using True by (simp add: handle_append_entries_response_eq)
  have t: "aer_term resp = current_term n" using True assms(2) by (auto simp: proper_delivery_def)
  have "match_step net n (fst (maybe_advance_commit_index ?m))"
    using True assms(1) t by (auto simp: match_step_def note_response_match split: option.splits)
  moreover have "index_step net n (fst (maybe_advance_commit_index ?m)) (snd (maybe_advance_commit_index ?m))"
    using True maybe_advance_commit [of ?m] by (auto simp: index_step_def dest: maybe_advance_actions)
  ultimately show ?thesis
    unfolding h by (auto simp: commit_step_def reply_step_def ballot_step_def dest: maybe_advance_actions)
next
  case False
  then show ?thesis
    by (auto simp: commit_step_defs handle_append_entries_response_eq note_response_match split: option.splits)
qed

lemma propose_commit: "commit_step net n (fst (propose_actions fs cmd n)) (snd (propose_actions fs cmd n))"
proof (cases "role n = Leader")
  case True
  let ?p = "proposed fs cmd n"
  have "index_step net n (fst (propose_actions fs cmd n)) (snd (propose_actions fs cmd n))"
    using True maybe_advance_commit [of ?p]
    by (auto simp: index_step_def propose_actions_def propose_eq dest: maybe_advance_actions dest!: replicate_to_all_peersD)
  then show ?thesis
    using True by (auto simp: commit_step_def reply_step_def ballot_step_def match_step_def propose_actions_def propose_eq
        dest: maybe_advance_actions replicate_to_all_peersD)
next
  case False
  then show ?thesis by (auto simp: commit_step_defs propose_actions_def propose_eq)
qed

lemma restart_commit:
  assumes "recoverable fs n"
  shows "commit_step net n (restart fs dir n) []"
proof -
  obtain p where p: "rn_persister n = Some p" using assms by (auto simp: recoverable_def)
  show ?thesis
    using restart_simps(4,6) [OF p] restart_recoverable [OF assms] by (auto simp: commit_step_defs)
qed

lemma step_commit:
  assumes "proper_step fs dir ps i s s'" and good: "good_fs fs" and n: "node_ok fs ps i (sys_node s i)"
  obtains acts where "sys_net s' = sys_net s @ List.map_filter (action_message i) acts"
    "commit_step (set (sys_net s)) (sys_node s i) (sys_node s' i) acts"
  using assms(1)
proof cases
  case proper_tick
  then show ?thesis using that [of "snd (tick fs (sys_node s i))"] by (simp add: run_handler_node run_handler_net tick_commit)
next
  case (proper_deliver m)
  then have m: "(node_id (sys_node s i), m) \<in> set (sys_net s)" "proper_delivery m (sys_node s i)"
    using n by (simp_all add: node_ok_def)
  then have "commit_step (set (sys_net s)) (sys_node s i) (fst (raft_dispatch fs m (sys_node s i)))
      (snd (raft_dispatch fs m (sys_node s i)))"
    by (cases m) (auto simp: raft_dispatch_def request_vote_response_commit
        intro: request_vote_commit append_entries_commit append_entries_response_commit)
  with proper_deliver show ?thesis
    using that [of "snd (raft_dispatch fs m (sys_node s i))"] by (simp add: run_handler_node run_handler_net)
next
  case (proper_propose cmd)
  then show ?thesis using that [of "snd (propose_actions fs cmd (sys_node s i))"]
    by (simp add: run_handler_node run_handler_net propose_commit)
next
  case proper_restart
  then show ?thesis using that [of "[]"] n restart_commit [of fs "sys_node s i" "set (sys_net s)" "dir i"]
    by (simp add: run_handler_node run_handler_net List.map_filter_def node_ok_def)
next
  case (proper_crash m)
  have "commit_step (set (sys_net s)) (sys_node s i) (restart fs (dir i) (first_save fs m (sys_node s i))) []"
    using crash_restart(3-5) [OF good n] by (auto simp: commit_step_defs)
  with proper_crash show ?thesis using that [of "[]"] by (simp add: run_handler_node run_handler_net List.map_filter_def)
qed

end
