(* ===== verification/Acks.thy ===== *)
theory Acks
  imports Proper_Runs
begin

text \<open>
  What an acknowledgement is worth. A node acknowledges a prefix of a leader's log by answering its
  AppendEntries, or by being that leader. From then on the node keeps the prefix, unless a later
  leader whose own log does not have it takes it away (\<open>acks_inv\<close>); and a node that votes later
  votes for a log at least as good as its own (\<open>ballots_inv\<close>).
\<close>

subsection \<open>Histories of proper runs\<close>

inductive proper_hstep :: "'j json_fs \<Rightarrow> (u64 \<Rightarrow> string) \<Rightarrow> u64 list \<Rightarrow> 'j hist \<Rightarrow> 'j hist \<Rightarrow> bool"
  for fs dir ps where
  "proper_step fs dir ps i (h_sys h) s \<Longrightarrow> proper_hstep fs dir ps h (observe i h s)"

inductive_cases proper_hstepE: "proper_hstep fs dir ps h k"

inductive proper_hist :: "'j json_fs \<Rightarrow> (u64 \<Rightarrow> string) \<Rightarrow> u64 list \<Rightarrow> 'j hist \<Rightarrow> bool"
  for fs dir ps where
  proper_hist_start: "proper_hist fs dir ps (hist_init fs dir ps)"
| proper_hist_next: "proper_hist fs dir ps h \<Longrightarrow> proper_hstep fs dir ps h k \<Longrightarrow> proper_hist fs dir ps k"

lemma proper_hstep_hist: "proper_hstep fs dir ps h k \<Longrightarrow> hist_step fs dir ps h k"
  by (auto elim!: proper_hstepE intro: hist_step.intros proper_raft_step)

lemma proper_hist_reachable: "proper_hist fs dir ps h \<Longrightarrow> hist_reachable fs dir ps h"
  by (induction rule: proper_hist.induct) (auto intro: hist_start hist_next proper_hstep_hist)

interpretation proper: transition_system
  "\<lambda>h. h = hist_init fs dir ps" "proper_hstep fs dir ps" "proper_hist fs dir ps" for fs dir ps
proof
  fix s and P :: "'a hist \<Rightarrow> bool"
  assume "proper_hist fs dir ps s"
    and "\<And>s. s = hist_init fs dir ps \<Longrightarrow> P s"
    and "\<And>s t. proper_hist fs dir ps s \<Longrightarrow> P s \<Longrightarrow> proper_hstep fs dir ps s t \<Longrightarrow> P t"
  then show "P s" by (induction rule: proper_hist.induct) blast+
qed

text \<open>A step of such a history, taken apart.\<close>

lemma proper_caseE:
  assumes "proper_hstep fs dir ps h k" and "proper_hist fs dir ps h" and good: "good_fs fs"
  obtains i s acts acts' where
    "k = observe i h s" "raft_step fs dir ps i (h_sys h) s" "i \<in> set ps"
    "\<And>j. j \<noteq> i \<Longrightarrow> sys_node s j = h_node h j"
    "sys_net s = sys_net (h_sys h) @ List.map_filter (action_message i) acts"
    "sys_net s = sys_net (h_sys h) @ List.map_filter (action_message i) acts'"
    "node_id (h_node h i) = i" "peers (h_node h i) = ps" "current_term (h_node h i) \<le> current_term (sys_node s i)"
    "repl_step (set (sys_net (h_sys h))) (h_node h i) (sys_node s i) acts"
    "commit_step (set (sys_net (h_sys h))) (h_node h i) (sys_node s i) acts'"
proof -
  obtain i s where st: "proper_step fs dir ps i (h_sys h) s" and k: "k = observe i h s"
    using assms(1) by (auto elim: proper_hstepE)
  note rs = proper_raft_step [OF st]
  have i: "i \<in> set ps" using st by cases
  note n = reachable_node_ok [OF proper_hist_reachable [OF assms(2)] good i]
  obtain acts' where net': "sys_net s = sys_net (h_sys h) @ List.map_filter (action_message i) acts'"
    and cs: "commit_step (set (sys_net (h_sys h))) (h_node h i) (sys_node s i) acts'"
    using step_commit [OF st good n] .
  obtain acts where net: "sys_net s = sys_net (h_sys h) @ List.map_filter (action_message i) acts"
    and other: "\<And>j. j \<noteq> i \<Longrightarrow> sys_node s j = h_node h j"
    and rp: "repl_step (set (sys_net (h_sys h))) (h_node h i) (sys_node s i) acts"
    using step_repl [OF rs good n] by blast
  have "current_term (h_node h i) \<le> current_term (sys_node s i)"
    using step_voter [OF rs good n] unfolding voter_step_def by blast
  then show ?thesis using that [OF k rs i other net net'] n rp cs by (simp add: node_ok_def)
qed

lemma proper_led_mono: "proper_hstep fs dir ps h k \<Longrightarrow> led h \<subseteq> led k"
  by (auto elim!: proper_hstepE simp: led_observe)

lemma llog_growth:
  assumes st: "proper_hstep fs dir ps h k" and r: "proper_hist fs dir ps h" and good: "good_fs fs" and u: "u \<in> led h"
  shows "\<exists>xs. h_llog k u = h_llog h u @ xs \<and> (\<forall>x \<in> set xs. le_term x = u)"
  using st r good
proof (rule proper_caseE)
  fix i s acts
  assume k: "k = observe i h s" and i: "i \<in> set ps"
    and rp: "repl_step (set (sys_net (h_sys h))) (h_node h i) (sys_node s i) acts"
  show ?thesis
  proof (cases "role (sys_node s i) = Leader \<and> u = current_term (sys_node s i)")
    case True
    then have "role (h_node h i) = Leader" "u = current_term (h_node h i)"
      using new_leader_fresh [OF proper_hist_reachable [OF r] proper_hstep_hist [OF st, unfolded k] good rp] u by auto
    then have "h_llog h u = node_log (h_node h i)"
      using logs.holds [OF proper_hist_reachable [OF r]] good i by (simp add: logs_inv_def)
    moreover obtain xs where "node_log (sys_node s i) = node_log (h_node h i) @ xs" "\<forall>x \<in> set xs. le_term x = u"
      using rp True by (auto simp: repl_step_def elim: leader_log_extends)
    ultimately show ?thesis using True by (simp add: k)
  qed (auto simp: k fun_upd_def)
qed

subsection \<open>Acknowledgements\<close>

definition acked :: "'j hist \<Rightarrow> u64 \<Rightarrow> u64 \<Rightarrow> usize \<Rightarrow> bool" where
  "acked h q t k \<longleftrightarrow>
     (\<exists>c r m. (c, NmAppendEntriesResponse q r) \<in> set (sys_net (h_sys h)) \<and> aer_success r \<and> aer_term r = t \<and>
        aer_match_index r = Some m \<and> k \<le> m) \<or>
     (t, q) \<in> h_leaders h \<and> k < length (h_llog h t)"

definition lost :: "'j hist \<Rightarrow> u64 \<Rightarrow> usize \<Rightarrow> u64 \<Rightarrow> bool" where
  "lost h t k u \<longleftrightarrow> t < u \<and> u \<in> led h \<and> \<not> agrees (h_llog h u) (h_llog h t) k"

lemma proper_net_mono:
  assumes "proper_hstep fs dir ps h k" and "proper_hist fs dir ps h" and "good_fs fs"
  shows "set (sys_net (h_sys h)) \<subseteq> set (sys_net (h_sys k))"
  using assms by (rule proper_caseE) simp

lemma acked_mono:
  assumes "proper_hstep fs dir ps h k" and "proper_hist fs dir ps h" and "good_fs fs" and "acked h q t j"
  shows "acked k q t j"
proof -
  have "set (sys_net (h_sys h)) \<subseteq> set (sys_net (h_sys k))" and "h_leaders h \<subseteq> h_leaders k"
    using proper_net_mono [OF assms(1-3)] history_grows [OF hsteps_step [OF hsteps_refl proper_hstep_hist [OF assms(1)]]]
    by blast+
  moreover have "j < length (h_llog k t)" if "(t, q) \<in> h_leaders h" "j < length (h_llog h t)"
    using llog_growth [OF assms(1-3), of t] that by force
  ultimately show ?thesis using assms(4) unfolding acked_def by blast
qed

lemma lost_mono:
  assumes st: "proper_hstep fs dir ps h k" "proper_hist fs dir ps h" "good_fs fs"
    and "lost h t j u" and t: "t \<in> led h" "j < length (h_llog h t)"
  shows "lost k t j u"
proof -
  have u: "t < u" "u \<in> led h" "\<not> agrees (h_llog h u) (h_llog h t) j" using assms(4) by (auto simp: lost_def)
  obtain xs where xs: "h_llog k u = h_llog h u @ xs" "\<forall>x \<in> set xs. le_term x = u" using llog_growth [OF st u(2)] by blast
  obtain ys where ys: "h_llog k t = h_llog h t @ ys" using llog_growth [OF st t(1)] by blast
  have "\<And>e. e \<in> set (h_llog h t) \<Longrightarrow> le_term e \<le> t"
    using bounds.holds [OF proper_hist_reachable [OF st(2)]] st(3) t(1) unfolding bounds_inv_def by blast
  then have "\<not> agrees (h_llog k u) (h_llog k t) j"
    unfolding xs(1) ys using u xs(2) t(2) by (intro disagreement_stable [where t = t]) auto
  then show ?thesis using u proper_led_mono [OF st(1)] by (auto simp: lost_def)
qed

text \<open>Only the node that moves acknowledges anything new, and only in its own term.\<close>

lemma new_ack:
  assumes "proper_hstep fs dir ps h (observe i h s)" and "proper_hist fs dir ps h" and "good_fs fs"
    and net: "sys_net s = sys_net (h_sys h) @ List.map_filter (action_message i) acts"
    and cs: "commit_step (set (sys_net (h_sys h))) (h_node h i) (sys_node s i) acts"
    and ack: "acked (observe i h s) q t j" and "\<not> acked h q t j"
  shows "q = i" "t = current_term (sys_node s i)"
    "role (sys_node s i) = Leader \<and> h_llog (observe i h s) t = node_log (sys_node s i) \<and> j < length (node_log (sys_node s i)) \<or>
     (\<exists>r. took_append (set (sys_net (h_sys h))) (h_node h i) (sys_node s i) r \<and> j \<le> last_index (node_log (sys_node s i)))"
proof -
  let ?k = "observe i h s"
  let ?A = "q = i \<and> t = current_term (sys_node s i) \<and>
    (role (sys_node s i) = Leader \<and> h_llog ?k t = node_log (sys_node s i) \<and> j < length (node_log (sys_node s i)) \<or>
     (\<exists>r. took_append (set (sys_net (h_sys h))) (h_node h i) (sys_node s i) r \<and> j \<le> last_index (node_log (sys_node s i))))"
  from ack consider
      (reply) c r m where "(c, NmAppendEntriesResponse q r) \<in> set (sys_net s)" "aer_success r" "aer_term r = t"
        "aer_match_index r = Some m" "j \<le> m"
    | (lead) "(t, q) \<in> h_leaders ?k" "j < length (h_llog ?k t)"
    unfolding acked_def observe_simps(1) by blast
  then have ?A
  proof cases
    case reply
    have "(c, NmAppendEntriesResponse q r) \<notin> set (sys_net (h_sys h))"
      using assms(7) reply(2-5) unfolding acked_def by blast
    then have new: "SendAppendEntriesResponse c r \<in> set acts" "q = i"
      using reply(1) unfolding net set_net_append action_message_iff by auto
    then show ?thesis
      using cs reply(2-5) unfolding commit_step_def reply_step_def by fastforce
  next
    case lead
    show ?thesis
    proof (cases "role (sys_node s i) = Leader \<and> t = current_term (sys_node s i)")
      case True
      have rk: "hist_reachable fs dir ps ?k"
        using proper_hist_reachable proper_hist_next [OF assms(2,1)] by blast
      have "(t, i) \<in> h_leaders ?k" using True by simp
      then have "q = i" using one_leader_per_term [OF rk assms(3) lead(1)] by simp
      then show ?thesis using True lead(2) by simp
    next
      case False
      then have "(t, q) \<in> h_leaders h" "h_llog ?k t = h_llog h t" using lead(1) by auto
      then show ?thesis using assms(7) lead(2) unfolding acked_def by simp
    qed
  qed
  then show "q = i" "t = current_term (sys_node s i)"
    "role (sys_node s i) = Leader \<and> h_llog ?k t = node_log (sys_node s i) \<and> j < length (node_log (sys_node s i)) \<or>
     (\<exists>r. took_append (set (sys_net (h_sys h))) (h_node h i) (sys_node s i) r \<and> j \<le> last_index (node_log (sys_node s i)))"
    by blast+
qed

subsection \<open>What has been acknowledged is kept\<close>

definition kept :: "'j hist \<Rightarrow> u64 \<Rightarrow> u64 \<Rightarrow> usize \<Rightarrow> bool" where
  "kept h q t k \<longleftrightarrow> agrees (node_log (h_node h q)) (h_llog h t) k \<or> (\<exists>u \<le> current_term (h_node h q). lost h t k u)"

definition acks_inv :: "'j json_fs \<Rightarrow> u64 list \<Rightarrow> 'j hist \<Rightarrow> bool" where
  "acks_inv fs ps h \<longleftrightarrow> (good_fs fs \<longrightarrow> (\<forall>q t k. acked h q t k \<longrightarrow>
     q \<in> set ps \<and> t \<in> led h \<and> k < length (h_llog h t) \<and> t \<le> current_term (h_node h q) \<and> kept h q t k))"

lemma consistent_llog:
  "hist_reachable fs dir ps h \<Longrightarrow> good_fs fs \<Longrightarrow> t \<in> led h \<Longrightarrow> consistent (led h) (h_llog h) (h_llog h t)"
  using logs.holds unfolding logs_inv_def by blast

lemma led_not_0: "hist_reachable fs dir ps h \<Longrightarrow> good_fs fs \<Longrightarrow> t \<in> led h \<Longrightarrow> t \<noteq> 0"
  using leaders.holds unfolding leaders_inv_def by fastforce

lemma message_of_leader:
  assumes "hist_reachable fs dir ps h" and "good_fs fs" and "(c, NmAppendEntries j r) \<in> set (sys_net (h_sys h))"
  shows "ae_term r \<in> led h" "segment_of (h_llog h (ae_term r)) r" "prev_of (h_llog h (ae_term r)) r"
  using logs.holds [OF assms(1)] bounds.holds [OF assms(1)] assms(2,3) unfolding logs_inv_def bounds_inv_def by blast+

text \<open>A merge with a later leader's log keeps a prefix, or that leader does not have it.\<close>

lemma merge_keeps_or_loses:
  assumes r: "hist_reachable fs dir ps h" and good: "good_fs fs" and i: "i \<in> set ps"
    and m: "(c, NmAppendEntries d q) \<in> set (sys_net (h_sys h))" and acc: "accepts (node_log (h_node h i)) q"
    and a: "agrees (node_log (h_node h i)) (h_llog h t) k" and t: "t \<le> ae_term q"
  shows "agrees (merged (node_log (h_node h i)) q) (h_llog h t) k \<or> lost h t k (ae_term q)"
proof -
  let ?l = "node_log (h_node h i)" and ?g = "h_llog h (ae_term q)"
  note q = message_of_leader [OF r good m]
  note keep = merge_keeps_agreement [OF reachable_consistent [OF r good i] consistent_llog [OF r good q(1)] q(2) acc]
  show ?thesis
  proof (cases "ae_term q = t \<or> agrees ?g (h_llog h t) k")
    case True
    then have "agrees ?l ?g k" using a agrees_trans agrees_sym by (metis (no_types))
    then have "agrees (merged ?l q) ?g k" by (rule keep)
    then show ?thesis using True agrees_trans by (metis (no_types))
  next
    case False
    then show ?thesis using t q(1) by (auto simp: lost_def order.strict_iff_order)
  qed
qed

lemma took_append_prefix:
  assumes r: "hist_reachable fs dir ps h" and good: "good_fs fs" and i: "i \<in> set ps" and id: "node_id (h_node h i) = i"
    and t: "took_append (set (sys_net (h_sys h))) (h_node h i) n' q"
  shows "ae_term q \<in> led h" "node_log n' = take (length (node_log n')) (h_llog h (ae_term q))"
    "k \<le> last_index (node_log n') \<Longrightarrow> agrees (node_log n') (h_llog h (ae_term q)) k"
proof -
  obtain c where m: "(i, NmAppendEntries c q) \<in> set (sys_net (h_sys h))" using t id by (auto simp: took_append_def)
  note q = message_of_leader [OF r good m]
  show "ae_term q \<in> led h" by (rule q(1))
  show p: "node_log n' = take (length (node_log n')) (h_llog h (ae_term q))"
    using proper_merge_prefix [OF reachable_consistent [OF r good i] consistent_llog [OF r good q(1)] q(2,3)]
      t led_not_0 [OF r good q(1)] by (simp add: took_append_def)
  have "log_ok (node_log n')"
    using t consistent_log_ok [OF reachable_consistent [OF r good i]] by (simp add: took_append_def log_ok_merged)
  then show "k \<le> last_index (node_log n') \<Longrightarrow> agrees (node_log n') (h_llog h (ae_term q)) k"
    using agrees_prefix [OF p] log_ok_length by (simp add: le_simps(2))
qed

lemma kept_step:
  assumes st: "proper_hstep fs dir ps h (observe i h s)" "proper_hist fs dir ps h" "good_fs fs"
    and i: "i \<in> set ps" "node_id (h_node h i) = i"
    and other: "\<And>j. j \<noteq> i \<Longrightarrow> sys_node s j = h_node h j"
    and mono: "current_term (h_node h i) \<le> current_term (sys_node s i)"
    and rp: "repl_step (set (sys_net (h_sys h))) (h_node h i) (sys_node s i) acts"
    and t: "t \<in> led h" "j < length (h_llog h t)" "t \<le> current_term (h_node h q)" and kq: "kept h q t j"
  shows "kept (observe i h s) q t j"
proof -
  let ?k = "observe i h s"
  obtain ys where ys: "h_llog ?k t = h_llog h t @ ys" using llog_growth [OF st t(1)] by blast
  have mono': "current_term (h_node h q) \<le> current_term (sys_node s q)" using mono other [of q] by (cases "q = i") auto
  note lm = lost_mono [OF st _ t(1,2)]
  show ?thesis
  proof (cases "\<exists>u \<le> current_term (h_node h q). lost h t j u")
    case True
    then show ?thesis using lm mono' order_trans unfolding kept_def observe_simps by blast
  next
    case False
    then have a: "agrees (node_log (h_node h q)) (h_llog h t) j" using kq by (auto simp: kept_def)
    have "agrees (node_log (sys_node s q)) (h_llog h t) j \<or> (\<exists>u \<le> current_term (sys_node s q). lost h t j u)"
    proof (cases "q = i")
      case True
      from rp consider (same) "node_log (sys_node s i) = node_log (h_node h i)"
        | (grow) xs where "node_log (sys_node s i) = node_log (h_node h i) @ xs"
        | (merge) c r where "(i, NmAppendEntries c r) \<in> set (sys_net (h_sys h))" "accepts (node_log (h_node h i)) r"
            "ae_term r = current_term (sys_node s i)" "node_log (sys_node s i) = merged (node_log (h_node h i)) r"
        using i(2) by (auto simp: repl_step_def log_step_def accepts_def)
      then show ?thesis
      proof cases
        case merge
        have "t \<le> ae_term r" using t(3) mono' merge(3) True by simp
        then show ?thesis
          using merge_keeps_or_loses [OF proper_hist_reachable [OF st(2)] st(3) i(1) merge(1,2) _ , of t j] a merge(3,4) True
          by auto
      qed (use a True agrees_append1 in auto)
    qed (use a other in simp)
    then show ?thesis
    proof
      assume "agrees (node_log (sys_node s q)) (h_llog h t) j"
      then show ?thesis using agrees_append2 ys by (simp add: kept_def del: observe_simps(4))
    next
      assume "\<exists>u \<le> current_term (sys_node s q). lost h t j u"
      then show ?thesis using lm unfolding kept_def observe_simps(1) by blast
    qed
  qed
qed

interpretation acks: inductive_invariant
  "\<lambda>h. h = hist_init fs dir ps" "proper_hstep fs dir ps" "proper_hist fs dir ps" "acks_inv fs ps"
  for fs dir ps
proof
  fix h :: "'a hist"
  show "h = hist_init fs dir ps \<Longrightarrow> acks_inv fs ps h"
    by (simp add: acks_inv_def acked_def hist_init_def raft_init_def)
next
  fix h k :: "'a hist"
  assume r: "proper_hist fs dir ps h" and inv: "acks_inv fs ps h" and st: "proper_hstep fs dir ps h k"
  show "acks_inv fs ps k"
    unfolding acks_inv_def
  proof (intro impI allI)
    fix q t j
    assume good: "good_fs fs" and ack: "acked k q t j"
    note I = inv [unfolded acks_inv_def, rule_format, OF good]
    from st r good show "q \<in> set ps \<and> t \<in> led k \<and> j < length (h_llog k t) \<and> t \<le> current_term (h_node k q) \<and> kept k q t j"
    proof (rule proper_caseE)
      fix i s acts acts'
      assume k: "k = observe i h s" and i: "i \<in> set ps" "node_id (h_node h i) = i"
        and other: "\<And>j. j \<noteq> i \<Longrightarrow> sys_node s j = h_node h j"
        and net: "sys_net s = sys_net (h_sys h) @ List.map_filter (action_message i) acts'"
        and mono: "current_term (h_node h i) \<le> current_term (sys_node s i)"
        and rp: "repl_step (set (sys_net (h_sys h))) (h_node h i) (sys_node s i) acts"
        and cs: "commit_step (set (sys_net (h_sys h))) (h_node h i) (sys_node s i) acts'"
      note st' = st [unfolded k]
      show ?thesis
      proof (cases "acked h q t j")
        case True
        note old = I [OF True]
        have "t \<le> current_term (sys_node s q)" using old mono other [of q] by (cases "q = i") auto
        moreover have "j < length (h_llog k t)" using old llog_growth [OF st r good, of t] by auto
        moreover have "kept k q t j" unfolding k using old by (intro kept_step [OF st' r good i other mono rp]) auto
        ultimately show ?thesis using old proper_led_mono [OF st] by (auto simp: k)
      next
        case False
        note new = new_ack [OF st' r good net cs ack [unfolded k] False]
        from new(3) show ?thesis
        proof (elim disjE conjE exE)
          assume "role (sys_node s i) = Leader" "h_llog (observe i h s) t = node_log (sys_node s i)" "j < length (node_log (sys_node s i))"
          then show ?thesis using new(1,2) i by (simp add: k kept_def led_observe)
        next
          fix a
          assume a: "took_append (set (sys_net (h_sys h))) (h_node h i) (sys_node s i) a" "j \<le> last_index (node_log (sys_node s i))"
          then have t: "t = ae_term a" using new(2) by (simp add: took_append_def)
          note p = took_append_prefix [OF proper_hist_reachable [OF r] good i a(1)]
          obtain ys where ys: "h_llog k t = h_llog h t @ ys" using llog_growth [OF st r good] p(1) t by blast
          have "agrees (node_log (sys_node s i)) (h_llog k t) j" unfolding ys using p(3) [OF a(2)] t by (simp add: agrees_append2)
          then show ?thesis
            using new(1,2) i p(1) t proper_led_mono [OF st] by (auto simp: k kept_def agrees_def simp del: observe_simps(4))
        qed
      qed
    qed
  qed
qed

end
