(* ===== verification/Leader_Completeness.thy ===== *)
theory Leader_Completeness
  imports Acks
begin

text \<open>
  Leader completeness: what a majority has acknowledged in a term, up to an entry of that term, is
  in the log of every later leader. A voter asks for a log at least as good as its own
  (\<open>ballots_inv\<close>), so a leader's log is at least as good as those of a majority of voters
  (\<open>elects_inv\<close>), one of whom has made the acknowledgement; the rest is an induction on terms.
\<close>

subsection \<open>Ballots\<close>

definition requests_inv :: "'j json_fs \<Rightarrow> u64 list \<Rightarrow> 'j hist \<Rightarrow> bool" where
  "requests_inv fs ps h \<longleftrightarrow> (good_fs fs \<longrightarrow> (\<forall>c j q. (c, NmRequestVote j q) \<in> set (sys_net (h_sys h)) \<longrightarrow>
     j \<in> set ps \<and> rv_candidate_id q = j \<and> rv_term q \<le> current_term (h_node h j) \<and>
     (rv_term q = current_term (h_node h j) \<longrightarrow> role (h_node h j) = Candidate \<longrightarrow> q = vote_request (rn_state (h_node h j)))))"

lemma candidate_unchanged:
  assumes "repl_step net n n' acts" and "role n' = Candidate" and "current_term n' = current_term n" and "node_id n' = node_id n"
  shows "role n = Candidate" "vote_request (rn_state n') = vote_request (rn_state n)"
proof -
  show "role n = Candidate" using assms(1-3) by (simp add: repl_step_def)
  have "node_log n' = node_log n" using assms(1,2) by (auto simp: repl_step_def log_step_def)
  then show "vote_request (rn_state n') = vote_request (rn_state n)" using assms(3,4) by (simp add: vote_request_def)
qed

interpretation requests: inductive_invariant
  "\<lambda>h. h = hist_init fs dir ps" "proper_hstep fs dir ps" "proper_hist fs dir ps" "requests_inv fs ps"
  for fs dir ps
proof
  fix h :: "'a hist"
  show "h = hist_init fs dir ps \<Longrightarrow> requests_inv fs ps h"
    by (simp add: requests_inv_def hist_init_def raft_init_def)
next
  fix h k :: "'a hist"
  assume r: "proper_hist fs dir ps h" and inv: "requests_inv fs ps h" and st: "proper_hstep fs dir ps h k"
  show "requests_inv fs ps k"
    unfolding requests_inv_def
  proof (intro impI allI)
    fix c j q
    assume good: "good_fs fs" and m: "(c, NmRequestVote j q) \<in> set (sys_net (h_sys k))"
    note I = inv [unfolded requests_inv_def, rule_format, OF good]
    have rk: "hist_reachable fs dir ps k" using proper_hist_next [OF r st] by (rule proper_hist_reachable)
    from st r good show "j \<in> set ps \<and> rv_candidate_id q = j \<and> rv_term q \<le> current_term (h_node k j) \<and>
      (rv_term q = current_term (h_node k j) \<longrightarrow> role (h_node k j) = Candidate \<longrightarrow> q = vote_request (rn_state (h_node k j)))"
    proof (rule proper_caseE)
      fix i s acts acts'
      assume k: "k = observe i h s" and i: "i \<in> set ps" "node_id (h_node h i) = i"
        and other: "\<And>j. j \<noteq> i \<Longrightarrow> sys_node s j = h_node h j"
        and net: "sys_net s = sys_net (h_sys h) @ List.map_filter (action_message i) acts'"
        and mono: "current_term (h_node h i) \<le> current_term (sys_node s i)"
        and rp: "repl_step (set (sys_net (h_sys h))) (h_node h i) (sys_node s i) acts"
        and cs: "commit_step (set (sys_net (h_sys h))) (h_node h i) (sys_node s i) acts'"
      have id: "node_id (sys_node s i) = i" using reachable_node_ok [OF rk good i(1)] by (simp add: node_ok_def k)
      consider (old) "(c, NmRequestVote j q) \<in> set (sys_net (h_sys h))" | (new) "SendRequestVote c q \<in> set acts'" "j = i"
        using m unfolding k observe_simps(1) net set_net_append action_message_iff by blast
      then show ?thesis
      proof cases
        case old
        note I = I [OF old]
        show ?thesis
        proof (cases "j = i")
          case True
          have "q = vote_request (rn_state (sys_node s i))"
            if "rv_term q = current_term (sys_node s i)" "role (sys_node s i) = Candidate"
          proof -
            have t: "current_term (sys_node s i) = current_term (h_node h i)" using I that mono True by auto
            note same = candidate_unchanged [OF rp that(2) t] 
            show ?thesis using same I that t True id i(2) by simp
          qed
          then show ?thesis using I mono True by (auto simp: k)
        qed (use I other in \<open>simp add: k\<close>)
      next
        case new
        then have "q = vote_request (rn_state (sys_node s i))" using cs by (auto simp: commit_step_def ballot_step_def)
        then show ?thesis using new(2) i id by (simp add: k vote_request_def)
      qed
    qed
  qed
qed

text \<open>A log that a voter had when it voted, and that holds what the voter had acknowledged.\<close>

definition holds :: "'j hist \<Rightarrow> RaftLog \<Rightarrow> u64 \<Rightarrow> usize \<Rightarrow> bool" where
  "holds h l t k \<longleftrightarrow> consistent (led h) (h_llog h) l \<and> agrees l (h_llog h t) k"

definition ballots_inv :: "'j json_fs \<Rightarrow> u64 list \<Rightarrow> 'j hist \<Rightarrow> bool" where
  "ballots_inv fs ps h \<longleftrightarrow> (good_fs fs \<longrightarrow> (\<forall>q t' c. (q, t', c) \<in> h_votes h \<longrightarrow> q \<noteq> c \<longrightarrow>
     (\<exists>d rv. (q, NmRequestVote d rv) \<in> set (sys_net (h_sys h)) \<and> rv_term rv = t' \<and> rv_candidate_id rv = c \<and>
        (\<forall>t k. acked h q t k \<longrightarrow> t < t' \<longrightarrow>
           (\<exists>l. holds h l t k \<and> candidate_up_to_date rv l) \<or> (\<exists>u \<le> t'. lost h t k u)))))"

lemma holds_mono:
  assumes "proper_hstep fs dir ps h k" "proper_hist fs dir ps h" "good_fs fs" and "holds h l t j" and "t \<in> led h"
  shows "holds k l t j"
proof -
  have "consistent (led h) (h_llog h) l" using assms(4) by (simp add: holds_def)
  then have "consistent (led k) (h_llog k) l"
    by (rule consistent_mono [OF _ proper_led_mono [OF assms(1)]]) (use llog_growth [OF assms(1-3)] in blast)
  moreover obtain ys where "h_llog k t = h_llog h t @ ys" using llog_growth [OF assms(1-3,5)] by blast
  ultimately show ?thesis using assms(4) by (simp add: holds_def agrees_append2)
qed

lemma acked_before:
  assumes "proper_hstep fs dir ps h k" and r: "proper_hist fs dir ps h" and good: "good_fs fs"
    and v: "(q, t', c) \<in> h_votes h" and ack: "acked k q t j" and "t < t'"
  shows "acked h q t j"
  using assms(1-3)
proof (rule proper_caseE)
  fix i s acts acts'
  assume k: "k = observe i h s" and net: "sys_net s = sys_net (h_sys h) @ List.map_filter (action_message i) acts'"
    and mono: "current_term (h_node h i) \<le> current_term (sys_node s i)"
    and cs: "commit_step (set (sys_net (h_sys h))) (h_node h i) (sys_node s i) acts'"
  have "votes_held h" using votes.holds [OF proper_hist_reachable [OF r]] good by (simp add: votes_inv_def)
  then have "t' \<le> current_term (h_node h q)" using v unfolding votes_held_def by blast
  then show ?thesis
    using new_ack(1,2) [OF assms(1) [unfolded k] r good net cs ack [unfolded k]] mono \<open>t < t'\<close> by force
qed

interpretation ballots: inductive_invariant
  "\<lambda>h. h = hist_init fs dir ps" "proper_hstep fs dir ps" "proper_hist fs dir ps" "ballots_inv fs ps"
  for fs dir ps
proof
  fix h :: "'a hist"
  show "h = hist_init fs dir ps \<Longrightarrow> ballots_inv fs ps h"
    by (simp add: ballots_inv_def hist_init_def)
next
  fix h k :: "'a hist"
  assume r: "proper_hist fs dir ps h" and inv: "ballots_inv fs ps h" and st: "proper_hstep fs dir ps h k"
  show "ballots_inv fs ps k"
    unfolding ballots_inv_def
  proof (intro impI allI)
    fix q t' c
    assume good: "good_fs fs" and vote: "(q, t', c) \<in> h_votes k" and ne: "q \<noteq> c"
    note I = inv [unfolded ballots_inv_def, rule_format, OF good]
    note A = acks.holds [OF r, unfolded acks_inv_def, rule_format, OF good]
    let ?G = "\<lambda>h rv. \<forall>t k. acked h q t k \<longrightarrow> t < t' \<longrightarrow>
      (\<exists>l. holds h l t k \<and> candidate_up_to_date rv l) \<or> (\<exists>u \<le> t'. lost h t k u)"
    have carry: "?G k rv" if "?G h rv" and "\<And>t j. acked k q t j \<Longrightarrow> t < t' \<Longrightarrow> acked h q t j" for rv
    proof (intro allI impI)
      fix t j
      assume "acked k q t j" "t < t'"
      then have a: "acked h q t j" using that(2) by blast
      then show "(\<exists>l. holds k l t j \<and> candidate_up_to_date rv l) \<or> (\<exists>u \<le> t'. lost k t j u)"
        using that(1) \<open>t < t'\<close> holds_mono [OF st r good, of _ t j] lost_mono [OF st r good, of t j] A [OF a] by blast
    qed
    note sub = proper_net_mono [OF st r good]
    show "\<exists>d rv. (q, NmRequestVote d rv) \<in> set (sys_net (h_sys k)) \<and> rv_term rv = t' \<and> rv_candidate_id rv = c \<and> ?G k rv"
    proof (cases "(q, t', c) \<in> h_votes h")
      case True
      obtain d rv where rv: "(q, NmRequestVote d rv) \<in> set (sys_net (h_sys h))" "rv_term rv = t'" "rv_candidate_id rv = c" "?G h rv"
        using I [OF True ne] by blast
      have "?G k rv" using rv(4) acked_before [OF st r good True] by (rule carry)
      then show ?thesis using rv(1-3) sub by (intro exI [of _ d] exI [of _ rv]) blast
    next
      case False
      from st r good show ?thesis
      proof (rule proper_caseE)
        fix i s acts acts'
        assume k: "k = observe i h s" and i: "i \<in> set ps" "node_id (h_node h i) = i"
          and net: "sys_net s = sys_net (h_sys h) @ List.map_filter (action_message i) acts'"
          and mono: "current_term (h_node h i) \<le> current_term (sys_node s i)"
          and cs: "commit_step (set (sys_net (h_sys h))) (h_node h i) (sys_node s i) acts'"
        have new: "q = i" "t' = current_term (sys_node s i)" "voted_for (sys_node s i) = Some c"
          using vote False by (auto simp: k)
        have "votes_recorded ps h" using votes.holds [OF proper_hist_reachable [OF r]] good by (simp add: votes_inv_def)
        then have "\<not> (current_term (sys_node s i) = current_term (h_node h i) \<and> voted_for (h_node h i) = Some c)"
          using False i(1) new unfolding votes_recorded_def by auto
        then obtain d rv where rv: "(i, NmRequestVote d rv) \<in> set (sys_net (h_sys h))" "rv_term rv = t'" "rv_candidate_id rv = c"
            "candidate_up_to_date rv (node_log (h_node h i))"
          using cs [unfolded commit_step_def ballot_step_def] new ne i(2) by metis
        have "?G h rv"
        proof (intro allI impI)
          fix t j
          assume "acked h q t j" "t < t'"
          then have "kept h i t j" using A new(1) by blast
          then show "(\<exists>l. holds h l t j \<and> candidate_up_to_date rv l) \<or> (\<exists>u \<le> t'. lost h t j u)"
            using rv(4) reachable_consistent [OF proper_hist_reachable [OF r] good i(1)] mono new(2)
            unfolding kept_def holds_def by (meson order_trans)
        qed
        moreover have "acked h q t j" if "acked k q t j" "t < t'" for t j
          using new_ack(2) [OF st [unfolded k] r good net cs that(1) [unfolded k]] that(2) new(2) by auto
        ultimately have "?G k rv" by (rule carry)
        then show ?thesis using rv(1-3) sub new(1) by (intro exI [of _ d] exI [of _ rv]) blast
      qed
    qed
  qed
qed

subsection \<open>Elections\<close>

definition log_up_to_date :: "RaftLog \<Rightarrow> RaftLog \<Rightarrow> bool" where
  "log_up_to_date c l \<longleftrightarrow> last_term l < last_term c \<or> last_term c = last_term l \<and> last_index l \<le> last_index c"

lemma request_up_to_date: "candidate_up_to_date (vote_request s) l = log_up_to_date (rs_log s) l"
  by (auto simp: candidate_up_to_date_def log_up_to_date_def vote_request_def)

text \<open>
  The majority that elected a leader, and the log \<open>c\<close> the leader started with: whatever a voter
  had acknowledged before was in a log that \<open>c\<close> is up to date with, or an earlier leader lost it.
\<close>

definition elected_over :: "u64 list \<Rightarrow> 'j hist \<Rightarrow> u64 \<Rightarrow> u64 set \<Rightarrow> RaftLog \<Rightarrow> bool" where
  "elected_over ps h t' R c \<longleftrightarrow> majority ps R \<and> consistent (led h) (h_llog h) c \<and> (\<exists>xs. h_llog h t' = c @ xs) \<and>
     last_term c < t' \<and> (\<forall>q \<in> R. \<exists>v. (q, t', v) \<in> h_votes h) \<and>
     (\<forall>q \<in> R. \<forall>t k. acked h q t k \<longrightarrow> t < t' \<longrightarrow>
        (\<exists>l. holds h l t k \<and> log_up_to_date c l) \<or> (\<exists>u < t'. lost h t k u))"

definition elects_inv :: "'j json_fs \<Rightarrow> u64 list \<Rightarrow> 'j hist \<Rightarrow> bool" where
  "elects_inv fs ps h \<longleftrightarrow> (good_fs fs \<longrightarrow> (\<forall>t' \<in> led h. \<exists>R c. elected_over ps h t' R c))"

lemma elected_over_step:
  assumes st: "proper_hstep fs dir ps h k" "proper_hist fs dir ps h" "good_fs fs"
    and t': "t' \<in> led h" and e: "elected_over ps h t' R c"
  shows "elected_over ps k t' R c"
  unfolding elected_over_def
proof (intro conjI ballI allI impI)
  note E = e [unfolded elected_over_def]
  note A = acks.holds [OF st(2), unfolded acks_inv_def, rule_format, OF st(3)]
  have votes: "h_votes h \<subseteq> h_votes k"
    using history_grows [OF hsteps_step [OF hsteps_refl proper_hstep_hist [OF st(1)]]] by blast
  show "majority ps R" "last_term c < t'" using E by blast+
  have "consistent (led h) (h_llog h) c" using E by blast
  then show "consistent (led k) (h_llog k) c"
    by (rule consistent_mono [OF _ proper_led_mono [OF st(1)]]) (use llog_growth [OF st] in blast)
  show "\<exists>xs. h_llog k t' = c @ xs" using E llog_growth [OF st t'] by auto
  show "\<exists>v. (q, t', v) \<in> h_votes k" if "q \<in> R" for q using E that votes by blast
  fix q t j
  assume q: "q \<in> R" and a: "acked k q t j" and t: "t < t'"
  obtain v where v: "(q, t', v) \<in> h_votes h" using E q by blast
  have a: "acked h q t j" by (rule acked_before [OF st v a t])
  then have "(\<exists>l. holds h l t j \<and> log_up_to_date c l) \<or> (\<exists>u < t'. lost h t j u)" using E q t by blast
  then show "(\<exists>l. holds k l t j \<and> log_up_to_date c l) \<or> (\<exists>u < t'. lost k t j u)"
    using holds_mono [OF st, of _ t j] lost_mono [OF st, of t j] A [OF a] by blast
qed

text \<open>The election itself: the votes of the others answer a request that describes the winner's log.\<close>

lemma voter_of_winner:
  assumes r: "proper_hist fs dir ps h" and good: "good_fs fs" and i: "i \<in> set ps"
    and v: "(q, t', i) \<in> h_votes h" "q \<noteq> i" and a: "acked h q t j" "t < t'"
    and fresh: "t' \<notin> led h"
    and win: "role (h_node h i) = Candidate \<and> current_term (h_node h i) = t' \<or> current_term (h_node h i) < t'"
  shows "(\<exists>l. holds h l t j \<and> log_up_to_date (node_log (h_node h i)) l) \<or> (\<exists>u < t'. lost h t j u)"
proof -
  obtain d rv where rv: "(q, NmRequestVote d rv) \<in> set (sys_net (h_sys h))" "rv_term rv = t'" "rv_candidate_id rv = i"
    and old: "(\<exists>l. holds h l t j \<and> candidate_up_to_date rv l) \<or> (\<exists>u \<le> t'. lost h t j u)"
    using ballots.holds [OF r, unfolded ballots_inv_def, rule_format, OF good v] a by blast
  note R = requests.holds [OF r, unfolded requests_inv_def, rule_format, OF good rv(1)]
  have d: "d = i" using R rv(3) by blast
  then have "current_term (h_node h i) = t'" "role (h_node h i) = Candidate" using R win rv(2) by auto
  then have "rv = vote_request (rn_state (h_node h i))" using R rv(2) d by blast
  then show ?thesis
    using old fresh by (auto simp: request_up_to_date lost_def order.strict_iff_order)
qed

lemma new_leader_elected:
  assumes st: "proper_hstep fs dir ps h (observe i h s)" and r: "proper_hist fs dir ps h" and good: "good_fs fs"
    and i: "i \<in> set ps" "node_id (h_node h i) = i" "peers (h_node h i) = ps"
    and rs: "raft_step fs dir ps i (h_sys h) s"
    and mono: "current_term (h_node h i) \<le> current_term (sys_node s i)"
    and rp: "repl_step (set (sys_net (h_sys h))) (h_node h i) (sys_node s i) acts"
    and net: "sys_net s = sys_net (h_sys h) @ List.map_filter (action_message i) acts'"
    and cs: "commit_step (set (sys_net (h_sys h))) (h_node h i) (sys_node s i) acts'"
    and lead: "role (sys_node s i) = Leader" and fresh: "current_term (sys_node s i) \<notin> led h"
  shows "\<exists>R. elected_over ps (observe i h s) (current_term (sys_node s i)) R (node_log (h_node h i))"
proof -
  let ?k = "observe i h s" and ?t' = "current_term (sys_node s i)" and ?n = "h_node h i"
  note hr = proper_hist_reachable [OF r]
  have rk: "hist_reachable fs dir ps ?k" using proper_hist_next [OF r st] by (rule proper_hist_reachable)
  note A = acks.holds [OF r, unfolded acks_inv_def, rule_format, OF good]
  have not_leader: "\<not> (role ?n = Leader \<and> ?t' = current_term ?n)"
    using leader_in_history [OF hr good i(1)] fresh by force
  then have win: "role ?n = Candidate \<and> current_term ?n = ?t' \<or> current_term ?n < ?t'"
    using rp lead by (auto simp: repl_step_def)
  have log: "node_log (sys_node s i) = node_log ?n"
    using rp lead not_leader by (auto simp: repl_step_def log_step_def)
  have "?t' \<noteq> 0" using led_not_0 [OF rk good] lead by (simp add: led_observe)
  have cons: "consistent (led h) (h_llog h) (node_log ?n)" by (rule reachable_consistent [OF hr good i(1)])
  have last: "last_term (node_log ?n) < ?t'"
  proof (cases "last_index (node_log ?n) = 0")
    case True
    then show ?thesis
      using consistent_log_ok [OF cons] \<open>?t' \<noteq> 0\<close> by (simp add: last_term_at word_neq_0_conv)
  next
    case False
    note ok = consistent_log_ok [OF cons]
    have x: "0 < last_index (node_log ?n)" "last_index (node_log ?n) < length (node_log ?n)"
      using False log_ok_length [OF ok] by simp_all
    have lt: "last_term (node_log ?n) = le_term (node_log ?n ! last_index (node_log ?n))"
      using x(2) ok by (simp add: last_term_at term_at_in)
    then have "last_term (node_log ?n) \<in> led h" using consistentD(1) [OF cons x] by simp
    moreover have "last_term (node_log ?n) \<le> current_term ?n"
      using bounds.holds [OF hr] good i(1) x(2) unfolding bounds_inv_def lt by (meson nth_mem)
    then have "last_term (node_log ?n) \<le> ?t'" using mono by (rule order_trans)
    moreover have "last_term (node_log ?n) \<noteq> ?t'" using fresh \<open>last_term (node_log ?n) \<in> led h\<close> by metis
    ultimately show ?thesis by simp
  qed
  obtain R where R: "majority ps R" "\<And>q. q \<in> R \<Longrightarrow> (q, ?t', i) \<in> h_votes ?k"
  proof -
    have "\<exists>Q. majority ps Q \<and> (\<forall>q \<in> Q. (q, ?t', i) \<in> h_votes ?k)"
    proof (rule elected_by_majority [OF rk good i(1) rs reachable_node_ok [OF hr good i(1)] lead])
      assume "role ?n = Leader"
      then have "(current_term ?n, i) \<in> h_leaders h" by (rule leader_in_history [OF hr good i(1)])
      then show "\<exists>Q. majority ps Q \<and> (\<forall>q \<in> Q. (q, current_term ?n, i) \<in> h_votes h)"
        using leaders.holds [OF hr] good unfolding leaders_inv_def by blast
    qed
    then show ?thesis using that by blast
  qed
  have up: "(\<exists>l. holds ?k l t j \<and> log_up_to_date (node_log ?n) l) \<or> (\<exists>u < ?t'. lost ?k t j u)"
    if q: "q \<in> R" and ak: "acked ?k q t j" and t: "t < ?t'" for q t j
  proof -
    have a: "acked h q t j" using new_ack(2) [OF st r good net cs ak] t by auto
    have "(\<exists>l. holds h l t j \<and> log_up_to_date (node_log ?n) l) \<or> (\<exists>u < ?t'. lost h t j u)"
    proof (cases "q = i")
      case True
      then have "kept h i t j" using A [OF a] by blast
      then show ?thesis
      proof (cases "agrees (node_log ?n) (h_llog h t) j")
        case True
        then have "holds h (node_log ?n) t j" using cons by (simp add: holds_def)
        then show ?thesis by (auto simp: log_up_to_date_def)
      next
        case False
        with \<open>kept h i t j\<close> obtain u where u: "u \<le> current_term ?n" "lost h t j u" by (auto simp: kept_def)
        then have "u \<noteq> ?t'" using fresh unfolding lost_def by blast
        moreover have "u \<le> ?t'" using u(1) mono by (rule order_trans)
        ultimately have "u < ?t'" by simp
        then show ?thesis using u(2) by blast
      qed
    next
      case False
      then have "(q, ?t', i) \<in> h_votes h" using R(2) [OF q] by auto
      then show ?thesis by (rule voter_of_winner [OF r good i(1) _ False a t fresh win])
    qed
    then show ?thesis using holds_mono [OF st r good, of _ t j] lost_mono [OF st r good, of t j] A [OF a] by blast
  qed
  have "consistent (led ?k) (h_llog ?k) (node_log ?n)"
    using reachable_consistent [OF rk good i(1)] log by simp
  moreover have "h_llog ?k ?t' = node_log ?n @ []" using lead log by simp
  ultimately show ?thesis using R last up unfolding elected_over_def by blast
qed

interpretation elects: inductive_invariant
  "\<lambda>h. h = hist_init fs dir ps" "proper_hstep fs dir ps" "proper_hist fs dir ps" "elects_inv fs ps"
  for fs dir ps
proof
  fix h :: "'a hist"
  show "h = hist_init fs dir ps \<Longrightarrow> elects_inv fs ps h"
    by (simp add: elects_inv_def hist_init_def)
next
  fix h k :: "'a hist"
  assume r: "proper_hist fs dir ps h" and inv: "elects_inv fs ps h" and st: "proper_hstep fs dir ps h k"
  show "elects_inv fs ps k"
    unfolding elects_inv_def
  proof (intro impI ballI)
    fix t'
    assume good: "good_fs fs" and t': "t' \<in> led k"
    note I = inv [unfolded elects_inv_def, rule_format, OF good]
    show "\<exists>R c. elected_over ps k t' R c"
    proof (cases "t' \<in> led h")
      case True
      then show ?thesis using I elected_over_step [OF st r good True] by blast
    next
      case False
      from st r good show ?thesis
      proof (rule proper_caseE)
        fix i s acts acts'
        assume k: "k = observe i h s" and rs: "raft_step fs dir ps i (h_sys h) s"
          and i: "i \<in> set ps" "node_id (h_node h i) = i" "peers (h_node h i) = ps"
          and net: "sys_net s = sys_net (h_sys h) @ List.map_filter (action_message i) acts'"
          and mono: "current_term (h_node h i) \<le> current_term (sys_node s i)"
          and rp: "repl_step (set (sys_net (h_sys h))) (h_node h i) (sys_node s i) acts"
          and cs: "commit_step (set (sys_net (h_sys h))) (h_node h i) (sys_node s i) acts'"
        have new: "role (sys_node s i) = Leader" "t' = current_term (sys_node s i)"
          using t' False unfolding k led_observe by (auto split: if_splits)
        then show ?thesis
          using new_leader_elected [OF st [unfolded k] r good i rs mono rp net cs] False k by blast
      qed
    qed
  qed
qed

subsection \<open>Leader completeness\<close>

definition committed :: "u64 list \<Rightarrow> 'j hist \<Rightarrow> u64 \<Rightarrow> usize \<Rightarrow> bool" where
  "committed ps h t j \<longleftrightarrow> t \<in> led h \<and> j < length (h_llog h t) \<and> le_term (h_llog h t ! j) = t \<and>
     (\<exists>Q. majority ps Q \<and> (\<forall>q \<in> Q. acked h q t j))"

text \<open>A log whose last entry has a term at least \<open>t\<close>, since it holds an entry of term \<open>t\<close>.\<close>

lemma last_term_ge:
  assumes hr: "hist_reachable fs dir ps h" and good: "good_fs fs"
    and l: "consistent (led h) (h_llog h) l" and x: "0 < j" "j < length l"
  shows "le_term (l ! j) \<le> last_term l" "last_term l \<in> led h" "l = take (length l) (h_llog h (last_term l))"
proof -
  note ok = consistent_log_ok [OF l]
  have k: "0 < last_index l" "last_index l < length l" "length l = Suc (last_index l)" "j \<le> last_index l"
    using log_ok_length [OF ok] x by simp_all
  have lt: "last_term l = le_term (l ! last_index l)" using k(2) ok by (simp add: last_term_at term_at_in)
  note d = consistentD [OF l k(1,2), folded lt]
  show "last_term l \<in> led h" by (rule d(1))
  show p: "l = take (length l) (h_llog h (last_term l))" using d(4) k(3) by simp
  have "l ! j \<in> set (h_llog h (last_term l))" using p x(2) by (metis in_set_takeD nth_mem)
  then show "le_term (l ! j) \<le> last_term l" using bounds.holds [OF hr] good d(1) unfolding bounds_inv_def by blast
qed

lemma leader_completeness_step:
  assumes hr: "hist_reachable fs dir ps h" and good: "good_fs fs" and t: "t \<in> led h" "le_term (h_llog h t ! j) = t"
    and c: "consistent (led h) (h_llog h) c" "last_term c < t'"
    and l: "holds h l t j" "log_up_to_date c l"
    and IH: "\<And>u. u < t' \<Longrightarrow> t < u \<Longrightarrow> u \<in> led h \<Longrightarrow> agrees (h_llog h u) (h_llog h t) j"
  shows "agrees c (h_llog h t) j"
proof -
  let ?g = "h_llog h"
  have a: "agrees l (?g t) j" and lc: "consistent (led h) ?g l" using l(1) by (auto simp: holds_def)
  have t0: "t \<noteq> 0" by (rule led_not_0 [OF hr good t(1)])
  have tj: "le_term (l ! j) = t" using agrees_nth [OF a] t(2) by simp
  have j: "0 < j" "j < length l"
    using tj t0 log_ok_0 [OF consistent_log_ok [OF lc]] a by (auto simp: agrees_def sentinel_def intro: gr0I)
  note L = last_term_ge [OF hr good lc j, unfolded tj]
  have cok: "log_ok c" by (rule consistent_log_ok [OF c(1)])
  have clen: "length c = Suc (last_index c)" by (rule log_ok_length [OF cok])
  have "t \<le> last_term c" using L(1) l(2) by (auto simp: log_up_to_date_def)
  then have c0: "0 < last_index c" using t0 cok by (auto simp: last_term_at intro: gr0I)
  note C = last_term_ge [OF hr good c(1) c0] 
  have cp: "last_term c \<in> led h" "c = take (length c) (?g (last_term c))" using C clen by simp_all
  show ?thesis
  proof (cases "last_term c = last_term l")
    case True
    then have "last_index l \<le> last_index c" using l(2) by (auto simp: log_up_to_date_def)
    then have "length l \<le> length c" using clen log_ok_length [OF consistent_log_ok [OF lc]] by simp
    then have "l = take (length l) c" using L(3) cp(2) True by (metis min.absorb_iff1 take_take)
    then have "agrees l c j" by (rule agrees_prefix) (rule j(2))
    then show ?thesis using a agrees_sym agrees_trans by blast
  next
    case False
    then have s: "t < last_term c" using l(2) L(1) by (auto simp: log_up_to_date_def)
    have as: "agrees (?g (last_term c)) (?g t) j" using IH [OF c(2) s cp(1)] .
    have "j < length c"
    proof (rule ccontr)
      assume "\<not> j < length c"
      then have "last_index c \<le> j" using clen by simp
      then have "?g (last_term c) ! last_index c = ?g t ! last_index c" "last_index c < length (?g t)"
        using agrees_nth [OF as] as by (auto simp: agrees_def)
      moreover have "c ! last_index c = ?g (last_term c) ! last_index c"
        using cp(2) clen by (metis lessI nth_take)
      moreover have "le_term (c ! last_index c) = last_term c" using cok clen by (simp add: last_term_at term_at_in)
      ultimately have "last_term c \<le> t"
        using bounds.holds [OF hr] good t(1) unfolding bounds_inv_def by (metis nth_mem)
      then show False using s by simp
    qed
    then have "agrees c (?g (last_term c)) j" using cp(2) by (intro agrees_prefix)
    then show ?thesis using as by (rule agrees_trans)
  qed
qed

lemma leader_completeness:
  assumes r: "proper_hist fs dir ps h" and good: "good_fs fs" and com: "committed ps h t j"
    and "t' \<in> led h" and "t < t'"
  shows "agrees (h_llog h t') (h_llog h t) j"
  using assms(4,5)
proof (induction "unat t'" arbitrary: t' rule: less_induct)
  case less
  have IH: "agrees (h_llog h u) (h_llog h t) j" if "u < t'" "t < u" "u \<in> led h" for u
    using less.hyps [of u] that by (simp add: word_less_nat_alt)
  obtain R c where e: "elected_over ps h t' R c"
    using elects.holds [OF r] good less.prems(1) unfolding elects_inv_def by blast
  obtain Q where Q: "majority ps Q" "\<And>q. q \<in> Q \<Longrightarrow> acked h q t j" using com by (auto simp: committed_def)
  obtain q where q: "q \<in> Q" "q \<in> R" using majority.quorum_meet [OF Q(1)] e unfolding elected_over_def by blast
  have "(\<exists>l. holds h l t j \<and> log_up_to_date c l) \<or> (\<exists>u < t'. lost h t j u)"
    using e q(2) Q(2) [OF q(1)] less.prems(2) unfolding elected_over_def by blast
  moreover have "\<not> (\<exists>u < t'. lost h t j u)" using IH by (auto simp: lost_def)
  ultimately obtain l where l: "holds h l t j" "log_up_to_date c l" by blast
  have "agrees c (h_llog h t) j"
    using com e l IH unfolding committed_def elected_over_def
    by (intro leader_completeness_step [OF proper_hist_reachable [OF r] good, of t j c t' l]) blast+
  moreover obtain xs where "h_llog h t' = c @ xs" using e unfolding elected_over_def by blast
  ultimately show ?case by (simp add: agrees_append1)
qed

end
