(* ===== verification/Commit_Safety.thy ===== *)
theory Commit_Safety
  imports Leader_Completeness
begin

text \<open>
  State machine safety in proper runs. A leader's \<^verbatim>\<open>match_index\<close> holds acknowledgements of its own
  term (\<open>tracking_inv\<close>), so an entry it commits is acknowledged by a majority; every commit index of
  a node or a message is covered by such an entry (\<open>commits_inv\<close>); and by leader completeness all
  later leaders have it. Hence two nodes never disagree on an index both have committed.
\<close>

subsection \<open>What a leader knows of its followers\<close>

definition tracking_inv :: "'j json_fs \<Rightarrow> u64 list \<Rightarrow> 'j hist \<Rightarrow> bool" where
  "tracking_inv fs ps h \<longleftrightarrow> (good_fs fs \<longrightarrow> (\<forall>i \<in> set ps. role (h_node h i) = Leader \<longrightarrow>
     map fst (rs_match_index (rn_state (h_node h i))) = filter (\<lambda>p. p \<noteq> i) ps \<and>
     (\<forall>(p, m) \<in> set (rs_match_index (rn_state (h_node h i))). m = 0 \<or> acked h p (current_term (h_node h i)) m)))"

lemma update_first_fst: "map fst (update_first p f xs) = map fst xs"
  by (induction p f xs rule: update_first.induct) auto

lemma update_first_in: "(q, i) \<in> set (update_first p (\<lambda>_. m) xs) \<Longrightarrow> (q, i) \<in> set xs \<or> q = p \<and> i = m"
  by (induction p "\<lambda>_ :: nat. m" xs rule: update_first.induct) (auto split: if_splits)

lemma acked_response:
  "(c, NmAppendEntriesResponse q r) \<in> set (sys_net (h_sys h)) \<Longrightarrow> aer_success r \<Longrightarrow> aer_match_index r = Some m \<Longrightarrow>
   acked h q (aer_term r) m"
  unfolding acked_def by blast

interpretation tracking: inductive_invariant
  "\<lambda>h. h = hist_init fs dir ps" "proper_hstep fs dir ps" "proper_hist fs dir ps" "tracking_inv fs ps"
  for fs dir ps
proof
  fix h :: "'a hist"
  show "h = hist_init fs dir ps \<Longrightarrow> tracking_inv fs ps h"
    by (simp add: tracking_inv_def hist_init_def raft_init_def)
next
  fix h k :: "'a hist"
  assume r: "proper_hist fs dir ps h" and inv: "tracking_inv fs ps h" and st: "proper_hstep fs dir ps h k"
  show "tracking_inv fs ps k"
    unfolding tracking_inv_def
  proof (intro impI ballI)
    fix j
    assume good: "good_fs fs" and j: "j \<in> set ps" and lead: "role (h_node k j) = Leader"
    note I = inv [unfolded tracking_inv_def, rule_format, OF good]
    note am = acked_mono [OF st r good]
    let ?ok = "\<lambda>h. map fst (rs_match_index (rn_state (h_node h j))) = filter (\<lambda>p. p \<noteq> j) ps \<and>
      (\<forall>(p, m) \<in> set (rs_match_index (rn_state (h_node h j))). m = 0 \<or> acked h p (current_term (h_node h j)) m)"
    from st r good show "?ok k"
    proof (rule proper_caseE)
      fix i s acts acts'
      assume k: "k = observe i h s" and i: "i \<in> set ps" "node_id (h_node h i) = i" "peers (h_node h i) = ps"
        and other: "\<And>j. j \<noteq> i \<Longrightarrow> sys_node s j = h_node h j"
        and cs: "commit_step (set (sys_net (h_sys h))) (h_node h i) (sys_node s i) acts'"
      show ?thesis
      proof (cases "j = i")
        case False
        then have "role (h_node h j) = Leader" using lead other by (simp add: k)
        then have "?ok h" using I j by blast
        then show ?thesis using other [OF False] am by (fastforce simp: k)
      next
        case True
        have m: "match_step (set (sys_net (h_sys h))) (h_node h i) (sys_node s i)" using cs by (simp add: commit_step_def)
        from m lead i consider
            (fresh) "rs_match_index (rn_state (sys_node s i)) = map (\<lambda>p. (p, 0)) (filter (\<lambda>p. p \<noteq> i) ps)"
          | (same) "role (h_node h i) = Leader" "current_term (sys_node s i) = current_term (h_node h i)"
              "rs_match_index (rn_state (sys_node s i)) = rs_match_index (rn_state (h_node h i))"
          | (heard) p x m where "role (h_node h i) = Leader" "current_term (sys_node s i) = current_term (h_node h i)"
              "(i, NmAppendEntriesResponse p x) \<in> set (sys_net (h_sys h))" "aer_success x"
              "aer_term x = current_term (h_node h i)" "aer_match_index x = Some m"
              "rs_match_index (rn_state (sys_node s i)) = update_first p (\<lambda>_. m) (rs_match_index (rn_state (h_node h i)))"
          unfolding match_step_def by (auto simp: k True)
        then show ?thesis
        proof cases
          case fresh
          then show ?thesis by (auto simp: k True comp_def)
        next
          case same
          then have "?ok h" using I j True by blast
          then show ?thesis using same am by (fastforce simp: k True)
        next
          case heard
          then have ok: "?ok h" using I j True by blast
          have "acked h p (current_term (h_node h i)) m" using acked_response [OF heard(3,4,6)] heard(5) by simp
          then have "m' = 0 \<or> acked k q (current_term (sys_node s i)) m'"
            if "(q, m') \<in> set (rs_match_index (rn_state (sys_node s i)))" for q m'
            using update_first_in [OF that [unfolded heard(7)]] ok am heard(2) by (auto simp: True)
          then show ?thesis using ok heard(7) by (auto simp: k True update_first_fst)
        qed
      qed
    qed
  qed
qed

lemma acked_le: "acked h q t m \<Longrightarrow> k \<le> m \<Longrightarrow> acked h q t k"
  unfolding acked_def by (elim disjE exE conjE) (auto intro: order_trans)

lemma committable_committed:
  assumes r: "proper_hist fs dir ps h" and good: "good_fs fs" and ps: "distinct ps" and i: "i \<in> set ps"
    and lead: "role (h_node h i) = Leader" and c: "0 < c" "c \<le> last_index (node_log (h_node h i))"
    and com: "committable (rn_state (h_node h i)) c"
  shows "committed ps h (current_term (h_node h i)) c"
proof -
  let ?n = "h_node h i"
  let ?t = "current_term ?n" and ?M = "rs_match_index (rn_state ?n)"
  note hr = proper_hist_reachable [OF r]
  have n: "peers ?n = ps" "log_ok (node_log ?n)" using reachable_node_ok [OF hr good i] by (auto simp: node_ok_def)
  have T: "map fst ?M = filter (\<lambda>p. p \<noteq> i) ps" "\<And>p m. (p, m) \<in> set ?M \<Longrightarrow> m = 0 \<or> acked h p ?t m"
    using tracking.holds [OF r, unfolded tracking_inv_def, rule_format, OF good i lead] by auto
  have tl: "(?t, i) \<in> h_leaders h" by (rule leader_in_history [OF hr good i lead])
  have ll: "h_llog h ?t = node_log ?n" using logs.holds [OF hr] good i lead by (simp add: logs_inv_def)
  have len: "c < length (node_log ?n)" using c(2) log_ok_length [OF n(2)] by simp
  let ?F = "filter (\<lambda>e. c \<le> snd e) ?M"
  let ?Q = "insert i (fst ` set ?F)"
  have "distinct (map fst ?M)" using T(1) ps by simp
  then have "distinct (map fst ?F)" by (simp add: distinct_map_filter)
  then have card: "card (fst ` set ?F) = length ?F" using distinct_card [of "map fst ?F"] by simp
  have sub: "fst ` set ?M = set ps - {i}" using arg_cong [OF T(1), of set] by auto
  have "i \<notin> fst ` set ?F" using sub by auto
  then have "card ?Q = 1 + length ?F" using card by simp
  moreover have "?Q \<subseteq> set ps" using sub i by auto
  ultimately have maj: "majority ps ?Q"
    using com n(1) by (simp add: majority_def committable_def majority_count_def replication_count_def)
  have "acked h q ?t c" if q: "q \<in> ?Q" for q
  proof (cases "q = i")
    case True
    then show ?thesis using tl ll len by (simp add: acked_def)
  next
    case False
    then obtain m where m: "(q, m) \<in> set ?M" "c \<le> m" using q by auto
    then have "acked h q ?t m" using T(2) [OF m(1)] c(1) by auto
    then show ?thesis using m(2) by (rule acked_le)
  qed
  moreover have "?t \<in> led h" using imageI [OF tl, of fst] by simp
  moreover have "le_term (node_log ?n ! c) = ?t" using com len by (simp add: committable_def term_at_in)
  ultimately show ?thesis using maj len unfolding committed_def ll by blast
qed

subsection \<open>Commit indices\<close>

definition safe_upto :: "u64 list \<Rightarrow> 'j hist \<Rightarrow> RaftLog \<Rightarrow> usize \<Rightarrow> u64 \<Rightarrow> bool" where
  "safe_upto ps h l c t' \<longleftrightarrow> c = 0 \<or> (\<exists>t j. committed ps h t j \<and> c \<le> j \<and> t \<le> t' \<and> agrees l (h_llog h t) c)"

definition commits_inv :: "'j json_fs \<Rightarrow> u64 list \<Rightarrow> 'j hist \<Rightarrow> bool" where
  "commits_inv fs ps h \<longleftrightarrow> (good_fs fs \<longrightarrow> distinct ps \<longrightarrow>
     (\<forall>i \<in> set ps. safe_upto ps h (node_log (h_node h i)) (commit_index (h_node h i)) (current_term (h_node h i))) \<and>
     (\<forall>c j r. (c, NmAppendEntries j r) \<in> set (sys_net (h_sys h)) \<longrightarrow>
        safe_upto ps h (h_llog h (ae_term r)) (ae_leader_commit r) (ae_term r)))"

lemma committed_mono:
  assumes st: "proper_hstep fs dir ps h k" "proper_hist fs dir ps h" "good_fs fs" and c: "committed ps h t j"
  shows "committed ps k t j"
proof -
  have t: "t \<in> led h" "j < length (h_llog h t)" "le_term (h_llog h t ! j) = t" using c by (auto simp: committed_def)
  obtain Q where "majority ps Q" "\<forall>q \<in> Q. acked h q t j" using c by (auto simp: committed_def)
  then have "\<exists>Q. majority ps Q \<and> (\<forall>q \<in> Q. acked k q t j)" using acked_mono [OF st] by blast
  moreover obtain ys where "h_llog k t = h_llog h t @ ys" using llog_growth [OF st t(1)] by blast
  moreover have "t \<in> led k" using t(1) proper_led_mono [OF st(1)] by blast
  ultimately show ?thesis using t unfolding committed_def by (simp add: nth_append)
qed

lemma safe_upto_mono:
  assumes st: "proper_hstep fs dir ps h k" "proper_hist fs dir ps h" "good_fs fs"
    and "safe_upto ps h l c t'" and "t' \<le> t''"
  shows "safe_upto ps k l c t''"
proof (cases "c = 0")
  case False
  then obtain t j where t: "committed ps h t j" "c \<le> j" "t \<le> t'" "agrees l (h_llog h t) c"
    using assms(4) by (auto simp: safe_upto_def)
  obtain ys where "h_llog k t = h_llog h t @ ys" using llog_growth [OF st, of t] t(1) by (auto simp: committed_def)
  then have "agrees l (h_llog k t) c" using t(4) agrees_append2 by simp
  moreover have "t \<le> t''" using t(3) assms(5) by (rule order_trans)
  ultimately show ?thesis using committed_mono [OF st t(1)] t(2) unfolding safe_upto_def by blast
qed (simp add: safe_upto_def)

lemma safe_upto_append: "safe_upto ps h l c t \<Longrightarrow> safe_upto ps h (l @ xs) c t"
  unfolding safe_upto_def using agrees_append1 by blast

lemma safe_upto_term: "safe_upto ps h l c t \<Longrightarrow> t \<le> t' \<Longrightarrow> safe_upto ps h l c t'"
  unfolding safe_upto_def by (metis (no_types) order_trans)

lemma safe_upto_le: "safe_upto ps h l c t \<Longrightarrow> c' \<le> c \<Longrightarrow> safe_upto ps h l c' t"
  unfolding safe_upto_def using agrees_le by (metis le_zero_eq order_trans)

lemma safe_upto_agrees: "safe_upto ps h g c t \<Longrightarrow> agrees l g c \<Longrightarrow> safe_upto ps h l c t"
  unfolding safe_upto_def using agrees_trans by blast

lemma committed_in_leader:
  assumes "proper_hist fs dir ps h" and "good_fs fs" and "committed ps h t j" and "t' \<in> led h" and "t \<le> t'"
  shows "agrees (h_llog h t') (h_llog h t) j"
proof (cases "t = t'")
  case True
  then show ?thesis using assms(3) by (simp add: committed_def)
next
  case False
  then show ?thesis using leader_completeness [OF assms(1-4)] assms(5) by simp
qed

lemma safe_upto_merge:
  assumes r: "proper_hist fs dir ps h" and good: "good_fs fs" and i: "i \<in> set ps"
    and m: "(c, NmAppendEntries d q) \<in> set (sys_net (h_sys h))" and acc: "accepts (node_log (h_node h i)) q"
    and le: "current_term (h_node h i) \<le> ae_term q"
    and s: "safe_upto ps h (node_log (h_node h i)) x (current_term (h_node h i))"
  shows "safe_upto ps h (merged (node_log (h_node h i)) q) x (ae_term q)"
proof (cases "x = 0")
  case False
  let ?l = "node_log (h_node h i)"
  note hr = proper_hist_reachable [OF r]
  obtain t j where t: "committed ps h t j" "x \<le> j" "t \<le> current_term (h_node h i)" "agrees ?l (h_llog h t) x"
    using s False by (auto simp: safe_upto_def)
  have tq: "t \<le> ae_term q" using t(3) le by (rule order_trans)
  note q = message_of_leader [OF hr good m]
  have "agrees (h_llog h (ae_term q)) (h_llog h t) x"
    using committed_in_leader [OF r good t(1) q(1) tq] t(2) by (rule agrees_le)
  then have "agrees ?l (h_llog h (ae_term q)) x" using t(4) agrees_sym agrees_trans by blast
  then have "agrees (merged ?l q) (h_llog h (ae_term q)) x"
    by (rule merge_keeps_agreement [OF reachable_consistent [OF hr good i] consistent_llog [OF hr good q(1)] q(2) acc])
  then have "agrees (merged ?l q) (h_llog h t) x"
    using \<open>agrees (h_llog h (ae_term q)) (h_llog h t) x\<close> by (rule agrees_trans)
  then show ?thesis using t(1,2) tq unfolding safe_upto_def by blast
qed (simp add: safe_upto_def)

lemma moved_log_safe:
  assumes r: "proper_hist fs dir ps h" and good: "good_fs fs" and i: "i \<in> set ps" "node_id (h_node h i) = i"
    and mono: "current_term (h_node h i) \<le> current_term n'"
    and rp: "log_step (set (sys_net (h_sys h))) (h_node h i) n'"
    and s: "safe_upto ps h (node_log (h_node h i)) c (current_term (h_node h i))"
  shows "safe_upto ps h (node_log n') c (current_term n')"
proof -
  from rp consider (same) "node_log n' = node_log (h_node h i)"
    | (grow) xs where "node_log n' = node_log (h_node h i) @ xs"
    | (merge) d q where "(i, NmAppendEntries d q) \<in> set (sys_net (h_sys h))" "accepts (node_log (h_node h i)) q"
        "ae_term q = current_term n'" "node_log n' = merged (node_log (h_node h i)) q"
    using i(2) by (auto simp: log_step_def accepts_def)
  then show ?thesis
  proof cases
    case same
    then show ?thesis using safe_upto_term [OF s mono] by simp
  next
    case grow
    then show ?thesis using safe_upto_append [OF safe_upto_term [OF s mono]] by simp
  next
    case merge
    then show ?thesis using safe_upto_merge [OF r good i(1) merge(1,2) _ s] mono by simp
  qed
qed

lemma moved_commit_safe:
  assumes st: "proper_hstep fs dir ps h (observe i h s)" and r: "proper_hist fs dir ps h" and good: "good_fs fs"
    and ps: "distinct ps" and inv: "commits_inv fs ps h" and i: "i \<in> set ps" "node_id (h_node h i) = i"
    and mono: "current_term (h_node h i) \<le> current_term (sys_node s i)"
    and rp: "log_step (set (sys_net (h_sys h))) (h_node h i) (sys_node s i)"
    and cs: "index_step (set (sys_net (h_sys h))) (h_node h i) (sys_node s i) acts'"
  shows "safe_upto ps (observe i h s) (node_log (sys_node s i)) (commit_index (sys_node s i)) (current_term (sys_node s i))"
proof -
  let ?k = "observe i h s" and ?n = "h_node h i" and ?n' = "sys_node s i"
  note I = inv [unfolded commits_inv_def, rule_format, OF good ps]
  from cs consider "commit_index ?n' = commit_index ?n" | "commit_index ?n' = 0"
    | (leader) "role ?n' = Leader" "0 < commit_index ?n'" "commit_index ?n' \<le> last_index (node_log ?n')"
        "committable (rn_state ?n') (commit_index ?n')"
    | (follower) q where "took_append (set (sys_net (h_sys h))) ?n ?n' q"
        "commit_index ?n' \<le> ae_leader_commit q" "commit_index ?n' \<le> last_index (node_log ?n')"
    unfolding index_step_def by metis
  then show ?thesis
  proof cases
    case 1
    have "safe_upto ps h (node_log ?n) (commit_index ?n) (current_term ?n)" using I i(1) by blast
    then show ?thesis
      unfolding 1 by (intro safe_upto_mono [OF st r good moved_log_safe [OF r good i mono rp]]) simp_all
  next
    case leader
    have "committed ps ?k (current_term ?n') (commit_index ?n')"
      using committable_committed [OF proper_hist_next [OF r st] good ps i(1)] leader by simp
    moreover from this have "agrees (node_log ?n') (h_llog ?k (current_term ?n')) (commit_index ?n')"
      using leader(1) by (simp add: committed_def)
    ultimately show ?thesis unfolding safe_upto_def by blast
  next
    case follower
    have t: "ae_term q = current_term ?n'" using follower(1) by (simp add: took_append_def)
    obtain c where "(i, NmAppendEntries c q) \<in> set (sys_net (h_sys h))" using follower(1) i(2) by (auto simp: took_append_def)
    then have "safe_upto ps h (h_llog h (ae_term q)) (ae_leader_commit q) (ae_term q)" using I by blast
    then have "safe_upto ps h (h_llog h (ae_term q)) (commit_index ?n') (ae_term q)" using follower(2) by (rule safe_upto_le)
    then have "safe_upto ps h (node_log ?n') (commit_index ?n') (ae_term q)"
      using took_append_prefix(3) [OF proper_hist_reachable [OF r] good i follower(1,3)] by (rule safe_upto_agrees)
    then show ?thesis unfolding t by (rule safe_upto_mono [OF st r good]) simp
  qed (simp add: safe_upto_def)
qed

interpretation commits: inductive_invariant
  "\<lambda>h. h = hist_init fs dir ps" "proper_hstep fs dir ps" "proper_hist fs dir ps" "commits_inv fs ps"
  for fs dir ps
proof
  fix h :: "'a hist"
  show "h = hist_init fs dir ps \<Longrightarrow> commits_inv fs ps h"
    by (simp add: commits_inv_def hist_init_def raft_init_def safe_upto_def fresh_node_def with_persistence_def
        persister_new_def load_def Let_def)
next
  fix h k :: "'a hist"
  assume r: "proper_hist fs dir ps h" and inv: "commits_inv fs ps h" and st: "proper_hstep fs dir ps h k"
  show "commits_inv fs ps k"
    unfolding commits_inv_def
  proof (intro impI)
    assume good: "good_fs fs" and ps: "distinct ps"
    note I = inv [unfolded commits_inv_def, rule_format, OF good ps]
    from st r good show "(\<forall>i \<in> set ps. safe_upto ps k (node_log (h_node k i)) (commit_index (h_node k i)) (current_term (h_node k i))) \<and>
     (\<forall>c j r. (c, NmAppendEntries j r) \<in> set (sys_net (h_sys k)) \<longrightarrow>
        safe_upto ps k (h_llog k (ae_term r)) (ae_leader_commit r) (ae_term r))"
    proof (rule proper_caseE)
      fix i s acts acts'
      assume k: "k = observe i h s" and i: "i \<in> set ps" "node_id (h_node h i) = i"
        and other: "\<And>j. j \<noteq> i \<Longrightarrow> sys_node s j = h_node h j"
        and net: "sys_net s = sys_net (h_sys h) @ List.map_filter (action_message i) acts"
        and net': "sys_net s = sys_net (h_sys h) @ List.map_filter (action_message i) acts'"
        and mono: "current_term (h_node h i) \<le> current_term (sys_node s i)"
        and rp: "repl_step (set (sys_net (h_sys h))) (h_node h i) (sys_node s i) acts"
        and cs: "commit_step (set (sys_net (h_sys h))) (h_node h i) (sys_node s i) acts'"
      have moved: "safe_upto ps k (node_log (sys_node s i)) (commit_index (sys_node s i)) (current_term (sys_node s i))"
        unfolding k
      proof (rule moved_commit_safe [OF st [unfolded k] r good ps inv i mono])
        show "log_step (set (sys_net (h_sys h))) (h_node h i) (sys_node s i)" using rp by (simp add: repl_step_def)
        show "index_step (set (sys_net (h_sys h))) (h_node h i) (sys_node s i) acts'" using cs by (simp add: commit_step_def)
      qed
      have nodes: "safe_upto ps k (node_log (h_node k j)) (commit_index (h_node k j)) (current_term (h_node k j))"
        if "j \<in> set ps" for j
        using that moved other [of j] I safe_upto_mono [OF st r good, of _ _ _ "current_term (h_node h j)"]
        by (cases "j = i") (auto simp: k)
      have msgs: "safe_upto ps k (h_llog k (ae_term q)) (ae_leader_commit q) (ae_term q)"
        if m: "(c, NmAppendEntries j q) \<in> set (sys_net (h_sys k))" for c j q
      proof (cases "(c, NmAppendEntries j q) \<in> set (sys_net (h_sys h))")
        case True
        then have "safe_upto ps h (h_llog h (ae_term q)) (ae_leader_commit q) (ae_term q)" using I by blast
        then have "safe_upto ps k (h_llog h (ae_term q)) (ae_leader_commit q) (ae_term q)"
          by (rule safe_upto_mono [OF st r good]) simp
        moreover have "ae_term q \<in> led h" by (rule message_of_leader(1) [OF proper_hist_reachable [OF r] good True])
        then obtain xs where "h_llog k (ae_term q) = h_llog h (ae_term q) @ xs" using llog_growth [OF st r good] by blast
        ultimately show ?thesis by (simp add: safe_upto_append)
      next
        case False
        then have "SendAppendEntries c q \<in> set acts"
          using m unfolding k observe_simps(1) net set_net_append action_message_iff by blast
        then have "role (sys_node s i) = Leader" "ae_term q = current_term (sys_node s i)"
          using rp by (auto simp: repl_step_def send_step_def)
        moreover have "SendAppendEntries c q \<in> set acts'"
          using m False unfolding k observe_simps(1) net' set_net_append action_message_iff by blast
        then have "ae_leader_commit q \<le> commit_index (sys_node s i)" using cs by (auto simp: commit_step_def index_step_def)
        then have "safe_upto ps k (node_log (sys_node s i)) (ae_leader_commit q) (current_term (sys_node s i))"
          by (rule safe_upto_le [OF moved])
        ultimately show ?thesis by (simp add: k)
      qed
      show ?thesis using nodes msgs by blast
    qed
  qed
qed

subsection \<open>State machine safety\<close>

inductive proper_hsteps :: "'j json_fs \<Rightarrow> (u64 \<Rightarrow> string) \<Rightarrow> u64 list \<Rightarrow> 'j hist \<Rightarrow> 'j hist \<Rightarrow> bool"
  for fs dir ps where
  proper_hrefl: "proper_hsteps fs dir ps h h"
| proper_hnext: "proper_hsteps fs dir ps h k \<Longrightarrow> proper_hstep fs dir ps k l \<Longrightarrow> proper_hsteps fs dir ps h l"

lemma proper_steps_have_history:
  assumes "proper_steps fs dir ps s t" and "proper_hist fs dir ps h" and "h_sys h = s"
  shows "\<exists>k. proper_hist fs dir ps k \<and> proper_hsteps fs dir ps h k \<and> h_sys k = t"
  using assms
proof (induction rule: proper_steps.induct)
  case (proper_refl s)
  then show ?case using proper_hrefl by blast
next
  case (proper_next s t i u)
  then obtain k where k: "proper_hist fs dir ps k" "proper_hsteps fs dir ps h k" "h_sys k = t" by blast
  then have "proper_hstep fs dir ps k (observe i k u)"
    using proper_next.hyps(2) by (auto intro: proper_hstep.intros)
  with k show ?case by (intro exI [of _ "observe i k u"]) (auto intro: proper_hist_next proper_hnext)
qed

lemma proper_reachable_history: "proper_reachable fs dir ps s \<Longrightarrow> \<exists>h. proper_hist fs dir ps h \<and> h_sys h = s"
  using proper_steps_have_history [OF _ proper_hist_start] by (fastforce simp: proper_reachable_def hist_init_def)

lemma safe_upto_later:
  assumes "proper_hsteps fs dir ps h k" and "proper_hist fs dir ps h" and "good_fs fs" and "safe_upto ps h l c t"
  shows "proper_hist fs dir ps k \<and> safe_upto ps k l c t"
  using assms
proof (induction rule: proper_hsteps.induct)
  case (proper_hnext h k l')
  then have "proper_hist fs dir ps k" "safe_upto ps k l c t" by blast+
  then show ?case
    using safe_upto_mono [OF proper_hnext.hyps(2) _ assms(3)] proper_hnext.hyps(2) by (blast intro: proper_hist_next)
qed simp

text \<open>Two logs that are safe up to an index agree up to there.\<close>

lemma safe_logs_agree:
  assumes r: "proper_hist fs dir ps h" and good: "good_fs fs"
    and a: "safe_upto ps h l c t" and b: "safe_upto ps h l' c t'" and c: "0 < c"
  shows "agrees l l' c"
proof -
  obtain u j where u: "committed ps h u j" "c \<le> j" "agrees l (h_llog h u) c" using a c by (auto simp: safe_upto_def)
  obtain v m where v: "committed ps h v m" "c \<le> m" "agrees l' (h_llog h v) c" using b c by (auto simp: safe_upto_def)
  have led: "u \<in> led h" "v \<in> led h" using u(1) v(1) by (auto simp: committed_def)
  have "agrees (h_llog h u) (h_llog h v) c"
  proof (cases "u \<le> v")
    case True
    then show ?thesis using committed_in_leader [OF r good u(1) led(2)] u(2) agrees_le agrees_sym by blast
  next
    case False
    then have "v \<le> u" by simp
    then show ?thesis using committed_in_leader [OF r good v(1) led(1)] v(2) agrees_le by blast
  qed
  then show ?thesis using u(3) v(3) agrees_sym agrees_trans by blast
qed

lemma committed_prefixes_agree:
  assumes "good_fs fs" and "distinct ps" and "proper_reachable fs dir ps s" and "proper_steps fs dir ps s s'"
    and i: "i \<in> set ps" and j: "j \<in> set ps"
    and c: "0 < c" "c \<le> commit_index (sys_node s i)" "c \<le> commit_index (sys_node s' j)"
  shows "agrees (node_log (sys_node s i)) (node_log (sys_node s' j)) c"
proof -
  obtain h where h: "proper_hist fs dir ps h" "h_sys h = s" using proper_reachable_history [OF assms(3)] by blast
  obtain k where k: "proper_hist fs dir ps k" "proper_hsteps fs dir ps h k" "h_sys k = s'"
    using proper_steps_have_history [OF assms(4) h] by blast
  have a: "safe_upto ps h (node_log (sys_node s i)) c (current_term (sys_node s i))"
    using commits.holds [OF h(1), unfolded commits_inv_def, rule_format, OF assms(1,2)] i h(2) safe_upto_le [OF _ c(2)] by blast
  have "safe_upto ps k (node_log (sys_node s' j)) c (current_term (sys_node s' j))"
    using commits.holds [OF k(1), unfolded commits_inv_def, rule_format, OF assms(1,2)] j k(3) safe_upto_le [OF _ c(3)] by blast
  then show ?thesis
    using safe_logs_agree [OF k(1) assms(1)] safe_upto_later [OF k(2) h(1) assms(1) a] c(1) by blast
qed

subsection \<open>Applied commands\<close>

lemma applied_actions_entry:
  assumes "ApplyEntry c cmd \<in> set (applied_actions l lo hi)"
  shows "lo < c \<and> c \<le> hi \<and> c < length l \<and> le_command (l ! c) = cmd"
proof -
  obtain i where i: "i \<in> {lo + 1 ..< hi + 1}" "ApplyEntry c cmd \<in> set (apply_action l i)"
    using assms unfolding applied_actions_def set_concat set_map set_upt by blast
  then have "i = c" "c < length l" "le_command (l ! c) = cmd"
    by (auto simp: apply_action_def log_get_def split: if_splits LogCommand.splits)
  then show ?thesis using i(1) by auto
qed

lemma maybe_advance_applied:
  assumes "ApplyEntry c cmd \<in> set (snd (maybe_advance_commit_index n))"
  shows "0 < c \<and> c \<le> commit_index (fst (maybe_advance_commit_index n)) \<and> c < length (node_log n) \<and> le_command (node_log n ! c) = cmd"
proof -
  obtain a where adv: "advance_loop [commit_index n + 1 ..< last_index (node_log n) + 1] (rn_state n) = (rn_state n)\<lparr>rs_commit_index := a\<rparr>"
    using advance_loop_frame by blast
  have "ApplyEntry c cmd \<in> set (applied_actions (node_log n) (last_applied n) a) \<and>
      commit_index (fst (maybe_advance_commit_index n)) = a"
    using assms unfolding maybe_advance_commit_index_def Let_def adv
    by (simp add: apply_committed_entries_eq split: if_splits)
  then show ?thesis using applied_actions_entry by fastforce
qed

lemma follow_commit_applied:
  assumes "ApplyEntry c cmd \<in> set (snd (follow_commit req n))"
  shows "0 < c \<and> c \<le> commit_index (fst (follow_commit req n)) \<and> c < length (node_log n) \<and> le_command (node_log n ! c) = cmd"
  using assms applied_actions_entry
  by (fastforce simp: follow_commit_def apply_committed_entries_eq Let_def split: if_splits)

lemma applied_entry:
  assumes "ApplyEntry c cmd \<in> set (snd (node_step fs x n))"
  shows "0 < c \<and> c \<le> commit_index (fst (node_step fs x n)) \<and> le_command (node_log (fst (node_step fs x n)) ! c) = cmd"
proof (cases x)
  case InTick
  then show ?thesis using assms by simp
next
  case (InPropose cmd')
  then show ?thesis
    using assms maybe_advance_applied [of c cmd "proposed fs cmd' n"]
    by (auto simp: propose_actions_def propose_eq split: if_splits)
next
  case (InMessage m)
  show ?thesis
  proof (cases m)
    case (NmAppendEntries j r)
    then show ?thesis
      using assms InMessage follow_commit_applied [of c cmd r "append_new_entries fs r (accept_leader fs r n)"]
      by (auto simp: raft_dispatch_def handle_append_entries_eq split: if_splits)
  next
    case (NmAppendEntriesResponse j r)
    then show ?thesis
      using assms InMessage maybe_advance_applied [of c cmd "n\<lparr>rn_state := note_response j r (rn_state n)\<rparr>"]
      by (auto simp: raft_dispatch_def handle_append_entries_response_eq split: if_splits)
  qed (use assms InMessage in \<open>auto simp: raft_dispatch_def handle_request_vote_def handle_request_vote_response_def Let_def
       split: if_splits\<close>)
qed

text \<open>The inputs a node may take in a proper run.\<close>

definition proper_input :: "u64 list \<Rightarrow> 'j raft_sys \<Rightarrow> u64 \<Rightarrow> node_input \<Rightarrow> bool" where
  "proper_input ps s i x \<longleftrightarrow> i \<in> set ps \<and>
     (case x of
        InTick \<Rightarrow> current_term (sys_node s i) \<noteq> - 1
      | InMessage m \<Rightarrow> (i, m) \<in> set (sys_net s) \<and> proper_delivery m (sys_node s i)
      | InPropose cmd \<Rightarrow> True)"

lemma proper_input_step: "proper_input ps s i x \<Longrightarrow> proper_step fs dir ps i s (run_handler i (node_step fs x) s)"
  by (cases x) (auto simp: proper_input_def node_step_fun intro: proper_tick proper_deliver proper_propose)

lemma proper_steps_trans:
  assumes "proper_steps fs dir ps t u" and "proper_steps fs dir ps s t"
  shows "proper_steps fs dir ps s u"
  using assms by (induction rule: proper_steps.induct) (auto intro: proper_next)

text \<open>
  C3. State machine safety. In every proper run, with any message loss, delay, reordering,
  duplication and any crashes, if a node applies a command at some index and later, at any moment,
  the same or another node applies a command at that index, the commands are the same.
\<close>

theorem state_machine_safety:
  assumes "good_fs fs" and "distinct ps" and "proper_reachable fs dir ps s"
    and "proper_input ps s i x" and "ApplyEntry c cmd \<in> set (snd (node_step fs x (sys_node s i)))"
    and "proper_steps fs dir ps (run_handler i (node_step fs x) s) t"
    and "proper_input ps t j y" and "ApplyEntry c cmd' \<in> set (snd (node_step fs y (sys_node t j)))"
  shows "cmd = cmd'"
proof -
  let ?s = "run_handler i (node_step fs x) s" and ?t = "run_handler j (node_step fs y) t"
  have ps: "i \<in> set ps" "j \<in> set ps" using assms(4,7) by (auto simp: proper_input_def)
  have r: "proper_reachable fs dir ps ?s"
    using assms(3) proper_input_step [OF assms(4)] unfolding proper_reachable_def by (rule proper_next)
  have t: "proper_steps fs dir ps ?s ?t" using assms(6) proper_input_step [OF assms(7)] by (rule proper_next)
  note a = applied_entry [OF assms(5)] and b = applied_entry [OF assms(8)]
  have "agrees (node_log (sys_node ?s i)) (node_log (sys_node ?t j)) c"
    using a b by (intro committed_prefixes_agree [OF assms(1,2) r t ps]) (simp_all add: run_handler_node)
  then have "node_log (sys_node ?s i) ! c = node_log (sys_node ?t j) ! c" by (rule agrees_nth) simp
  then show ?thesis using a b by (simp add: run_handler_node)
qed

subsection \<open>Executable proper runs\<close>

definition run_proper_event ::
  "'j json_fs \<Rightarrow> (u64 \<Rightarrow> string) \<Rightarrow> u64 list \<Rightarrow> raft_event \<Rightarrow> 'j raft_sys \<Rightarrow> 'j raft_sys option" where
  "run_proper_event fs dir ps e s =
     (case e of
        Deliver i k \<Rightarrow>
          if k < length (sys_net s) \<and> proper_delivery (snd (sys_net s ! k)) (sys_node s i) then run_event fs dir ps e s else None
      | _ \<Rightarrow> run_event fs dir ps e s)"

fun run_proper ::
  "'j json_fs \<Rightarrow> (u64 \<Rightarrow> string) \<Rightarrow> u64 list \<Rightarrow> raft_event list \<Rightarrow> 'j raft_sys \<Rightarrow> 'j raft_sys option" where
  "run_proper fs dir ps [] s = Some s"
| "run_proper fs dir ps (e # es) s =
     (case run_proper_event fs dir ps e s of None \<Rightarrow> None | Some s' \<Rightarrow> run_proper fs dir ps es s')"

lemma run_ticks_proper:
  assumes "run_ticks fs i k s = Some t" and "i \<in> set ps" and "proper_steps fs dir ps r s"
  shows "proper_steps fs dir ps r t"
  using assms by (induction k arbitrary: s) (auto split: if_splits intro: proper_next proper_tick)

lemma run_proper_event_sound:
  assumes "run_proper_event fs dir ps e s = Some t" and "proper_steps fs dir ps r s"
  shows "proper_steps fs dir ps r t"
proof -
  have e: "event_node e \<in> set ps"
    using assms(1) by (cases e) (auto simp: run_proper_event_def run_event_def split: if_splits)
  have "proper_steps fs dir ps r t" if "e = Deliver i k" for i k
  proof -
    have "(i, snd (sys_net s ! k)) \<in> set (sys_net s)" "proper_delivery (snd (sys_net s ! k)) (sys_node s i)"
      using assms(1) that by (auto simp: run_proper_event_def run_event_def split: if_splits)
    then show ?thesis
      using assms e that
      by (auto simp: run_proper_event_def run_event_def split: if_splits intro: proper_next proper_deliver)
  qed
  then show ?thesis
    using assms e run_ticks_proper
    by (cases e) (auto simp: run_proper_event_def run_event_def split: if_splits intro: proper_next proper_propose proper_restart)
qed

lemma run_proper_sound:
  assumes "run_proper fs dir ps es s = Some t" and "proper_steps fs dir ps r s"
  shows "proper_steps fs dir ps r t"
  using assms by (induction es arbitrary: s) (auto split: option.splits dest: run_proper_event_sound)

text \<open>
  A proper run: the leader's command is acknowledged by one follower (message 7), so the leader
  applies it; its next heartbeat (message 8) tells the follower, which applies it too.
\<close>

definition takes :: "u64 \<Rightarrow> nat \<Rightarrow> 'j raft_sys \<Rightarrow> bool" where
  "takes i k s \<longleftrightarrow> k < length (sys_net s) \<and> fst (sys_net s ! k) = i \<and> proper_delivery (snd (sys_net s ! k)) (sys_node s i)"

definition message :: "nat \<Rightarrow> 'j raft_sys \<Rightarrow> node_input" where
  "message k s = InMessage (snd (sys_net s ! k))"

lemma takes_proper_input: "takes i k s \<Longrightarrow> i \<in> set ps \<Longrightarrow> proper_input ps s i (message k s)"
  by (auto simp: takes_def proper_input_def message_def dest!: nth_mem)

lemma commit_run_result:
  "case run_proper memory_fs (\<lambda>_. ''data'') [1, 2, 3] replication_run (raft_init memory_fs (\<lambda>_. ''data'') [1, 2, 3]) of
     None \<Rightarrow> False
   | Some s \<Rightarrow>
       takes 2 7 s \<and> ApplyEntry 1 (Put ''k'' ''v'') \<in> set (snd (node_step memory_fs (message 7 s) (sys_node s 2))) \<and>
       (case run_proper memory_fs (\<lambda>_. ''data'') [1, 2, 3] [Ticks 2 3] (run_handler 2 (node_step memory_fs (message 7 s)) s) of
          None \<Rightarrow> False
        | Some t \<Rightarrow>
            takes 1 8 t \<and> list_ex (\<lambda>a. apply_index a = Some 1) (snd (node_step memory_fs (message 8 t) (sys_node t 1))))"
  by code_simp

theorem state_machine_safety_witness:
  "\<exists>s t. proper_reachable memory_fs (\<lambda>_. ''data'') [1, 2, 3] s \<and>
     proper_steps memory_fs (\<lambda>_. ''data'') [1, 2, 3] (run_handler 2 (node_step memory_fs (message 7 s)) s) t \<and>
     ApplyEntry 1 (Put ''k'' ''v'') \<in> set (snd (node_step memory_fs (message 7 s) (sys_node s 2))) \<and>
     ApplyEntry 1 (Put ''k'' ''v'') \<in> set (snd (node_step memory_fs (message 8 t) (sys_node t 1)))"
proof -
  let ?run = "run_proper memory_fs (\<lambda>_. ''data'') [1, 2, 3]"
  obtain s where s: "?run replication_run (raft_init memory_fs (\<lambda>_. ''data'') [1, 2, 3]) = Some s"
    using commit_run_result by (auto split: option.splits)
  obtain t where t: "?run [Ticks 2 3] (run_handler 2 (node_step memory_fs (message 7 s)) s) = Some t"
    using commit_run_result [unfolded s option.case] by (cases "?run [Ticks 2 3] (run_handler 2 (node_step memory_fs (message 7 s)) s)") auto
  note res = commit_run_result [unfolded s option.case t]
  then obtain cmd where cmd: "ApplyEntry 1 cmd \<in> set (snd (node_step memory_fs (message 8 t) (sys_node t 1)))"
    by (auto simp: list_ex_iff elim!: apply_index.elims)
  have r: "proper_reachable memory_fs (\<lambda>_. ''data'') [1, 2, 3] s"
    unfolding proper_reachable_def by (rule run_proper_sound [OF s proper_refl])
  have st: "proper_steps memory_fs (\<lambda>_. ''data'') [1, 2, 3] (run_handler 2 (node_step memory_fs (message 7 s)) s) t"
    by (rule run_proper_sound [OF t proper_refl])
  have "Put ''k'' ''v'' = cmd"
    using res by (intro state_machine_safety [OF good_memory_fs _ r takes_proper_input _ st takes_proper_input cmd]) auto
  then show ?thesis using r st res cmd by blast
qed

end
