(* ===== verification/Commit_Defects.thy ===== *)
theory Commit_Defects
  imports Commit_Safety
begin

text \<open>
  Why proper runs leave out the successful responses of an earlier term: one such delivery, in a
  run that is proper before and after it, makes two nodes apply different commands at one index.
  \<open>Raft_Defects\<close> does the same for the other kind of delivery they leave out.
\<close>

abbreviation five_nodes :: "u64 list" where "five_nodes \<equiv> [1, 2, 3, 4, 5]"
abbreviation same_dir :: "u64 \<Rightarrow> string" where "same_dir \<equiv> \<lambda>_. ''data''"

text \<open>
  Node 2 leads term 1 and node 1 acknowledges its two entries (message 18, delayed). Node 3 wins
  term 2 and overwrites them at node 2 by a single entry. Node 2 wins term 3, and its new entry at
  index 2 reaches node 4 only.
\<close>

definition ack_delayed :: "raft_event list" where
  "ack_delayed =
     [Ticks 2 37, Deliver 1 0, Deliver 3 1, Deliver 2 4, Deliver 2 5, Client 2 (Put ''k'' ''a''),
      Client 2 (Put ''k'' ''b''), Deliver 1 14,
      Ticks 3 39, Deliver 4 21, Deliver 5 22, Deliver 3 23, Deliver 3 24, Client 3 (Put ''k'' ''x''),
      Deliver 2 30, Deliver 4 31, Deliver 5 32,
      Ticks 2 57, Deliver 3 37, Deliver 4 38, Deliver 5 39, Deliver 2 41, Deliver 2 42,
      Client 2 (Put ''k'' ''c''), Deliver 4 49, Deliver 2 51]"

text \<open>Node 3 then wins term 4 with the votes of nodes 1 and 5, and replaces the entry at node 4.\<close>

definition entry_replaced :: "raft_event list" where
  "entry_replaced =
     [Ticks 3 57, Deliver 1 52, Deliver 5 55, Deliver 3 56, Deliver 3 57, Client 3 (Put ''k'' ''d''),
      Deliver 5 65, Deliver 4 64, Deliver 3 66]"

text \<open>The response that node 1 sent in term 1.\<close>

definition stale_ack :: node_input where
  "stale_ack = InMessage (NmAppendEntriesResponse 1 \<lparr>aer_term = 1, aer_success = True, aer_match_index = Some 2\<rparr>)"

lemma stale_ack_result:
  "case run_proper memory_fs same_dir five_nodes ack_delayed (raft_init memory_fs same_dir five_nodes) of
     None \<Rightarrow> False
   | Some s \<Rightarrow>
       18 < length (sys_net s) \<and> sys_net s ! 18 = (2, NmAppendEntriesResponse 1
         \<lparr>aer_term = 1, aer_success = True, aer_match_index = Some 2\<rparr>) \<and>
       current_term (sys_node s 2) = 3 \<and>
       ApplyEntry 2 (Put ''k'' ''c'') \<in> set (snd (node_step memory_fs stale_ack (sys_node s 2))) \<and>
       (case run_proper memory_fs same_dir five_nodes entry_replaced (run_handler 2 (node_step memory_fs stale_ack) s) of
          None \<Rightarrow> False
        | Some t \<Rightarrow>
            takes 3 67 t \<and> ApplyEntry 2 (Put ''k'' ''d'') \<in> set (snd (node_step memory_fs (message 67 t) (sys_node t 3))))"
  by code_simp

lemma stale_ack_run:
  obtains s t where
    "run_proper memory_fs same_dir five_nodes ack_delayed (raft_init memory_fs same_dir five_nodes) = Some s"
    "(2, NmAppendEntriesResponse 1 \<lparr>aer_term = 1, aer_success = True, aer_match_index = Some 2\<rparr>) \<in> set (sys_net s)"
    "current_term (sys_node s 2) = 3"
    "ApplyEntry 2 (Put ''k'' ''c'') \<in> set (snd (node_step memory_fs stale_ack (sys_node s 2)))"
    "run_proper memory_fs same_dir five_nodes entry_replaced (run_handler 2 (node_step memory_fs stale_ack) s) = Some t"
    "takes 3 67 t"
    "ApplyEntry 2 (Put ''k'' ''d'') \<in> set (snd (node_step memory_fs (message 67 t) (sys_node t 3)))"
  using stale_ack_result by (auto split: option.splits) (metis nth_mem)

text \<open>
  C34. A leader counts a successful AppendEntries response of an earlier term, although it says
  nothing about the leader's present log. There is a run of five nodes, proper but for the delivery
  of one such response, in which node 2 applies one command at index 2 and node 3 another.
\<close>

theorem stale_ack_diverges:
  "\<exists>s t x.
     proper_reachable memory_fs same_dir five_nodes s \<and>
     (2, NmAppendEntriesResponse 1 \<lparr>aer_term = 1, aer_success = True, aer_match_index = Some 2\<rparr>) \<in> set (sys_net s) \<and>
     current_term (sys_node s 2) = 3 \<and>
     ApplyEntry 2 (Put ''k'' ''c'') \<in> set (snd (node_step memory_fs stale_ack (sys_node s 2))) \<and>
     proper_steps memory_fs same_dir five_nodes (run_handler 2 (node_step memory_fs stale_ack) s) t \<and>
     proper_input five_nodes t 3 x \<and>
     ApplyEntry 2 (Put ''k'' ''d'') \<in> set (snd (node_step memory_fs x (sys_node t 3)))"
proof -
  obtain s t where s: "run_proper memory_fs same_dir five_nodes ack_delayed (raft_init memory_fs same_dir five_nodes) = Some s"
    and rest: "(2, NmAppendEntriesResponse 1 \<lparr>aer_term = 1, aer_success = True, aer_match_index = Some 2\<rparr>) \<in> set (sys_net s)"
      "current_term (sys_node s 2) = 3"
      "ApplyEntry 2 (Put ''k'' ''c'') \<in> set (snd (node_step memory_fs stale_ack (sys_node s 2)))"
    and t: "run_proper memory_fs same_dir five_nodes entry_replaced (run_handler 2 (node_step memory_fs stale_ack) s) = Some t"
    and last: "takes 3 67 t" "ApplyEntry 2 (Put ''k'' ''d'') \<in> set (snd (node_step memory_fs (message 67 t) (sys_node t 3)))"
    by (rule stale_ack_run)
  have "proper_reachable memory_fs same_dir five_nodes s"
    unfolding proper_reachable_def by (rule run_proper_sound [OF s proper_refl])
  moreover have "proper_steps memory_fs same_dir five_nodes (run_handler 2 (node_step memory_fs stale_ack) s) t"
    by (rule run_proper_sound [OF t proper_refl])
  moreover have "proper_input five_nodes t 3 (message 67 t)" by (rule takes_proper_input [OF last(1)]) simp
  ultimately show ?thesis using rest last(2) by blast
qed

end
