(* ===== verification/Spec2Isabelle.thy ===== *)
theory Spec2Isabelle
  imports Repo_Tests Cluster_Runs Commit_Defects
begin

text \<open>
  RaftKV: a verification of the distributed key-value store under \<^verbatim>\<open>src/src\<close>.

  \<^bold>\<open>The program.\<close> A node is one process. \<^verbatim>\<open>main.rs\<close> reads the command line and starts a
  \<^verbatim>\<open>Server\<close> (\<^verbatim>\<open>network/server.rs\<close>), which shares one \<^verbatim>\<open>ClusterNode\<close> (\<^verbatim>\<open>cluster.rs\<close>) between four
  threads under a mutex: the tick thread, the peer listener (\<^verbatim>\<open>transport.rs\<close>), the client
  accept loop and the metrics endpoint (\<^verbatim>\<open>metrics.rs\<close>). The cluster node holds a Raft node
  (\<^verbatim>\<open>raft/*.rs\<close>), a storage engine (\<^verbatim>\<open>storage/*.rs\<close>: write-ahead log and memtable), a queue of outbound
  messages and possibly a shard router (\<^verbatim>\<open>sharding/*.rs\<close>). Client commands arrive in the protocol of
  \<^verbatim>\<open>network/protocol.rs\<close>; writes are proposed to Raft, and the actions Raft returns are messages for
  the peers and committed commands for the storage engine.

  \<^bold>\<open>Theories and sources.\<close> In the order of their imports:
  \<^item> \<^theory_text>\<open>Prelude\<close>: machine integers, ordered maps as sorted association lists, and the locales for
    transition systems, inductive invariants, forward simulations and quorums.
  \<^item> \<^theory_text>\<open>Rust_Text\<close>: the parts of \<^verbatim>\<open>str\<close> and \<^verbatim>\<open>fmt\<close> the program uses (lines, split, decimal numbers).
  \<^item> \<^theory_text>\<open>KV_Spec\<close>: the abstract key-value map and the locales \<open>kv_store\<close> and \<open>durable_kv_store\<close>.
  \<^item> \<^theory_text>\<open>Wal\<close>, \<^theory_text>\<open>Memtable\<close>, \<^theory_text>\<open>Engine\<close>: \<^verbatim>\<open>storage/wal.rs\<close>, \<^verbatim>\<open>memtable.rs\<close>, \<^verbatim>\<open>engine.rs\<close>. The file is its
    bytes and how many of them are on the disk; a crash cuts the rest anywhere. Every I/O call may fail.
  \<^item> \<^theory_text>\<open>Raft_Log\<close>, \<^theory_text>\<open>Raft_State\<close>, \<^theory_text>\<open>Raft_Persist\<close>, \<^theory_text>\<open>Raft_Node\<close>: \<^verbatim>\<open>raft/log.rs\<close>, \<^verbatim>\<open>state.rs\<close> (and
    \<^verbatim>\<open>message.rs\<close>), \<^verbatim>\<open>persist.rs\<close>, \<^verbatim>\<open>node.rs\<close>, one definition per method.
  \<^item> \<^theory_text>\<open>Raft_Contract\<close>: the contract \<open>raft_handler\<close> that every method of the Raft node satisfies.
  \<^item> \<^theory_text>\<open>Raft_System\<close>: a group of Raft nodes and a network that loses, delays, reorders and duplicates, as
    a step relation and as executable schedules.
  \<^item> \<^theory_text>\<open>Election_Safety\<close>, \<^theory_text>\<open>Log_Matching\<close>, \<^theory_text>\<open>Raft_Commit\<close>, \<^theory_text>\<open>Raft_Behaviour\<close>, \<^theory_text>\<open>Raft_Defects\<close>: what holds of
    every run of the group, of a node on its own, and where Raft's guarantees fail.
  \<^item> \<^theory_text>\<open>Leader_Logs\<close>, \<^theory_text>\<open>Proper_Runs\<close>, \<^theory_text>\<open>Acks\<close>, \<^theory_text>\<open>Leader_Completeness\<close>, \<^theory_text>\<open>Commit_Safety\<close>, \<^theory_text>\<open>Commit_Defects\<close>: the proof
    that nodes apply the same commands. \<open>proper_delivery\<close> names the two checks the handlers leave out;
    in the runs where these make no difference every acknowledgement means what the leader takes it for,
    every later leader holds what was committed, and committed prefixes agree.
  \<^item> \<^theory_text>\<open>Ring\<close>, \<^theory_text>\<open>Router\<close>: \<^verbatim>\<open>sharding/ring.rs\<close> and \<^verbatim>\<open>router.rs\<close>, with the locale \<open>partitioner\<close>;
    \<^theory_text>\<open>Ring_Eval\<close> computes the hash and the owners of concrete keys in the kernel.
  \<^item> \<^theory_text>\<open>Protocol\<close>: \<^verbatim>\<open>network/protocol.rs\<close>.
  \<^item> \<^theory_text>\<open>Cluster\<close>, \<^theory_text>\<open>Cluster_Spec\<close>: \<^verbatim>\<open>cluster.rs\<close> and what it promises, with the locale \<open>kv_service\<close>.
  \<^item> \<^theory_text>\<open>Wire_Codec\<close>, \<^theory_text>\<open>Transport\<close>: a concrete codec, and \<^verbatim>\<open>transport.rs\<close>.
  \<^item> \<^theory_text>\<open>Server\<close>, \<^theory_text>\<open>Server_Spec\<close>: \<^verbatim>\<open>network/server.rs\<close> and what it promises.
  \<^item> \<^theory_text>\<open>Metrics\<close>: \<^verbatim>\<open>metrics.rs\<close>. \<^theory_text>\<open>Startup\<close>: \<^verbatim>\<open>main\<close> of \<^verbatim>\<open>main.rs\<close>.
  \<^item> \<^theory_text>\<open>Cluster_System\<close>, \<^theory_text>\<open>Cluster_Runs\<close>: the deployed program, all nodes and the bytes between them, and
    the two simulations between it and the Raft group.
  \<^item> \<^theory_text>\<open>Repo_Tests\<close>: the unit tests of \<^verbatim>\<open>main.rs\<close>.

  \<^bold>\<open>How the code is rendered.\<close> Structs are records (field prefix: the initials of the type), enums
  datatypes, \<^verbatim>\<open>u64\<close> and \<^verbatim>\<open>u16\<close> words with their wrap-around, \<^verbatim>\<open>usize\<close> indices naturals (the log never has
  \<open>2 ^ 64\<close> entries), methods functions that take and return the struct, \<^verbatim>\<open>io::Result\<close> a sum type. Outcomes
  of system calls are arguments (\<open>wal_io\<close>, the fields of \<open>cluster_disk\<close> and \<open>client_env\<close>). Loops are
  recursive functions with a termination proof; \<^verbatim>\<open>await_commit\<close>, which waits for other threads, is a
  \<^theory_text>\<open>partial_function\<close> with a theorem that it returns. A read from a client may also yield nothing for
  ever, and then the session does not return. Mutexes are modelled by atomicity: a step of the
  deployed program is one critical section of one thread, or a crash, which may fall between two
  sections, at any byte of a write to the log file inside one, or between the two saves of the Raft state
  in a handler.

  \<^bold>\<open>What is assumed.\<close> \<open>good_fs\<close>: \<^verbatim>\<open>serde_json\<close> reads back what it wrote, and the writes and reads of the
  Raft state file succeed and are atomic with respect to crashes; what happens otherwise is
  \<open>damaged_state_file_forgets\<close>. \<open>good_codec\<close>: serde reads back peer messages, and compact JSON has no line
  breaks; \<^theory_text>\<open>Wire_Codec\<close> shows it can hold. A tick that starts an election finds room for the next term in a
  \<^verbatim>\<open>u64\<close>. \<open>time_passes\<close> and the clock hypotheses of \<open>await_commit_outcome\<close>: \<^verbatim>\<open>Instant\<close> is monotonic and
  \<^verbatim>\<open>sleep\<close> takes its time. \<^verbatim>\<open>to_uppercase\<close> is taken on ASCII letters, and texts are byte strings. That a file or a line is valid UTF-8 is
  part of the outcome of reading it. A crash is a power failure: what is found in a log file when it is
  opened counts as on the disk.

  \<^bold>\<open>What is shown.\<close>
  \<^item> Raft: in every run a term has one leader, votes are final, logs match, leaders only append; the exact
    commit and voting rules; elections and heartbeats happen on time; a node applies each index once and in
    order between two restarts. In proper runs no two nodes ever apply different commands at an index,
    and each of the two restrictions is needed: the defects below are runs that break only one of them.
  \<^item> Storage: after a crash at any byte, inside a write too, the engine shows the map of the acknowledged
    operations and of what the last, possibly torn, line is read as; the file format round-trips exactly
    on texts without separators; every I/O failure's outcome, down to the bytes of the log.
  \<^item> Sharding: the ring lookup is the clockwise next point; routing is total; adding or removing a shard
    moves no key it does not have to.
  \<^item> Clients: requests round-trip, the two parsers agree, clients are served until one of them falls silent,
    a refused command changes
    nothing, and the bytes a client of a single-node cluster gets are those of the key-value map, from
    the start of the process on.
  \<^item> The whole program: every run of the deployed program is a run of the Raft group, and every schedule
    of the group with real messages is a run of the program; so the safety theorems, and the defects, are
    those of the program. Between critical sections the state of every node is well-formed.
  \<^item> The twelve unit tests of the repository pass on the model.
  \<^item> Defects: nodes that apply different commands at one index, through a match index beyond what was
    sent and through an acknowledgement of an earlier term; an acknowledged write that is lost, a
    follower that is never repaired, a put that reappears after a failed fsync or is lost after a torn line,
    a torn delete that deletes another key, a silent client that blocks all others, a failed apply that is
    acknowledged, a damaged state file that lets a node vote twice.

  \<^bold>\<open>Bounds.\<close> No fuel is used. The concrete runs (\<open>phantom_run\<close>, \<open>divergent_run\<close>, \<open>overtaking_run\<close>,
  \<open>first_election\<close>, \<open>ack_delayed\<close>) are evaluated by the kernel; their tick counts are the randomised timeouts the
  generator of \<^verbatim>\<open>reset_election_timeout\<close> gives for these node ids.

  \<^bold>\<open>Not modelled.\<close> Console output; sockets, their timeouts and the creation of threads (a connection
  delivers a whole line or nothing); poisoning of the mutex; \<^verbatim>\<open>serde_json\<close> itself; the removal
  of the test directories; the \<^verbatim>\<open>mod.rs\<close> files, which only declare modules; the deployment files
  (Docker, Prometheus, Grafana, \<^verbatim>\<open>chaos.sh\<close>).
\<close>

end
